(* ===== verification/Prelude.thy ===== *)
theory Prelude
  imports Main "HOL-Library.Word"
begin

text \<open>
  Shared vocabulary of the development: Go's bytes, strings, machine integers, errors and
  panics, the big-endian integers of \<open>encoding/binary\<close>, \<open>copy\<close> on slices, and the
  generic lemmas the component theories use.

  \<^item> \<open>[]byte\<close> is \<open>bytes\<close>, a list of \<open>8 word\<close>; a Go \<open>string\<close> is a HOL
    \<open>string\<close>, whose \<open>char\<close>s are bytes too. \<open>bytes_of_string\<close> and
    \<open>string_of_bytes\<close> are Go's conversions.
  \<^item> A Go function that returns an \<open>error\<close> or panics has result type \<open>'a res\<close>.
    \<open>gerror\<close> has one constructor per kind of error value the code tests for or builds;
    \<open>Errorf\<close> keeps the format string with its numeric and string arguments.
\<close>

unbundle bit_operations_syntax

named_theorems wire_simps "evaluation of the wire-format primitives"
named_theorems res_simps "case analysis of results"

type_synonym byte = "8 word"
type_synonym bytes = "8 word list"
type_synonym u32 = "32 word"
type_synonym u64 = "64 word"

datatype gerror =
    IoEOF
  | UnexpectedEOF
  | ErrNew string
  | Errorf string "nat list" "string list"
  | ErrTimeout string
  | DisconnectErr u32 string string
  | OpenChannelErr u32 string
  | CbcError string

datatype 'a res = Ok 'a | Err gerror | Panic string

fun res_bind :: "'a res \<Rightarrow> ('a \<Rightarrow> 'b res) \<Rightarrow> 'b res" where
  "res_bind (Ok x) f = f x"
| "res_bind (Err e) f = Err e"
| "res_bind (Panic s) f = Panic s"

fun is_Ok :: "'a res \<Rightarrow> bool" where
  "is_Ok (Ok x) = True"
| "is_Ok _ = False"

fun is_Panic :: "'a res \<Rightarrow> bool" where
  "is_Panic (Panic s) = True"
| "is_Panic _ = False"

lemma res_bind_Ok_iff [res_simps]: "res_bind r f = Ok y \<longleftrightarrow> (\<exists>x. r = Ok x \<and> f x = Ok y)"
  by (cases r) auto

lemma res_bind_Panic_iff [res_simps]:
  "is_Panic (res_bind r f) \<longleftrightarrow> is_Panic r \<or> (\<exists>x. r = Ok x \<and> is_Panic (f x))"
  by (cases r) auto

lemma is_Ok_iff [res_simps]: "is_Ok r \<longleftrightarrow> (\<exists>x. r = Ok x)"
  by (cases r) auto

section \<open>Strings and bytes\<close>

definition byte_of_char :: "char \<Rightarrow> byte" where
  "byte_of_char c = word_of_nat (of_char c)"

definition char_of_byte :: "byte \<Rightarrow> char" where
  "char_of_byte b = char_of (unat b)"

definition bytes_of_string :: "string \<Rightarrow> bytes" where
  "bytes_of_string s = map byte_of_char s"

definition string_of_bytes :: "bytes \<Rightarrow> string" where
  "string_of_bytes b = map char_of_byte b"

lemma unat_byte_less [simp]: "unat (b :: byte) < 256"
  using unsigned_less [of b] by simp

lemma unat_u32_less: "unat (w :: u32) < 4294967296"
  using unsigned_less [of w] by simp

lemma unat_byte_of_char [simp]: "unat (byte_of_char c) = of_char c"
  by (simp add: byte_of_char_def unat_of_nat)

lemma char_of_byte_of_char [simp]: "char_of_byte (byte_of_char c) = c"
  by (simp add: char_of_byte_def)

lemma byte_of_char_of_byte [simp]: "byte_of_char (char_of_byte b) = b"
  by (simp add: byte_of_char_def char_of_byte_def of_char_of)

lemma string_of_bytes_of_string [simp]: "string_of_bytes (bytes_of_string s) = s"
  by (simp add: string_of_bytes_def bytes_of_string_def comp_def)

lemma bytes_of_string_of_bytes [simp]: "bytes_of_string (string_of_bytes b) = b"
  by (simp add: string_of_bytes_def bytes_of_string_def comp_def)

lemma length_bytes_of_string [simp]: "length (bytes_of_string s) = length s"
  by (simp add: bytes_of_string_def)

lemma length_string_of_bytes [simp]: "length (string_of_bytes b) = length b"
  by (simp add: string_of_bytes_def)

lemma bytes_of_string_eq_iff [simp]: "bytes_of_string s = bytes_of_string t \<longleftrightarrow> s = t"
  by (metis string_of_bytes_of_string)

lemma bytes_of_string_Nil [simp]: "bytes_of_string [] = []"
  by (simp add: bytes_of_string_def)

section \<open>Big-endian integers (encoding/binary)\<close>

text \<open>
  \<open>be32\<close> is what \<open>BigEndian.PutUint32\<close> writes and \<open>beUint32\<close> is
  \<open>BigEndian.Uint32\<close>. The Go function panics on a slice shorter than four bytes; every
  caller of \<open>beUint32\<close> in the model checks the length first, as the source does.
\<close>

definition be32 :: "u32 \<Rightarrow> bytes" where
  "be32 n = [ucast (drop_bit 24 n), ucast (drop_bit 16 n), ucast (drop_bit 8 n), ucast n]"

fun beUint32 :: "bytes \<Rightarrow> u32" where
  "beUint32 (b0 # b1 # b2 # b3 # bs) =
     push_bit 24 (ucast b0) OR push_bit 16 (ucast b1) OR push_bit 8 (ucast b2) OR ucast b3"
| "beUint32 bs = 0"

definition be64 :: "u64 \<Rightarrow> bytes" where
  "be64 n = [ucast (drop_bit 56 n), ucast (drop_bit 48 n), ucast (drop_bit 40 n),
     ucast (drop_bit 32 n), ucast (drop_bit 24 n), ucast (drop_bit 16 n), ucast (drop_bit 8 n),
     ucast n]"

fun beUint64 :: "bytes \<Rightarrow> u64" where
  "beUint64 (b0 # b1 # b2 # b3 # b4 # b5 # b6 # b7 # bs) =
     push_bit 56 (ucast b0) OR push_bit 48 (ucast b1) OR push_bit 40 (ucast b2) OR
     push_bit 32 (ucast b3) OR push_bit 24 (ucast b4) OR push_bit 16 (ucast b5) OR
     push_bit 8 (ucast b6) OR ucast b7"
| "beUint64 bs = 0"

lemma length_be32 [simp]: "length (be32 n) = 4"
  by (simp add: be32_def)

lemma length_be64 [simp]: "length (be64 n) = 8"
  by (simp add: be64_def)





lemmas bit_word_simps = bit_or_iff bit_push_bit_iff bit_unsigned_iff bit_drop_bit_eq

lemma beUint32_be32 [simp]: "beUint32 (be32 n @ bs) = n"
proof (rule bit_word_eqI)
  fix i assume i: "i < LENGTH(32)"
  then consider "0 \<le> i" "i < 8" | "8 \<le> i" "i < 16" | "16 \<le> i" "i < 24" | "24 \<le> i" "i < 32"
    by simp linarith
  then show "bit (beUint32 (be32 n @ bs)) i = bit n i"
    by cases (simp_all add: be32_def bit_word_simps less_diff_conv2 cong: conj_cong)
qed

lemma beUint64_be64 [simp]: "beUint64 (be64 n @ bs) = n"
proof (rule bit_word_eqI)
  fix i assume i: "i < LENGTH(64)"
  then consider "0 \<le> i" "i < 8" | "8 \<le> i" "i < 16" | "16 \<le> i" "i < 24" | "24 \<le> i" "i < 32" | "32 \<le> i" "i < 40" | "40 \<le> i" "i < 48" | "48 \<le> i" "i < 56" | "56 \<le> i" "i < 64"
    by simp linarith
  then show "bit (beUint64 (be64 n @ bs)) i = bit n i"
    by cases (simp_all add: be64_def bit_word_simps less_diff_conv2 cong: conj_cong)
qed

lemma ucast_or_bytes:
  fixes a b c d :: byte
  defines "w \<equiv> push_bit 24 (ucast a) OR push_bit 16 (ucast b) OR push_bit 8 (ucast c) OR ucast d :: u32"
  shows "ucast (drop_bit 24 w) = a" "ucast (drop_bit 16 w) = b" "ucast (drop_bit 8 w) = c" "ucast w = d"
  unfolding w_def
  by (rule bit_word_eqI; simp add: bit_word_simps; (auto dest: bit_imp_le_length)?)+

lemma be32_beUint32: "4 \<le> length bs \<Longrightarrow> be32 (beUint32 bs) = take 4 bs"
  by (cases bs rule: beUint32.cases) (auto simp: be32_def ucast_or_bytes simp del: drop_bit_or)

lemma ucast_or_bytes64:
  fixes a b c d e f g h :: byte
  defines "w \<equiv> push_bit 56 (ucast a) OR push_bit 48 (ucast b) OR push_bit 40 (ucast c) OR
     push_bit 32 (ucast d) OR push_bit 24 (ucast e) OR push_bit 16 (ucast f) OR
     push_bit 8 (ucast g) OR ucast h :: u64"
  shows "ucast (drop_bit 56 w) = a" "ucast (drop_bit 48 w) = b" "ucast (drop_bit 40 w) = c"
    "ucast (drop_bit 32 w) = d" "ucast (drop_bit 24 w) = e" "ucast (drop_bit 16 w) = f"
    "ucast (drop_bit 8 w) = g" "ucast w = h"
  unfolding w_def
  by (rule bit_word_eqI; simp add: bit_word_simps; (auto dest: bit_imp_le_length)?)+

lemma be64_beUint64: "8 \<le> length bs \<Longrightarrow> be64 (beUint64 bs) = take 8 bs"
  by (cases bs rule: beUint64.cases) (auto simp: be64_def ucast_or_bytes64 simp del: drop_bit_or)

end
