(* ===== verification/Wire.thy ===== *)
theory Wire
  imports Prelude
begin

text \<open>
  The primitives of the SSH wire format (\<open>src/messages.go\<close>, lines 509 to 697, and the
  \<open>append\<close> functions of \<open>src/common.go\<close>): length-prefixed strings, name lists,
  multi-precision integers and fixed-width integers, with the parts of \<open>math/big\<close>,
  \<open>bytes.Split\<close> and \<open>copy\<close> they use. The locale \<open>codec\<close> states the contract
  every encoder and parser pair keeps (a parser reads back exactly what the encoder wrote and
  leaves the rest), with injectivity and unique decodability proved once; it is interpreted on
  the code's own pairs.
\<close>

section \<open>Standard library\<close>

text \<open>\<open>copy(dst[off:], src)\<close>: overwrite in place, dropping what does not fit.\<close>

definition copy_at :: "'a list \<Rightarrow> nat \<Rightarrow> 'a list \<Rightarrow> 'a list" where
  "copy_at dst off src = take off dst @ take (length dst - off) src @ drop (off + length src) dst"

text \<open>\<open>bytes.Split\<close> and \<open>strings.Split\<close> with a separator of one byte.\<close>

fun split_on :: "'a \<Rightarrow> 'a list \<Rightarrow> 'a list list" where
  "split_on c [] = [[]]"
| "split_on c (x # xs) =
     (if x = c then [] # split_on c xs
      else (case split_on c xs of [] \<Rightarrow> [[x]] | y # ys \<Rightarrow> (x # y) # ys))"

text \<open>\<open>big.Int\<close>: \<open>SetBytes\<close>, \<open>Bytes\<close> and \<open>BitLen\<close> of a non-negative number.\<close>

definition setBytes :: "bytes \<Rightarrow> nat" where
  "setBytes bs = foldl (\<lambda>a b. a * 256 + unat b) 0 bs"

fun natBytes :: "nat \<Rightarrow> bytes" where
  "natBytes n = (if n = 0 then [] else natBytes (n div 256) @ [word_of_nat (n mod 256)])"

fun bitLen :: "nat \<Rightarrow> nat" where
  "bitLen n = (if n = 0 then 0 else Suc (bitLen (n div 2)))"

declare natBytes.simps [simp del] bitLen.simps [simp del]

section \<open>Appending (src/common.go)\<close>

definition appendU16 :: "bytes \<Rightarrow> 16 word \<Rightarrow> bytes" where
  "appendU16 buf n = buf @ [ucast (drop_bit 8 n), ucast n]"

definition appendU32 :: "bytes \<Rightarrow> u32 \<Rightarrow> bytes" where
  "appendU32 buf n =
     buf @ [ucast (drop_bit 24 n), ucast (drop_bit 16 n), ucast (drop_bit 8 n), ucast n]"

definition appendU64 :: "bytes \<Rightarrow> u64 \<Rightarrow> bytes" where
  "appendU64 buf n =
     buf @ [ucast (drop_bit 56 n), ucast (drop_bit 48 n), ucast (drop_bit 40 n),
       ucast (drop_bit 32 n), ucast (drop_bit 24 n), ucast (drop_bit 16 n), ucast (drop_bit 8 n),
       ucast n]"

definition appendInt :: "bytes \<Rightarrow> nat \<Rightarrow> bytes" where
  "appendInt buf n = appendU32 buf (word_of_nat n)"

definition appendString :: "bytes \<Rightarrow> string \<Rightarrow> bytes" where
  "appendString buf s = appendU32 buf (word_of_nat (length s)) @ bytes_of_string s"

definition appendBool :: "bytes \<Rightarrow> bool \<Rightarrow> bytes" where
  "appendBool buf b = (if b then buf @ [1] else buf @ [0])"

section \<open>Parsing (src/messages.go)\<close>

definition parseString :: "bytes \<Rightarrow> (bytes \<times> bytes) option" where
  "parseString inp =
     (if length inp < 4 then None
      else let len = beUint32 inp; inp' = drop 4 inp in
        if (word_of_nat (length inp') :: u32) < len then None
        else Some (take (unat len) inp', drop (unat len) inp'))"

definition comma :: byte where
  "comma = 44"

definition parseNameList :: "bytes \<Rightarrow> (string list \<times> bytes) option" where
  "parseNameList inp =
     (case parseString inp of None \<Rightarrow> None
      | Some (contents, rest) \<Rightarrow>
          if contents = [] then Some ([], rest)
          else Some (map string_of_bytes (split_on comma contents), rest))"

definition parseInt :: "bytes \<Rightarrow> (int \<times> bytes) option" where
  "parseInt inp =
     (case parseString inp of None \<Rightarrow> None
      | Some (contents, rest) \<Rightarrow>
          if contents \<noteq> [] \<and> hd contents AND 0x80 = 0x80
          then Some (- (int (setBytes (map NOT contents)) + 1), rest)
          else Some (int (setBytes contents), rest))"

definition parseUint32 :: "bytes \<Rightarrow> (u32 \<times> bytes) option" where
  "parseUint32 inp = (if length inp < 4 then None else Some (beUint32 inp, drop 4 inp))"

definition parseUint64 :: "bytes \<Rightarrow> (u64 \<times> bytes) option" where
  "parseUint64 inp = (if length inp < 8 then None else Some (beUint64 inp, drop 8 inp))"

section \<open>Writing into a buffer (src/messages.go)\<close>

text \<open>
  These functions write at the start of the slice \<open>to\<close> and return the slice after what they
  wrote. The model returns the updated slice too; an index outside the slice is a panic.
\<close>

definition intLength :: "int \<Rightarrow> nat" where
  "intLength n =
     (if n < 0 then
        (let bl = bitLen (nat (- n - 1)) in 4 + (if bl mod 8 = 0 then 1 else 0) + (bl + 7) div 8)
      else if n = 0 then 4
      else (let bl = bitLen (nat n) in 4 + (if bl mod 8 = 0 then 1 else 0) + (bl + 7) div 8))"

definition marshalUint32 :: "bytes \<Rightarrow> u32 \<Rightarrow> (bytes \<times> bytes) res" where
  "marshalUint32 to n =
     (if length to < 4 then Panic ''index out of range''
      else let to' = copy_at to 0 (be32 n) in Ok (to', drop 4 to'))"

definition marshalUint64 :: "bytes \<Rightarrow> u64 \<Rightarrow> (bytes \<times> bytes) res" where
  "marshalUint64 to n =
     (if length to < 8 then Panic ''index out of range''
      else let to' = copy_at to 0 (be64 n) in Ok (to', drop 8 to'))"

text \<open>The padding and the magnitude bytes that \<open>marshalInt\<close> writes after the length.\<close>

definition intPad :: "int \<Rightarrow> bytes" where
  "intPad n =
     (if n < 0 then
        (let bs = map (\<lambda>b. b XOR 0xff) (natBytes (nat (- n - 1))) in
           if bs = [] \<or> hd bs AND 0x80 = 0 then [0xff] else [])
      else if n = 0 then []
      else (let bs = natBytes (nat n) in if bs \<noteq> [] \<and> hd bs AND 0x80 \<noteq> 0 then [0] else []))"

definition intMagnitude :: "int \<Rightarrow> bytes" where
  "intMagnitude n =
     (if n < 0 then map (\<lambda>b. b XOR 0xff) (natBytes (nat (- n - 1)))
      else if n = 0 then [] else natBytes (nat n))"

definition marshalInt :: "bytes \<Rightarrow> int \<Rightarrow> (bytes \<times> bytes) res" where
  "marshalInt to n =
     (let pad = intPad n; bs = intMagnitude n in
      if length to < 4 + length pad then Panic ''index out of range''
      else
        let nBytes = min (length to - (4 + length pad)) (length bs);
            len = length pad + nBytes;
            to' = copy_at (copy_at (copy_at to 4 pad) (4 + length pad) bs) 0 (be32 (word_of_nat len))
        in Ok (to', drop (4 + len) to'))"

definition writeInt :: "bytes \<Rightarrow> int \<Rightarrow> bytes res" where
  "writeInt w n =
     res_bind (marshalInt (replicate (intLength n) 0) n) (\<lambda>(buf, _). Ok (w @ buf))"

definition writeString :: "bytes \<Rightarrow> bytes \<Rightarrow> bytes" where
  "writeString w s = w @ be32 (word_of_nat (length s)) @ s"

definition stringLength :: "nat \<Rightarrow> nat" where
  "stringLength n = 4 + n"

definition marshalString :: "bytes \<Rightarrow> bytes \<Rightarrow> (bytes \<times> bytes) res" where
  "marshalString to s =
     (if length to < 4 + length s then Panic ''index out of range''
      else let to' = copy_at (copy_at to 0 (be32 (word_of_nat (length s)))) 4 s
        in Ok (to', drop (4 + length s) to'))"

section \<open>Lemmas: strings\<close>

lemma appendU32_be32 [wire_simps]: "appendU32 buf n = buf @ be32 n"
  by (simp add: appendU32_def be32_def)

lemma appendU64_be64 [wire_simps]: "appendU64 buf n = buf @ be64 n"
  by (simp add: appendU64_def be64_def)

lemma appendInt_be32 [wire_simps]: "appendInt buf n = buf @ be32 (word_of_nat n)"
  by (simp add: appendInt_def appendU32_be32)

lemma copy_at_fits: "off + length src \<le> length dst \<Longrightarrow>
    copy_at dst off src = take off dst @ src @ drop (off + length src) dst"
  by (simp add: copy_at_def)

lemma length_copy_at [simp]: "off \<le> length dst \<Longrightarrow> length (copy_at dst off src) = length dst"
  by (auto simp: copy_at_def)

lemma unat_word_of_nat_small [simp]: "n < 2 ^ 32 \<Longrightarrow> unat (word_of_nat n :: u32) = n"
  by (simp add: unat_of_nat)

lemma parseString_be32:
  assumes "length (s @ r) < 2 ^ 32"
  shows "parseString (be32 (word_of_nat (length s)) @ s @ r) = Some (s, r)"
proof -
  have "\<not> (word_of_nat (length s + length r) :: u32) < word_of_nat (length s)"
    using assms by (simp add: word_less_nat_alt unat_of_nat del: of_nat_add)
  with assms show ?thesis
    by (simp add: parseString_def unat_of_nat del: of_nat_add)
qed

lemma parseString_SomeD:
  assumes "parseString inp = Some (s, r)"
  shows "inp = be32 (word_of_nat (length s)) @ s @ r \<and> length s < 2 ^ 32"
proof -
  let ?len = "beUint32 inp"
  from assms have l: "4 \<le> length inp" and
    c: "\<not> (word_of_nat (length (drop 4 inp)) :: u32) < ?len" and
    s: "s = take (unat ?len) (drop 4 inp)" and r: "r = drop (unat ?len) (drop 4 inp)"
    by (auto simp: parseString_def Let_def split: if_splits)
  have "unat (word_of_nat (length (drop 4 inp)) :: u32) \<le> length (drop 4 inp)"
    by (simp add: unat_of_nat)
  with c have le: "unat ?len \<le> length (drop 4 inp)"
    by (simp add: word_less_nat_alt)
  then have ls: "length s = unat ?len" by (simp add: s)
  then have "be32 (word_of_nat (length s)) = take 4 inp"
    using l by (simp add: be32_beUint32)
  moreover have "drop 4 inp = s @ r" unfolding s r by (rule append_take_drop_id [symmetric])
  ultimately have "inp = be32 (word_of_nat (length s)) @ s @ r"
    by (metis append_take_drop_id)
  moreover have "length s < 2 ^ 32"
    using unat_u32_less [of ?len] by (simp add: ls)
  ultimately show ?thesis by simp
qed

lemma parseString_shorter: "parseString inp = Some (s, r) \<Longrightarrow> length r < length inp"
  by (drule parseString_SomeD) auto

section \<open>Lemmas: name lists\<close>

text \<open>What \<open>marshalStruct\<close> writes for a list of names, after the length (lines 471 to 478).\<close>

fun nameListBytes :: "string list \<Rightarrow> bytes" where
  "nameListBytes [] = []"
| "nameListBytes [x] = bytes_of_string x"
| "nameListBytes (x # xs) = bytes_of_string x @ comma # nameListBytes xs"

lemma split_on_Nil [simp]: "split_on c xs \<noteq> []"
  by (induction xs) (auto split: list.splits)

lemma split_on_no_sep: "c \<notin> set xs \<Longrightarrow> split_on c xs = [xs]"
  by (induction xs) auto

lemma split_on_append: "c \<notin> set xs \<Longrightarrow> split_on c (xs @ c # ys) = xs # split_on c ys"
  by (induction xs) auto

lemma split_on_nameListBytes:
  "xs \<noteq> [] \<Longrightarrow> \<forall>x \<in> set xs. comma \<notin> set (bytes_of_string x) \<Longrightarrow>
     split_on comma (nameListBytes xs) = map bytes_of_string xs"
  by (induction xs rule: nameListBytes.induct) (auto simp: split_on_no_sep split_on_append)

fun join_on :: "'a \<Rightarrow> 'a list list \<Rightarrow> 'a list" where
  "join_on c [] = []"
| "join_on c [x] = x"
| "join_on c (x # xs) = x @ c # join_on c xs"

lemma join_on_Cons: "xs \<noteq> [] \<Longrightarrow> join_on c (x # xs) = x @ c # join_on c xs"
  by (cases xs) auto

lemma join_split_on: "join_on c (split_on c xs) = xs"
proof (induction xs)
  case (Cons x xs)
  show ?case
  proof (cases "x = c")
    case True
    with Cons show ?thesis by (simp add: join_on_Cons)
  next
    case False
    obtain y ys where "split_on c xs = y # ys" by (cases "split_on c xs") auto
    with False Cons show ?thesis by (cases ys) auto
  qed
qed simp

lemma nameListBytes_join: "nameListBytes xs = join_on comma (map bytes_of_string xs)"
  by (induction xs rule: nameListBytes.induct) auto

lemma nameListBytes_split: "nameListBytes (map string_of_bytes (split_on comma b)) = b"
  by (simp add: nameListBytes_join comp_def join_split_on)

definition names_ok :: "string list \<Rightarrow> bool" where
  "names_ok xs \<longleftrightarrow> xs \<noteq> [[]] \<and> (\<forall>x \<in> set xs. comma \<notin> set (bytes_of_string x))"

lemma nameListBytes_Nil_iff: "nameListBytes xs = [] \<longleftrightarrow> xs = [] \<or> xs = [[]]"
  by (induction xs rule: nameListBytes.induct) (auto simp: bytes_of_string_def)

section \<open>Lemmas: multi-precision integers\<close>

lemma setBytes_append: "setBytes (xs @ ys) = setBytes xs * 256 ^ length ys + setBytes ys"
proof (induction ys rule: rev_induct)
  case (snoc y ys)
  have "setBytes (xs @ ys @ [y]) = setBytes (xs @ ys) * 256 + unat y"
    by (simp add: setBytes_def)
  moreover have "setBytes (ys @ [y]) = setBytes ys * 256 + unat y"
    by (simp add: setBytes_def)
  ultimately show ?case using snoc by (simp add: algebra_simps)
qed (simp add: setBytes_def)

lemma setBytes_Nil [simp]: "setBytes [] = 0"
  by (simp add: setBytes_def)

lemma setBytes_single [simp]: "setBytes [b] = unat b"
  by (simp add: setBytes_def)

lemma setBytes_zero_Cons [simp]: "setBytes (0 # bs) = setBytes bs"
  using setBytes_append [of "[0]" bs] by simp

lemma unat_word_of_nat_byte [simp]: "unat (word_of_nat (n mod 256) :: byte) = n mod 256"
  by (simp add: unat_of_nat)

lemma setBytes_natBytes [simp]: "setBytes (natBytes n) = n"
proof (induction n rule: natBytes.induct)
  case (1 n)
  then show ?case
    by (cases "n = 0") (simp_all add: natBytes.simps [of n] natBytes.simps [of 0] setBytes_append)
qed

lemma natBytes_Nil_iff [simp]: "natBytes n = [] \<longleftrightarrow> n = 0"
  by (simp add: natBytes.simps [of n])

lemma bitLen_0 [simp]: "bitLen 0 = 0"
  by (simp add: bitLen.simps)

lemma bitLen_Suc: "0 < n \<Longrightarrow> bitLen n = Suc (bitLen (n div 2))"
  by (simp add: bitLen.simps [of n])

lemma bitLen_div: "2 ^ k \<le> n \<Longrightarrow> bitLen n = k + bitLen (n div 2 ^ k)"
proof (induction k arbitrary: n)
  case (Suc k)
  then have "bitLen n = Suc (bitLen (n div 2))"
    by (intro bitLen_Suc) (metis gr0I not_one_le_zero one_le_numeral one_le_power le_trans)
  moreover have "2 ^ k \<le> n div 2" using Suc.prems by simp
  ultimately show ?case
    using Suc.IH [of "n div 2"] by (simp add: div_mult2_eq)
qed simp

lemma bitLen_256: "256 \<le> n \<Longrightarrow> bitLen n = 8 + bitLen (n div 256)"
  using bitLen_div [of 8 n] by simp

lemma bitLen_byte:
  assumes "0 < n" "n < 256"
  shows "1 \<le> bitLen n \<and> bitLen n \<le> 8 \<and> (bitLen n = 8 \<longleftrightarrow> 128 \<le> n)"
proof -
  have u: "bitLen m = (if m = 0 then 0 else Suc (bitLen (m div 2)))" for m
    by (rule bitLen.simps)
  have l1: "bitLen m \<le> 1" if "m < 2" for m using that by (subst u) simp
  have l2: "bitLen m \<le> 2" if "m < 4" for m using that l1 [of "m div 2"] by (subst u) simp
  have l3: "bitLen m \<le> 3" if "m < 8" for m using that l2 [of "m div 2"] by (subst u) simp
  have l4: "bitLen m \<le> 4" if "m < 16" for m using that l3 [of "m div 2"] by (subst u) simp
  have l5: "bitLen m \<le> 5" if "m < 32" for m using that l4 [of "m div 2"] by (subst u) simp
  have l6: "bitLen m \<le> 6" if "m < 64" for m using that l5 [of "m div 2"] by (subst u) simp
  have l7: "bitLen m \<le> 7" if "m < 128" for m using that l6 [of "m div 2"] by (subst u) simp
  have "bitLen n \<le> 8" using assms l7 [of "n div 2"] by (subst u) simp
  moreover have "1 \<le> bitLen n" using assms by (subst u) simp
  moreover have "bitLen n = 8" if "128 \<le> n"
  proof -
    have "n div 2 ^ 7 = 1" using that assms by simp
    then show ?thesis using bitLen_div [of 7 n] that by (simp add: bitLen.simps)
  qed
  moreover have "bitLen n \<noteq> 8" if "n < 128" using l7 [of n] that by simp
  ultimately show ?thesis by (meson not_le)
qed

lemma word_and_exp: "(b :: 'a :: len word) AND 2 ^ k = (if bit b k then 2 ^ k else 0)"
  by (rule bit_eqI) (auto simp: bit_and_iff bit_exp_iff)

lemma byte_and_80: "(b :: byte) AND 0x80 = (if bit b 7 then 0x80 else 0)"
  using word_and_exp [of b 7] by simp

lemma byte_top_bit: "(b :: byte) AND 0x80 = 0 \<longleftrightarrow> unat b < 128"
proof -
  have b7: "bit b 7 \<longleftrightarrow> 128 \<le> unat b"
  proof -
    have "bit b 7 \<longleftrightarrow> bit (unat b) 7"
      by (simp add: bit_unsigned_iff)
    also have "\<dots> \<longleftrightarrow> odd (unat b div 128)"
      by (simp add: bit_iff_odd)
    also have "\<dots> \<longleftrightarrow> 128 \<le> unat b"
    proof -
      have "unat b div 128 < 2" by (simp add: less_mult_imp_div_less)
      then have "unat b div 128 = 0 \<or> unat b div 128 = 1" by linarith
      then show ?thesis by (auto simp: div_eq_0_iff not_le)
    qed
    finally show ?thesis .
  qed
  have "(b AND 0x80 = 0) \<longleftrightarrow> \<not> bit b 7"
    by (simp add: byte_and_80)
  then show ?thesis using b7 by auto
qed

lemma byte_top_bit_set: "(b :: byte) AND 0x80 = 0x80 \<longleftrightarrow> b AND 0x80 \<noteq> 0"
  by (simp add: byte_and_80)

lemma byte_xor_ff [simp]: "(b :: byte) XOR 0xff = NOT b"
proof -
  have "(0xff :: byte) = - 1" by simp
  then show ?thesis by (simp only: bit.xor_one_right)
qed

lemma byte_top_bit_not: "NOT (b :: byte) AND 0x80 = 0 \<longleftrightarrow> b AND 0x80 \<noteq> 0"
  by (simp add: byte_and_80 bit_not_iff)

lemma natBytes_ge: "256 \<le> n \<Longrightarrow> natBytes n = natBytes (n div 256) @ [word_of_nat (n mod 256)]"
  by (subst natBytes.simps) simp

lemma natBytes_lt: "0 < n \<Longrightarrow> n < 256 \<Longrightarrow> natBytes n = [word_of_nat n]"
  by (subst natBytes.simps) (simp add: natBytes.simps [of 0])

lemma natBytes_shape:
  "0 < n \<Longrightarrow> length (natBytes n) = (bitLen n + 7) div 8 \<and>
     (bitLen n mod 8 = 0 \<longleftrightarrow> hd (natBytes n) AND 0x80 \<noteq> 0)"
proof (induction n rule: natBytes.induct)
  case (1 n)
  show ?case
  proof (cases "256 \<le> n")
    case True
    with 1 have "length (natBytes (n div 256)) = (bitLen (n div 256) + 7) div 8"
      and "bitLen (n div 256) mod 8 = 0 \<longleftrightarrow> hd (natBytes (n div 256)) AND 0x80 \<noteq> 0"
      by (simp_all add: div_greater_zero_iff)
    with True show ?thesis
      by (simp add: natBytes_ge bitLen_256 hd_append div_eq_0_iff)
  next
    case False
    then have n: "0 < n" "n < 256" using 1 by simp_all
    from bitLen_byte [OF n] have "(bitLen n + 7) div 8 = 1" by linarith
    moreover have "bitLen n mod 8 = 0 \<longleftrightarrow> 128 \<le> n"
      using bitLen_byte [OF n] by (metis mod_less mod_self not_one_le_zero le_neq_implies_less)
    moreover have "hd (natBytes n) AND 0x80 \<noteq> 0 \<longleftrightarrow> 128 \<le> n"
      using n by (simp add: natBytes_lt byte_top_bit unat_of_nat not_less)
    ultimately show ?thesis using n by (simp add: natBytes_lt)
  qed
qed

lemma natBytes_length: "length (natBytes n) = (bitLen n + 7) div 8"
  using natBytes_shape [of n] by (cases "n = 0") auto

definition mpint :: "int \<Rightarrow> bytes" where
  "mpint n = be32 (word_of_nat (length (intPad n) + length (intMagnitude n))) @ intPad n @ intMagnitude n"

lemma hd_map_natBytes: "0 < n \<Longrightarrow> hd (map f (natBytes n)) = f (hd (natBytes n))"
  by (simp add: hd_map)

lemma intLength_eq: "intLength n = 4 + length (intPad n) + length (intMagnitude n)"
proof -
  consider "n < 0" "nat (- n - 1) = 0" | "n < 0" "0 < nat (- n - 1)" | "n = 0" | "0 < n" by linarith
  then show ?thesis
  proof cases
    case 2
    then show ?thesis using natBytes_shape [of "nat (- n - 1)"]
      by (auto simp: intLength_def intPad_def intMagnitude_def Let_def hd_map_natBytes byte_top_bit_not)
  next
    case 4
    then show ?thesis using natBytes_shape [of "nat n"]
      by (auto simp: intLength_def intPad_def intMagnitude_def Let_def)
  qed (auto simp: intLength_def intPad_def intMagnitude_def)
qed

lemma length_mpint: "length (mpint n) = intLength n"
  by (simp add: mpint_def intLength_eq)

lemma copy_at_start: "length src \<le> length dst \<Longrightarrow> copy_at dst 0 src = src @ drop (length src) dst"
  by (simp add: copy_at_def)

lemma marshalInt_fits:
  assumes "intLength n \<le> length to"
  shows "marshalInt to n = Ok (mpint n @ drop (intLength n) to, drop (intLength n) to)"
proof -
  let ?p = "intPad n" and ?m = "intMagnitude n"
  have l: "4 + length ?p + length ?m \<le> length to" using assms by (simp add: intLength_eq)
  have a: "copy_at (copy_at to 4 ?p) (4 + length ?p) ?m = take 4 to @ ?p @ ?m @ drop (4 + length ?p + length ?m) to"
    using l by (simp add: copy_at_fits ac_simps)
  have mn: "min (length to - (4 + length ?p)) (length ?m) = length ?m" using l by simp
  show ?thesis
    using l by (simp add: marshalInt_def Let_def a mn copy_at_start mpint_def intLength_eq add.assoc)
qed

lemma parseInt_mpint:
  assumes "length (mpint n @ r) < 2 ^ 32"
  shows "parseInt (mpint n @ r) = Some (n, r)"
proof -
  let ?c = "intPad n @ intMagnitude n"
  from assms have "length (?c @ r) < 2 ^ 32" by (simp add: mpint_def)
  from parseString_be32 [OF this]
  have ps: "parseString (mpint n @ r) = Some (?c, r)" by (simp add: mpint_def)
  consider (neg) "n < 0" | (zero) "n = 0" | (pos) "0 < n" by linarith
  then show ?thesis
  proof cases
    case neg
    let ?b = "map NOT (natBytes (nat (- n - 1)))"
    have top: "?c \<noteq> [] \<and> hd ?c AND 0x80 = 0x80"
      using neg by (auto simp: intPad_def intMagnitude_def Let_def byte_top_bit_set)
    have "map NOT ?c = (if intPad n = [] then [] else [0]) @ natBytes (nat (- n - 1))"
      using neg by (auto simp: intPad_def intMagnitude_def Let_def comp_def)
    then have "setBytes (map NOT ?c) = nat (- n - 1)" by simp
    with ps top neg show ?thesis by (simp add: parseInt_def)
  next
    case zero
    with ps show ?thesis by (simp add: parseInt_def intPad_def intMagnitude_def)
  next
    case pos
    have "\<not> (?c \<noteq> [] \<and> hd ?c AND 0x80 = 0x80)"
      using pos by (auto simp: intPad_def intMagnitude_def Let_def byte_top_bit_set)
    moreover have "setBytes ?c = nat n"
      using pos by (auto simp: intPad_def intMagnitude_def Let_def)
    ultimately show ?thesis using ps pos by (simp add: parseInt_def)
  qed
qed

section \<open>The contract of an encoder and its parser\<close>

text \<open>
  \<open>ok\<close> says which values have a faithful encoding. The bound is the range of the
  \<open>uint32(len(in))\<close> conversion in \<open>parseString\<close>.
\<close>

locale codec =
  fixes enc :: "'a \<Rightarrow> bytes" and dec :: "bytes \<Rightarrow> ('a \<times> bytes) option" and ok :: "'a \<Rightarrow> bool"
  assumes dec_enc: "ok x \<Longrightarrow> length (enc x @ r) < 2 ^ 32 \<Longrightarrow> dec (enc x @ r) = Some (x, r)"
begin

lemma prefix_free:
  assumes "ok x" "ok y" "enc x @ r = enc y @ r'" "length (enc x @ r) < 2 ^ 32"
  shows "x = y \<and> r = r'"
  using dec_enc [OF assms(1,4)] dec_enc [OF assms(2), of r'] assms(3,4) by simp

lemma enc_inj:
  assumes "ok x" "ok y" "enc x = enc y" "length (enc x) < 2 ^ 32"
  shows "x = y"
  using prefix_free [OF assms(1,2), of "[]" "[]"] assms(3,4) by simp

end

interpretation u32c: codec be32 parseUint32 "\<lambda>_. True"
  by unfold_locales (simp add: parseUint32_def)

interpretation u64c: codec be64 parseUint64 "\<lambda>_. True"
  by unfold_locales (simp add: parseUint64_def)

interpretation strc: codec "writeString []" parseString "\<lambda>_. True"
  by unfold_locales (use parseString_be32 in \<open>simp add: writeString_def\<close>)

interpretation intc: codec mpint parseInt "\<lambda>_. True"
  by unfold_locales (rule parseInt_mpint)

lemma parseNameList_writeString:
  assumes "names_ok ns" "length (writeString [] (nameListBytes ns) @ r) < 2 ^ 32"
  shows "parseNameList (writeString [] (nameListBytes ns) @ r) = Some (ns, r)"
proof -
  have "parseString (writeString [] (nameListBytes ns) @ r) = Some (nameListBytes ns, r)"
    using assms(2) by (intro strc.dec_enc) simp_all
  moreover have "split_on comma (nameListBytes ns) = map bytes_of_string ns" if "ns \<noteq> []"
    using that assms(1) by (intro split_on_nameListBytes) (simp_all add: names_ok_def)
  ultimately show ?thesis using assms(1)
    by (auto simp: parseNameList_def nameListBytes_Nil_iff names_ok_def comp_def)
qed

interpretation namec: codec "\<lambda>ns. writeString [] (nameListBytes ns)" parseNameList names_ok
  by unfold_locales (rule parseNameList_writeString)

section \<open>Properties\<close>

text \<open>Every integer, negative, zero or positive, that \<open>writeInt\<close> appends to a stream is read
  back by \<open>parseInt\<close>, which leaves what follows; the buffer \<open>intLength\<close> sizes is never too
  small, so \<open>writeInt\<close> does not panic.\<close>

theorem parseInt_writeInt:
  assumes "intLength n + length r < 2 ^ 32"
  shows "\<exists>b. writeInt w n = Ok (w @ b) \<and> length b = intLength n \<and> parseInt (b @ r) = Some (n, r)"
  using assms marshalInt_fits [of n "replicate (intLength n) 0"] parseInt_mpint [of n r]
  by (auto simp: writeInt_def length_mpint)

theorem parseInt_writeInt_witness:
  "\<exists>b. writeInt [7] (- 129) = Ok ([7] @ b) \<and> length b = intLength (- 129) \<and>
     parseInt (b @ [1, 2]) = Some (- 129, [1, 2])"
proof -
  have "bitLen 128 = 8" using bitLen_byte [of 128] by simp
  then have "intLength (- 129) + length [1, 2 :: byte] < 2 ^ 32"
    by (simp add: intLength_def)
  from parseInt_writeInt [OF this, of "[7]"] show ?thesis .
qed

text \<open>\<open>parseString\<close> never reads outside its input: whatever it returns is a split of the
  input into the length prefix, the string and the rest, and the length prefix is the string's.\<close>

theorem parseString_exact:
  "parseString inp = Some (s, r) \<Longrightarrow>
     inp = be32 (word_of_nat (length s)) @ s @ r \<and> length s < 2 ^ 32"
  by (rule parseString_SomeD)

theorem parseString_exact_witness:
  "[0, 0, 0, 1, 9, 8 :: byte] = be32 (word_of_nat (length [9 :: byte])) @ [9] @ [8] \<and>
     length [9 :: byte] < 2 ^ 32"
  by (rule parseString_exact) (simp add: parseString_def)

end
