(* ===== verification/Marshal.thy ===== *)
theory Marshal
  imports Wire
begin

text \<open>
  The reflection-based marshalling of structs (\<open>src/messages.go\<close>). Go's
  \<open>reflect.Type\<close> of a message struct is a \<open>structType\<close>: the struct's name, the
  \<open>sshtype\<close> tag of its first field and the kind of every field. \<open>Unmarshal\<close> and
  \<open>marshalStruct\<close> are the generic functions over such a description. The lemmas show that
  parsing reads back what marshalling wrote for every struct description, that a parsed struct of
  canonical kinds re-encodes to the bytes it came from, and that parsing never panics.
\<close>

section \<open>Errors of src/common.go and src/messages.go\<close>

definition unexpectedMessageError :: "byte \<Rightarrow> byte \<Rightarrow> gerror" where
  "unexpectedMessageError expected got =
     Errorf ''ssh: unexpected message type %d (expected %d)'' [unat got, unat expected] []"

definition parseError :: "byte \<Rightarrow> gerror" where
  "parseError tag = Errorf ''ssh: parse error in message type %d'' [unat tag] []"

definition errShortRead :: gerror where
  "errShortRead = ErrNew ''ssh: short read''"

definition fieldError :: "string \<Rightarrow> string \<Rightarrow> string \<Rightarrow> gerror" where
  "fieldError structName field problem =
     Errorf ''ssh: unmarshal error for field %s of type %s%s'' []
       [field, structName, (if problem \<noteq> [] then '': '' @ problem else problem)]"

section \<open>Struct descriptions\<close>

text \<open>
  \<open>fkind\<close> is what the two switches on \<open>reflect.Kind\<close> distinguish; \<open>KRest\<close> is a
  byte slice with the tag \<open>ssh:"rest"\<close>. The last four are the kinds the code refuses.
\<close>

datatype fkind =
    KBool | KArray nat | KUint64 | KUint32 | KUint8 | KString | KBytes | KRest | KNames | KBigInt
  | KOtherArray | KOtherSlice | KOtherPtr | KOther string

datatype fval =
    VBool bool | VArray bytes | VU64 u64 | VU32 u32 | VU8 byte | VString string | VBytes bytes
  | VNames "string list" | VInt int

record structType =
  sname :: string
  sshtype :: string
  sfields :: "(string \<times> fkind) list"

text \<open>\<open>strconv.Atoi\<close>: an optional sign and decimal digits within the range of \<open>int64\<close>.\<close>

definition digit_val :: "char \<Rightarrow> nat option" where
  "digit_val c = (let n = of_char c in if 48 \<le> n \<and> n \<le> 57 then Some (n - 48) else None)"

fun digits_val :: "nat \<Rightarrow> string \<Rightarrow> nat option" where
  "digits_val acc [] = Some acc"
| "digits_val acc (c # cs) =
     (case digit_val c of None \<Rightarrow> None | Some d \<Rightarrow> digits_val (acc * 10 + d) cs)"

definition atoi :: "string \<Rightarrow> int option" where
  "atoi s =
     (let (neg, ds) = (case s of [] \<Rightarrow> (False, [])
        | c # cs \<Rightarrow> if c = CHR ''-'' then (True, cs) else if c = CHR ''+'' then (False, cs)
                    else (False, s)) in
      if ds = [] then None
      else (case digits_val 0 ds of None \<Rightarrow> None
        | Some n \<Rightarrow>
            if neg then (if n \<le> 2 ^ 63 then Some (- int n) else None)
            else (if n < 2 ^ 63 then Some (int n) else None)))"

text \<open>
  The tags in the \<open>sshtype\<close> of the first field. \<open>typeTags\<close> looks that field up with
  \<open>Field(0)\<close>, which panics on a struct without fields.
\<close>

definition tagBytes :: "structType \<Rightarrow> bytes" where
  "tagBytes t = map word_of_int (List.map_filter atoi (split_on CHR ''|'' (sshtype t)))"

definition typeTags :: "structType \<Rightarrow> bytes res" where
  "typeTags t = (if sfields t = [] then Panic ''reflect: Field index out of bounds'' else Ok (tagBytes t))"

section \<open>Unmarshal\<close>

definition opt_res :: "gerror \<Rightarrow> ('a \<times> bytes) option \<Rightarrow> ('a \<Rightarrow> fval) \<Rightarrow> (fval \<times> bytes) res" where
  "opt_res e r f = (case r of None \<Rightarrow> Err e | Some (x, rest) \<Rightarrow> Ok (f x, rest))"

fun unmarshalField :: "string \<Rightarrow> string \<Rightarrow> fkind \<Rightarrow> bytes \<Rightarrow> (fval \<times> bytes) res" where
  "unmarshalField sn fn KBool data =
     (case data of [] \<Rightarrow> Err errShortRead | b # rest \<Rightarrow> Ok (VBool (b \<noteq> 0), rest))"
| "unmarshalField sn fn (KArray n) data =
     (if length data < n then Err errShortRead else Ok (VArray (take n data), drop n data))"
| "unmarshalField sn fn KUint64 data = opt_res errShortRead (parseUint64 data) VU64"
| "unmarshalField sn fn KUint32 data = opt_res errShortRead (parseUint32 data) VU32"
| "unmarshalField sn fn KUint8 data =
     (case data of [] \<Rightarrow> Err errShortRead | b # rest \<Rightarrow> Ok (VU8 b, rest))"
| "unmarshalField sn fn KString data =
     opt_res (fieldError sn fn []) (parseString data) (\<lambda>s. VString (string_of_bytes s))"
| "unmarshalField sn fn KBytes data = opt_res errShortRead (parseString data) VBytes"
| "unmarshalField sn fn KRest data = Ok (VBytes data, [])"
| "unmarshalField sn fn KNames data = opt_res errShortRead (parseNameList data) VNames"
| "unmarshalField sn fn KBigInt data = opt_res errShortRead (parseInt data) VInt"
| "unmarshalField sn fn KOtherArray data = Err (fieldError sn fn ''array of unsupported type'')"
| "unmarshalField sn fn KOtherSlice data = Err (fieldError sn fn ''slice of unsupported type'')"
| "unmarshalField sn fn KOtherPtr data = Err (fieldError sn fn ''pointer to unsupported type'')"
| "unmarshalField sn fn (KOther k) data = Err (fieldError sn fn (''unsupported type: '' @ k))"

fun unmarshalFields :: "string \<Rightarrow> (string \<times> fkind) list \<Rightarrow> bytes \<Rightarrow> (fval list \<times> bytes) res" where
  "unmarshalFields sn [] data = Ok ([], data)"
| "unmarshalFields sn ((fn, k) # fs) data =
     res_bind (unmarshalField sn fn k data) (\<lambda>(v, data').
       res_bind (unmarshalFields sn fs data') (\<lambda>(vs, data''). Ok (v # vs, data'')))"

definition Unmarshal :: "structType \<Rightarrow> bytes \<Rightarrow> fval list res" where
  "Unmarshal st data =
     res_bind (typeTags st) (\<lambda>expectedTypes.
      let expectedType = (case expectedTypes of [] \<Rightarrow> 0 | e # _ \<Rightarrow> e) in
      if data = [] then Err (parseError expectedType)
      else if expectedTypes \<noteq> [] \<and> \<not> list_ex (\<lambda>e. e > 0 \<and> hd data = e) expectedTypes
      then Err (Errorf ''ssh: unexpected message type %d (expected one of %v)''
             (unat (hd data) # map unat expectedTypes) [])
      else
        let data' = (if expectedTypes \<noteq> [] then tl data else data) in
        res_bind (unmarshalFields (sname st) (sfields st) data') (\<lambda>(vs, rest).
          if rest \<noteq> [] then Err (parseError expectedType) else Ok vs))"

section \<open>Marshal\<close>

text \<open>
  A value whose Go type does not fit the field kind cannot occur in Go (the kind is the
  value's own type); \<open>reflect\<close> would panic.
\<close>

definition wrongKind :: "'a res" where
  "wrongKind = Panic ''reflect: call on a value of the wrong kind''"

fun marshalField :: "bytes \<Rightarrow> fkind \<Rightarrow> fval \<Rightarrow> bytes res" where
  "marshalField out KBool v =
     (case v of VBool b \<Rightarrow> Ok (out @ [if b then 1 else 0]) | _ \<Rightarrow> wrongKind)"
| "marshalField out (KArray n) v = (case v of VArray bs \<Rightarrow> Ok (out @ bs) | _ \<Rightarrow> wrongKind)"
| "marshalField out KUint32 v = (case v of VU32 n \<Rightarrow> Ok (appendU32 out n) | _ \<Rightarrow> wrongKind)"
| "marshalField out KUint64 v = (case v of VU64 n \<Rightarrow> Ok (appendU64 out n) | _ \<Rightarrow> wrongKind)"
| "marshalField out KUint8 v = (case v of VU8 b \<Rightarrow> Ok (out @ [b]) | _ \<Rightarrow> wrongKind)"
| "marshalField out KString v =
     (case v of VString s \<Rightarrow> Ok (appendInt out (length s) @ bytes_of_string s) | _ \<Rightarrow> wrongKind)"
| "marshalField out KBytes v =
     (case v of VBytes bs \<Rightarrow> Ok (appendInt out (length bs) @ bs) | _ \<Rightarrow> wrongKind)"
| "marshalField out KRest v = (case v of VBytes bs \<Rightarrow> Ok (out @ bs) | _ \<Rightarrow> wrongKind)"
| "marshalField out KNames v =
     (case v of VNames ns \<Rightarrow>
        (let offset = length out; out1 = appendU32 out 0 in
         if ns \<noteq> [] then
           let out2 = out1 @ nameListBytes ns
           in Ok (copy_at out2 offset (be32 (word_of_nat (length out2 - offset - 4))))
         else Ok out1)
      | _ \<Rightarrow> wrongKind)"
| "marshalField out KBigInt v =
     (case v of VInt n \<Rightarrow>
        res_bind (marshalInt (replicate (intLength n) 0) n) (\<lambda>(buf, _). Ok (out @ buf))
      | _ \<Rightarrow> wrongKind)"
| "marshalField out KOtherArray v = Panic ''array of non-uint8''"
| "marshalField out KOtherSlice v = Panic ''slice of unknown type''"
| "marshalField out KOtherPtr v = Panic ''pointer to unknown type''"
| "marshalField out (KOther k) v = Ok out"

fun marshalFields :: "bytes \<Rightarrow> (string \<times> fkind) list \<Rightarrow> fval list \<Rightarrow> bytes res" where
  "marshalFields out [] [] = Ok out"
| "marshalFields out ((fn, k) # fs) (v # vs) =
     res_bind (marshalField out k v) (\<lambda>out'. marshalFields out' fs vs)"
| "marshalFields out _ _ = Panic ''reflect: wrong number of fields''"

definition marshalStruct :: "bytes \<Rightarrow> structType \<Rightarrow> fval list \<Rightarrow> bytes res" where
  "marshalStruct out st vs =
     res_bind (typeTags st) (\<lambda>msgTypes.
       let out' = (case msgTypes of [] \<Rightarrow> out | t # _ \<Rightarrow> out @ [t])
       in marshalFields out' (sfields st) vs)"

definition Marshal :: "structType \<Rightarrow> fval list \<Rightarrow> bytes res" where
  "Marshal st vs = marshalStruct [] st vs"

section \<open>Generic marshalling lemmas\<close>

text \<open>The values that have a faithful encoding in a field of a kind.\<close>

fun fval_ok :: "fkind \<Rightarrow> fval \<Rightarrow> bool" where
  "fval_ok KBool v = (case v of VBool _ \<Rightarrow> True | _ \<Rightarrow> False)"
| "fval_ok (KArray n) v = (case v of VArray bs \<Rightarrow> length bs = n | _ \<Rightarrow> False)"
| "fval_ok KUint64 v = (case v of VU64 _ \<Rightarrow> True | _ \<Rightarrow> False)"
| "fval_ok KUint32 v = (case v of VU32 _ \<Rightarrow> True | _ \<Rightarrow> False)"
| "fval_ok KUint8 v = (case v of VU8 _ \<Rightarrow> True | _ \<Rightarrow> False)"
| "fval_ok KString v = (case v of VString _ \<Rightarrow> True | _ \<Rightarrow> False)"
| "fval_ok KBytes v = (case v of VBytes _ \<Rightarrow> True | _ \<Rightarrow> False)"
| "fval_ok KRest v = (case v of VBytes _ \<Rightarrow> True | _ \<Rightarrow> False)"
| "fval_ok KNames v = (case v of VNames ns \<Rightarrow> names_ok ns | _ \<Rightarrow> False)"
| "fval_ok KBigInt v = (case v of VInt _ \<Rightarrow> True | _ \<Rightarrow> False)"
| "fval_ok k v = False"

definition fieldBytes :: "fkind \<Rightarrow> fval \<Rightarrow> bytes" where
  "fieldBytes k v = (case marshalField [] k v of Ok b \<Rightarrow> b | _ \<Rightarrow> [])"

fun fieldsBytes :: "(string \<times> fkind) list \<Rightarrow> fval list \<Rightarrow> bytes" where
  "fieldsBytes ((fn, k) # fs) (v # vs) = fieldBytes k v @ fieldsBytes fs vs"
| "fieldsBytes _ _ = []"

definition vals_ok :: "(string \<times> fkind) list \<Rightarrow> fval list \<Rightarrow> bool" where
  "vals_ok fs vs = list_all2 (\<lambda>f v. fval_ok (snd f) v) fs vs"

fun rest_last :: "(string \<times> fkind) list \<Rightarrow> bool" where
  "rest_last [] = True"
| "rest_last [f] = True"
| "rest_last (f # fs) = (snd f \<noteq> KRest \<and> rest_last fs)"

lemma vals_ok_simps [simp]:
  "vals_ok [] vs = (vs = [])"
  "vals_ok (f # fs) (v # vs) = (fval_ok (snd f) v \<and> vals_ok fs vs)"
  "vals_ok (f # fs) [] = False"
  by (simp_all add: vals_ok_def)

lemma copy_at_namelist:
  "copy_at (out @ be32 0 @ nb) (length out) (be32 w) = out @ be32 w @ nb"
  by (simp add: copy_at_def)

lemma marshalField_out:
  assumes "marshalField [] k v = Ok b"
  shows "marshalField out k v = Ok (out @ b)"
  using assms
  by (cases k) (auto simp: wire_simps wrongKind_def copy_at_namelist Let_def res_simps
    copy_at_namelist [of "[]", simplified] split: fval.splits if_splits)

lemma marshalField_total: "fval_ok k v \<Longrightarrow> \<exists>b. marshalField [] k v = Ok b"
  by (cases k) (auto simp: Let_def marshalInt_fits split: fval.splits)

lemma marshalField_ok: "fval_ok k v \<Longrightarrow> marshalField out k v = Ok (out @ fieldBytes k v)"
  using marshalField_total [of k v] marshalField_out [of k v _ out] by (auto simp: fieldBytes_def)

lemma marshalFields_ok:
  "vals_ok fs vs \<Longrightarrow> marshalFields out fs vs = Ok (out @ fieldsBytes fs vs)"
proof (induction fs arbitrary: vs out)
  case (Cons f fs)
  then show ?case by (cases f; cases vs) (auto simp: marshalField_ok)
qed simp

lemma fieldBytes_simps [simp]:
  "fieldBytes KBool (VBool b) = [if b then 1 else 0]"
  "fieldBytes (KArray n) (VArray bs) = bs"
  "fieldBytes KUint32 (VU32 w) = be32 w"
  "fieldBytes KUint64 (VU64 d) = be64 d"
  "fieldBytes KUint8 (VU8 c) = [c]"
  "fieldBytes KString (VString s) = writeString [] (bytes_of_string s)"
  "fieldBytes KBytes (VBytes bs) = writeString [] bs"
  "fieldBytes KRest (VBytes bs) = bs"
  "fieldBytes KNames (VNames ns) = writeString [] (nameListBytes ns)"
  "fieldBytes KBigInt (VInt i) = mpint i"
  by (simp_all add: fieldBytes_def wire_simps writeString_def Let_def marshalInt_fits
      copy_at_namelist [of "[]", simplified])

lemma unmarshalField_bytes:
  assumes "fval_ok k v" "k \<noteq> KRest" "length (fieldBytes k v @ r) < 2 ^ 32"
  shows "unmarshalField sn fn k (fieldBytes k v @ r) = Ok (v, r)"
proof (cases k)
  case KUint64 with assms show ?thesis by (auto simp: opt_res_def u64c.dec_enc split: fval.splits)
next
  case KUint32 with assms show ?thesis by (auto simp: opt_res_def u32c.dec_enc split: fval.splits)
next
  case KString with assms show ?thesis by (auto simp: opt_res_def strc.dec_enc split: fval.splits)
next
  case KBytes with assms show ?thesis by (auto simp: opt_res_def strc.dec_enc split: fval.splits)
next
  case KNames with assms show ?thesis by (auto simp: opt_res_def namec.dec_enc split: fval.splits)
next
  case KBigInt with assms show ?thesis by (auto simp: opt_res_def intc.dec_enc split: fval.splits)
qed (use assms in \<open>auto split: fval.splits\<close>)

lemma unmarshalFields_bytes:
  "vals_ok fs vs \<Longrightarrow> rest_last fs \<Longrightarrow> length (fieldsBytes fs vs) < 2 ^ 32 \<Longrightarrow>
     unmarshalFields sn fs (fieldsBytes fs vs) = Ok (vs, [])"
proof (induction fs arbitrary: vs rule: rest_last.induct)
  case (2 f)
  obtain fn k where f: "f = (fn, k)" by (cases f)
  from 2 f obtain v where v: "vs = [v]" "fval_ok k v" by (cases vs) auto
  show ?case
  proof (cases "k = KRest")
    case True
    with v f show ?thesis by (auto split: fval.splits)
  next
    case False
    with 2 v f unmarshalField_bytes [of k v "[]" sn fn] show ?thesis by simp
  qed
next
  case (3 f g fs)
  obtain fn k where f: "f = (fn, k)" by (cases f)
  from 3 f obtain v ws where v: "vs = v # ws" "fval_ok k v" "vals_ok (g # fs) ws" by (cases vs) auto
  then have "unmarshalField sn fn k (fieldBytes k v @ fieldsBytes (g # fs) ws) = Ok (v, fieldsBytes (g # fs) ws)"
    using 3 f by (intro unmarshalField_bytes) auto
  moreover have "unmarshalFields sn (g # fs) (fieldsBytes (g # fs) ws) = Ok (ws, [])"
    using 3 v f by (intro "3.IH") auto
  ultimately show ?case using v f by simp
qed simp

definition struct_ok :: "structType \<Rightarrow> bool" where
  "struct_ok st \<longleftrightarrow> rest_last (sfields st) \<and> (case tagBytes st of [] \<Rightarrow> True | t # _ \<Rightarrow> t > 0)"

definition structBytes :: "structType \<Rightarrow> fval list \<Rightarrow> bytes" where
  "structBytes st vs = (case tagBytes st of [] \<Rightarrow> [] | t # _ \<Rightarrow> [t]) @ fieldsBytes (sfields st) vs"

lemma vals_ok_empty: "vals_ok fs vs \<Longrightarrow> fs = [] \<longleftrightarrow> vs = []"
  by (auto simp: vals_ok_def)

lemma Marshal_ok: "vals_ok (sfields st) vs \<Longrightarrow> vs \<noteq> [] \<Longrightarrow> Marshal st vs = Ok (structBytes st vs)"
  by (simp add: Marshal_def marshalStruct_def typeTags_def vals_ok_empty structBytes_def marshalFields_ok split: list.splits)

lemma Marshal_Ok_fields: "Marshal st vs = Ok b \<Longrightarrow> sfields st \<noteq> [] \<and> vs \<noteq> []"
  by (cases "sfields st"; cases vs) (auto simp: Marshal_def marshalStruct_def typeTags_def)

lemma Unmarshal_structBytes:
  assumes "struct_ok st" "vals_ok (sfields st) vs" "length (structBytes st vs) < 2 ^ 32"
    "structBytes st vs \<noteq> []" "vs \<noteq> []"
  shows "Unmarshal st (structBytes st vs) = Ok vs"
proof -
  have "unmarshalFields (sname st) (sfields st) (fieldsBytes (sfields st) vs) = Ok (vs, [])"
    using assms by (intro unmarshalFields_bytes) (auto simp: struct_ok_def structBytes_def)
  with assms show ?thesis
    by (auto simp: Unmarshal_def typeTags_def struct_ok_def structBytes_def Let_def split: list.splits)
qed

lemma unmarshalField_no_panic: "\<not> is_Panic (unmarshalField sn fn k data)"
  by (cases k) (auto simp: opt_res_def split: option.splits list.splits)

lemma unmarshalFields_no_panic: "\<not> is_Panic (unmarshalFields sn fs data)"
proof (induction sn fs data rule: unmarshalFields.induct)
  case (2 sn fn k fs data)
  then show ?case
    using unmarshalField_no_panic [of sn fn k data] by (auto simp: res_simps split: prod.splits)
qed simp

lemma Unmarshal_no_panic: "sfields st \<noteq> [] \<Longrightarrow> \<not> is_Panic (Unmarshal st data)"
  using unmarshalFields_no_panic by (auto simp: Unmarshal_def typeTags_def Let_def res_simps split: prod.splits)

lemma Unmarshal_OkD: "Unmarshal st data = Ok vs \<Longrightarrow> \<exists>d. unmarshalFields (sname st) (sfields st) d = Ok (vs, [])"
  by (auto simp: Unmarshal_def typeTags_def Let_def res_simps split: if_splits prod.splits)

text \<open>Kinds whose encoding is canonical: a parsed field re-encodes to the bytes it came from.\<close>

definition canonical :: "fkind \<Rightarrow> bool" where
  "canonical k \<longleftrightarrow> k \<noteq> KBool \<and> k \<noteq> KBigInt"

lemma parseNameList_SomeD:
  "parseNameList data = Some (ns, r) \<Longrightarrow> data = writeString [] (nameListBytes ns) @ r"
  by (auto simp: parseNameList_def writeString_def nameListBytes_split
      dest!: parseString_SomeD split: option.splits if_splits)

lemma unmarshalField_canonical:
  assumes "unmarshalField sn fn k data = Ok (v, r)" "canonical k"
  shows "marshalField out k v = Ok (out @ fieldBytes k v) \<and> data = fieldBytes k v @ r"
proof -
  have "(\<exists>b. marshalField [] k v = Ok b) \<and> data = fieldBytes k v @ r"
  proof (cases k)
    case KUint64
    with assms show ?thesis
      by (auto simp: opt_res_def parseUint64_def be64_beUint64 split: if_splits)
  next
    case KUint32
    with assms show ?thesis
      by (auto simp: opt_res_def parseUint32_def be32_beUint32 split: if_splits)
  next
    case KString
    with assms show ?thesis
      by (auto simp: opt_res_def writeString_def split: option.splits dest!: parseString_SomeD)
  next
    case KBytes
    with assms show ?thesis
      by (auto simp: opt_res_def writeString_def split: option.splits dest!: parseString_SomeD)
  next
    case KNames
    with assms show ?thesis
      by (auto simp: opt_res_def Let_def split: option.splits dest!: parseNameList_SomeD)
  qed (use assms in \<open>auto simp: canonical_def split: list.splits if_splits\<close>)
  then show ?thesis using marshalField_out [of k v _ out] by (auto simp: fieldBytes_def)
qed

lemma unmarshalFields_canonical:
  "unmarshalFields sn fs data = Ok (vs, r) \<Longrightarrow> \<forall>f \<in> set fs. canonical (snd f) \<Longrightarrow>
     marshalFields out fs vs = Ok (out @ fieldsBytes fs vs) \<and> data = fieldsBytes fs vs @ r"
proof (induction sn fs data arbitrary: vs out rule: unmarshalFields.induct)
  case (2 sn fn k fs data)
  from "2.prems" obtain v data' ws where
    v: "unmarshalField sn fn k data = Ok (v, data')" and
    ws: "unmarshalFields sn fs data' = Ok (ws, r)" "vs = v # ws"
    by (auto simp: res_simps split: prod.splits)
  from v "2.prems" have "marshalField out k v = Ok (out @ fieldBytes k v)" "data = fieldBytes k v @ data'"
    using unmarshalField_canonical by auto
  moreover have "marshalFields (out @ fieldBytes k v) fs ws = Ok (out @ fieldBytes k v @ fieldsBytes fs ws)"
    "data' = fieldsBytes fs ws @ r"
    using "2.IH" [OF ws(1), of "out @ fieldBytes k v"] "2.prems" by auto
  ultimately show ?case using ws by simp
qed auto

lemma Marshal_Unmarshal_canonical:
  assumes "Unmarshal st data = Ok vs" "\<forall>f \<in> set (sfields st). canonical (snd f)"
    "length (tagBytes st) \<le> 1"
  shows "Marshal st vs = Ok data"
proof -
  let ?d = "if tagBytes st \<noteq> [] then tl data else data"
  from assms(1) have u: "unmarshalFields (sname st) (sfields st) ?d = Ok (vs, [])"
    and ne: "data \<noteq> []" "sfields st \<noteq> []"
    and tag: "tagBytes st \<noteq> [] \<Longrightarrow> list_ex (\<lambda>e. e > 0 \<and> hd data = e) (tagBytes st)"
    by (auto simp: Unmarshal_def typeTags_def Let_def res_simps split: if_splits prod.splits)
  have m: "marshalFields out (sfields st) vs = Ok (out @ ?d)" for out
    using unmarshalFields_canonical [OF u assms(2)] by fastforce
  show ?thesis
  proof (cases "tagBytes st")
    case Nil
    with m ne show ?thesis by (simp add: Marshal_def marshalStruct_def typeTags_def)
  next
    case (Cons t ts)
    with assms(3) tag ne have "data = t # tl data" by (cases data) auto
    with Cons m [of "[t]"] ne show ?thesis by (simp add: Marshal_def marshalStruct_def typeTags_def)
  qed
qed

section \<open>Properties\<close>

text \<open>For every struct description in which only the last field takes the rest of the packet,
  \<open>Unmarshal\<close> reads back from the output of \<open>Marshal\<close> exactly the values that were
  marshalled, provided names carry no comma and the packet is shorter than 4 GiB.\<close>

theorem Unmarshal_Marshal:
  assumes "struct_ok st" "vals_ok (sfields st) vs" "Marshal st vs = Ok b" "b \<noteq> []" "length b < 2 ^ 32"
  shows "Unmarshal st b = Ok vs"
  using Unmarshal_structBytes [OF assms(1,2)] Marshal_ok [OF assms(2)] Marshal_Ok_fields [OF assms(3)] assms(3-5) by simp

theorem Unmarshal_Marshal_witness:
  "Unmarshal \<lparr>sname = ''m'', sshtype = ''51'', sfields = [(''a'', KNames), (''b'', KBool), (''c'', KRest)]\<rparr>
     [51, 0, 0, 0, 3, 97, 44, 98, 1, 5] = Ok [VNames [''a'', ''b''], VBool True, VBytes [5]]"
  by (rule Unmarshal_Marshal)
    (simp_all add: struct_ok_def typeTags_def tagBytes_def atoi_def digit_val_def map_filter_simps names_ok_def
      Marshal_def marshalStruct_def appendU32_def copy_at_def be32_def bytes_of_string_def
      byte_of_char_def comma_def)

text \<open>A packet that \<open>Unmarshal\<close> accepts into a struct without booleans and big integers is the
  only packet with these field values: marshalling the values gives the packet back byte for byte.\<close>

theorem Marshal_Unmarshal:
  assumes "Unmarshal st data = Ok vs" "\<forall>f \<in> set (sfields st). canonical (snd f)" "length (tagBytes st) \<le> 1"
  shows "Marshal st vs = Ok data"
  by (rule Marshal_Unmarshal_canonical [OF assms])

theorem Marshal_Unmarshal_witness:
  "Marshal \<lparr>sname = ''m'', sshtype = ''93'', sfields = [(''a'', KUint32), (''b'', KBytes)]\<rparr>
     [VU32 258, VBytes [6]] = Ok [93, 0, 0, 1, 2, 0, 0, 0, 1, 6]"
  by (rule Marshal_Unmarshal)
    (simp_all add: canonical_def Unmarshal_def typeTags_def tagBytes_def atoi_def digit_val_def map_filter_simps
      opt_res_def parseUint32_def parseString_def)

end
