(* ===== verification/Messages.thy ===== *)
theory Messages
  imports Marshal
begin

text \<open>
  The SSH messages (\<open>src/messages.go\<close>, lines 19 to 268) as one datatype, their struct
  descriptions, and \<open>decode\<close>, which selects the struct by the packet's first byte. The
  lemmas instantiate the generic marshalling lemmas: every message \<open>decode\<close> knows is read
  back from its marshalled form, and no non-empty packet makes \<open>decode\<close> panic.
\<close>

section \<open>The messages\<close>

text \<open>
  One constructor per message struct, with the fields in the order of the struct; the field
  names are those of \<open>structOf\<close>. \<open>mtype\<close> is the Go type of a message.
\<close>

datatype message =
    DisconnectMsg u32 string string
  | KexInitMsg bytes "string list" "string list" "string list" "string list" "string list"
      "string list" "string list" "string list" "string list" "string list" bool u32
  | KexDHInitMsg int
  | KexECDHInitMsg bytes
  | KexECDHReplyMsg bytes bytes bytes
  | KexDHReplyMsg bytes int bytes
  | ServiceRequestMsg string
  | ServiceAcceptMsg string
  | UserAuthRequestMsg string string string bytes
  | UserAuthSuccessMsg
  | UserAuthFailureMsg "string list" bool
  | UserAuthInfoRequestMsg string string string u32 bytes
  | ChannelOpenMsg string u32 u32 u32 bytes
  | ChannelDataMsg u32 u32 bytes
  | ChannelOpenConfirmMsg u32 u32 u32 u32 bytes
  | ChannelOpenFailureMsg u32 u32 string string
  | ChannelRequestMsg u32 string bool bytes
  | ChannelRequestSuccessMsg u32
  | ChannelRequestFailureMsg u32
  | ChannelCloseMsg u32
  | ChannelEOFMsg u32
  | GlobalRequestMsg string bool bytes
  | GlobalRequestSuccessMsg bytes
  | GlobalRequestFailureMsg bytes
  | WindowAdjustMsg u32 u32
  | UserAuthPubKeyOkMsg string bytes

datatype mtype =
  T_disconnectMsg | T_kexInitMsg | T_kexDHInitMsg | T_kexECDHInitMsg |
  T_kexECDHReplyMsg | T_kexDHReplyMsg | T_serviceRequestMsg | T_serviceAcceptMsg |
  T_userAuthRequestMsg | T_userAuthSuccessMsg | T_userAuthFailureMsg | T_userAuthInfoRequestMsg |
  T_channelOpenMsg | T_channelDataMsg | T_channelOpenConfirmMsg | T_channelOpenFailureMsg |
  T_channelRequestMsg | T_channelRequestSuccessMsg | T_channelRequestFailureMsg |
  T_channelCloseMsg | T_channelEOFMsg | T_globalRequestMsg | T_globalRequestSuccessMsg |
  T_globalRequestFailureMsg | T_windowAdjustMsg | T_userAuthPubKeyOkMsg

primrec mtypeOf :: "message \<Rightarrow> mtype" where
  "mtypeOf (DisconnectMsg x0 x1 x2) = T_disconnectMsg"
| "mtypeOf (KexInitMsg x0 x1 x2 x3 x4 x5 x6 x7 x8 x9 x10 x11 x12) = T_kexInitMsg"
| "mtypeOf (KexDHInitMsg x0) = T_kexDHInitMsg"
| "mtypeOf (KexECDHInitMsg x0) = T_kexECDHInitMsg"
| "mtypeOf (KexECDHReplyMsg x0 x1 x2) = T_kexECDHReplyMsg"
| "mtypeOf (KexDHReplyMsg x0 x1 x2) = T_kexDHReplyMsg"
| "mtypeOf (ServiceRequestMsg x0) = T_serviceRequestMsg"
| "mtypeOf (ServiceAcceptMsg x0) = T_serviceAcceptMsg"
| "mtypeOf (UserAuthRequestMsg x0 x1 x2 x3) = T_userAuthRequestMsg"
| "mtypeOf UserAuthSuccessMsg = T_userAuthSuccessMsg"
| "mtypeOf (UserAuthFailureMsg x0 x1) = T_userAuthFailureMsg"
| "mtypeOf (UserAuthInfoRequestMsg x0 x1 x2 x3 x4) = T_userAuthInfoRequestMsg"
| "mtypeOf (ChannelOpenMsg x0 x1 x2 x3 x4) = T_channelOpenMsg"
| "mtypeOf (ChannelDataMsg x0 x1 x2) = T_channelDataMsg"
| "mtypeOf (ChannelOpenConfirmMsg x0 x1 x2 x3 x4) = T_channelOpenConfirmMsg"
| "mtypeOf (ChannelOpenFailureMsg x0 x1 x2 x3) = T_channelOpenFailureMsg"
| "mtypeOf (ChannelRequestMsg x0 x1 x2 x3) = T_channelRequestMsg"
| "mtypeOf (ChannelRequestSuccessMsg x0) = T_channelRequestSuccessMsg"
| "mtypeOf (ChannelRequestFailureMsg x0) = T_channelRequestFailureMsg"
| "mtypeOf (ChannelCloseMsg x0) = T_channelCloseMsg"
| "mtypeOf (ChannelEOFMsg x0) = T_channelEOFMsg"
| "mtypeOf (GlobalRequestMsg x0 x1 x2) = T_globalRequestMsg"
| "mtypeOf (GlobalRequestSuccessMsg x0) = T_globalRequestSuccessMsg"
| "mtypeOf (GlobalRequestFailureMsg x0) = T_globalRequestFailureMsg"
| "mtypeOf (WindowAdjustMsg x0 x1) = T_windowAdjustMsg"
| "mtypeOf (UserAuthPubKeyOkMsg x0 x1) = T_userAuthPubKeyOkMsg"

primrec fieldsOf :: "message \<Rightarrow> fval list" where
  "fieldsOf (DisconnectMsg x0 x1 x2) = [VU32 x0, VString x1, VString x2]"
| "fieldsOf (KexInitMsg x0 x1 x2 x3 x4 x5 x6 x7 x8 x9 x10 x11 x12) =
      [VArray x0, VNames x1, VNames x2, VNames x3, VNames x4, VNames x5, VNames x6, VNames x7,
       VNames x8, VNames x9, VNames x10, VBool x11, VU32 x12]"
| "fieldsOf (KexDHInitMsg x0) = [VInt x0]"
| "fieldsOf (KexECDHInitMsg x0) = [VBytes x0]"
| "fieldsOf (KexECDHReplyMsg x0 x1 x2) = [VBytes x0, VBytes x1, VBytes x2]"
| "fieldsOf (KexDHReplyMsg x0 x1 x2) = [VBytes x0, VInt x1, VBytes x2]"
| "fieldsOf (ServiceRequestMsg x0) = [VString x0]"
| "fieldsOf (ServiceAcceptMsg x0) = [VString x0]"
| "fieldsOf (UserAuthRequestMsg x0 x1 x2 x3) = [VString x0, VString x1, VString x2, VBytes x3]"
| "fieldsOf UserAuthSuccessMsg = []"
| "fieldsOf (UserAuthFailureMsg x0 x1) = [VNames x0, VBool x1]"
| "fieldsOf (UserAuthInfoRequestMsg x0 x1 x2 x3 x4) =
      [VString x0, VString x1, VString x2, VU32 x3, VBytes x4]"
| "fieldsOf (ChannelOpenMsg x0 x1 x2 x3 x4) = [VString x0, VU32 x1, VU32 x2, VU32 x3, VBytes x4]"
| "fieldsOf (ChannelDataMsg x0 x1 x2) = [VU32 x0, VU32 x1, VBytes x2]"
| "fieldsOf (ChannelOpenConfirmMsg x0 x1 x2 x3 x4) =
      [VU32 x0, VU32 x1, VU32 x2, VU32 x3, VBytes x4]"
| "fieldsOf (ChannelOpenFailureMsg x0 x1 x2 x3) = [VU32 x0, VU32 x1, VString x2, VString x3]"
| "fieldsOf (ChannelRequestMsg x0 x1 x2 x3) = [VU32 x0, VString x1, VBool x2, VBytes x3]"
| "fieldsOf (ChannelRequestSuccessMsg x0) = [VU32 x0]"
| "fieldsOf (ChannelRequestFailureMsg x0) = [VU32 x0]"
| "fieldsOf (ChannelCloseMsg x0) = [VU32 x0]"
| "fieldsOf (ChannelEOFMsg x0) = [VU32 x0]"
| "fieldsOf (GlobalRequestMsg x0 x1 x2) = [VString x0, VBool x1, VBytes x2]"
| "fieldsOf (GlobalRequestSuccessMsg x0) = [VBytes x0]"
| "fieldsOf (GlobalRequestFailureMsg x0) = [VBytes x0]"
| "fieldsOf (WindowAdjustMsg x0 x1) = [VU32 x0, VU32 x1]"
| "fieldsOf (UserAuthPubKeyOkMsg x0 x1) = [VString x0, VBytes x1]"

primrec structOf :: "mtype \<Rightarrow> structType" where
  "structOf T_disconnectMsg = \<lparr>sname = ''disconnectMsg'', sshtype = ''1'', sfields =
     [(''Reason'', KUint32), (''Message'', KString), (''Language'', KString)]\<rparr>"
| "structOf T_kexInitMsg = \<lparr>sname = ''kexInitMsg'', sshtype = ''20'', sfields =
     [(''Cookie'', KArray 16), (''KexAlgos'', KNames), (''ServerHostKeyAlgos'', KNames),
        (''CiphersClientServer'', KNames), (''CiphersServerClient'', KNames),
        (''MACsClientServer'', KNames), (''MACsServerClient'', KNames),
        (''CompressionClientServer'', KNames), (''CompressionServerClient'', KNames),
        (''LanguagesClientServer'', KNames), (''LanguagesServerClient'', KNames),
        (''FirstKexFollows'', KBool), (''Reserved'', KUint32)]\<rparr>"
| "structOf T_kexDHInitMsg = \<lparr>sname = ''kexDHInitMsg'', sshtype = ''30'', sfields =
     [(''X'', KBigInt)]\<rparr>"
| "structOf T_kexECDHInitMsg = \<lparr>sname = ''kexECDHInitMsg'', sshtype = ''30'', sfields =
     [(''ClientPubKey'', KBytes)]\<rparr>"
| "structOf T_kexECDHReplyMsg = \<lparr>sname = ''kexECDHReplyMsg'', sshtype = ''31'', sfields =
     [(''HostKey'', KBytes), (''EphemeralPubKey'', KBytes), (''Signature'', KBytes)]\<rparr>"
| "structOf T_kexDHReplyMsg = \<lparr>sname = ''kexDHReplyMsg'', sshtype = ''31'', sfields =
     [(''HostKey'', KBytes), (''Y'', KBigInt), (''Signature'', KBytes)]\<rparr>"
| "structOf T_serviceRequestMsg = \<lparr>sname = ''serviceRequestMsg'', sshtype = ''5'', sfields =
     [(''Service'', KString)]\<rparr>"
| "structOf T_serviceAcceptMsg = \<lparr>sname = ''serviceAcceptMsg'', sshtype = ''6'', sfields =
     [(''Service'', KString)]\<rparr>"
| "structOf T_userAuthRequestMsg = \<lparr>sname = ''userAuthRequestMsg'', sshtype = ''50'', sfields =
     [(''User'', KString), (''Service'', KString), (''Method'', KString), (''Payload'', KRest)]\<rparr>"
| "structOf T_userAuthSuccessMsg = \<lparr>sname = ''userAuthSuccessMsg'', sshtype = '''', sfields =
     []\<rparr>"
| "structOf T_userAuthFailureMsg = \<lparr>sname = ''userAuthFailureMsg'', sshtype = ''51'', sfields =
     [(''Methods'', KNames), (''PartialSuccess'', KBool)]\<rparr>"
| "structOf T_userAuthInfoRequestMsg = \<lparr>sname = ''userAuthInfoRequestMsg'', sshtype = ''60'', sfields =
     [(''User'', KString), (''Instruction'', KString), (''DeprecatedLanguage'', KString),
        (''NumPrompts'', KUint32), (''Prompts'', KRest)]\<rparr>"
| "structOf T_channelOpenMsg = \<lparr>sname = ''channelOpenMsg'', sshtype = ''90'', sfields =
     [(''ChanType'', KString), (''PeersId'', KUint32), (''PeersWindow'', KUint32),
        (''MaxPacketSize'', KUint32), (''TypeSpecificData'', KRest)]\<rparr>"
| "structOf T_channelDataMsg = \<lparr>sname = ''channelDataMsg'', sshtype = ''94'', sfields =
     [(''PeersId'', KUint32), (''Length'', KUint32), (''Rest'', KRest)]\<rparr>"
| "structOf T_channelOpenConfirmMsg = \<lparr>sname = ''channelOpenConfirmMsg'', sshtype = ''91'', sfields =
     [(''PeersId'', KUint32), (''MyId'', KUint32), (''MyWindow'', KUint32),
        (''MaxPacketSize'', KUint32), (''TypeSpecificData'', KRest)]\<rparr>"
| "structOf T_channelOpenFailureMsg = \<lparr>sname = ''channelOpenFailureMsg'', sshtype = ''92'', sfields =
     [(''PeersId'', KUint32), (''Reason'', KUint32), (''Message'', KString),
        (''Language'', KString)]\<rparr>"
| "structOf T_channelRequestMsg = \<lparr>sname = ''channelRequestMsg'', sshtype = ''98'', sfields =
     [(''PeersId'', KUint32), (''Request'', KString), (''WantReply'', KBool),
        (''RequestSpecificData'', KRest)]\<rparr>"
| "structOf T_channelRequestSuccessMsg = \<lparr>sname = ''channelRequestSuccessMsg'', sshtype = ''99'', sfields =
     [(''PeersId'', KUint32)]\<rparr>"
| "structOf T_channelRequestFailureMsg = \<lparr>sname = ''channelRequestFailureMsg'', sshtype = ''100'', sfields =
     [(''PeersId'', KUint32)]\<rparr>"
| "structOf T_channelCloseMsg = \<lparr>sname = ''channelCloseMsg'', sshtype = ''97'', sfields =
     [(''PeersId'', KUint32)]\<rparr>"
| "structOf T_channelEOFMsg = \<lparr>sname = ''channelEOFMsg'', sshtype = ''96'', sfields =
     [(''PeersId'', KUint32)]\<rparr>"
| "structOf T_globalRequestMsg = \<lparr>sname = ''globalRequestMsg'', sshtype = ''80'', sfields =
     [(''Type'', KString), (''WantReply'', KBool), (''Data'', KRest)]\<rparr>"
| "structOf T_globalRequestSuccessMsg = \<lparr>sname = ''globalRequestSuccessMsg'', sshtype = ''81'', sfields =
     [(''Data'', KRest)]\<rparr>"
| "structOf T_globalRequestFailureMsg = \<lparr>sname = ''globalRequestFailureMsg'', sshtype = ''82'', sfields =
     [(''Data'', KRest)]\<rparr>"
| "structOf T_windowAdjustMsg = \<lparr>sname = ''windowAdjustMsg'', sshtype = ''93'', sfields =
     [(''PeersId'', KUint32), (''AdditionalBytes'', KUint32)]\<rparr>"
| "structOf T_userAuthPubKeyOkMsg = \<lparr>sname = ''userAuthPubKeyOkMsg'', sshtype = ''60'', sfields =
     [(''Algo'', KString), (''PubKey'', KBytes)]\<rparr>"

text \<open>Setting the fields of a fresh struct of the given type, what \<open>field.Set\<close> does one by one.\<close>

primrec build :: "mtype \<Rightarrow> fval list \<Rightarrow> message option" where
  "build T_disconnectMsg vs =
     (case vs of [VU32 x0, VString x1, VString x2] \<Rightarrow>
        Some (DisconnectMsg x0 x1 x2) | _ \<Rightarrow> None)"
| "build T_kexInitMsg vs =
     (case vs of [VArray x0, VNames x1, VNames x2, VNames x3, VNames x4, VNames x5, VNames x6, VNames x7,
         VNames x8, VNames x9, VNames x10, VBool x11, VU32 x12] \<Rightarrow>
        Some (KexInitMsg x0 x1 x2 x3 x4 x5 x6 x7 x8 x9 x10 x11 x12) | _ \<Rightarrow> None)"
| "build T_kexDHInitMsg vs =
     (case vs of [VInt x0] \<Rightarrow>
        Some (KexDHInitMsg x0) | _ \<Rightarrow> None)"
| "build T_kexECDHInitMsg vs =
     (case vs of [VBytes x0] \<Rightarrow>
        Some (KexECDHInitMsg x0) | _ \<Rightarrow> None)"
| "build T_kexECDHReplyMsg vs =
     (case vs of [VBytes x0, VBytes x1, VBytes x2] \<Rightarrow>
        Some (KexECDHReplyMsg x0 x1 x2) | _ \<Rightarrow> None)"
| "build T_kexDHReplyMsg vs =
     (case vs of [VBytes x0, VInt x1, VBytes x2] \<Rightarrow>
        Some (KexDHReplyMsg x0 x1 x2) | _ \<Rightarrow> None)"
| "build T_serviceRequestMsg vs =
     (case vs of [VString x0] \<Rightarrow>
        Some (ServiceRequestMsg x0) | _ \<Rightarrow> None)"
| "build T_serviceAcceptMsg vs =
     (case vs of [VString x0] \<Rightarrow>
        Some (ServiceAcceptMsg x0) | _ \<Rightarrow> None)"
| "build T_userAuthRequestMsg vs =
     (case vs of [VString x0, VString x1, VString x2, VBytes x3] \<Rightarrow>
        Some (UserAuthRequestMsg x0 x1 x2 x3) | _ \<Rightarrow> None)"
| "build T_userAuthSuccessMsg vs =
     (case vs of [] \<Rightarrow>
        Some UserAuthSuccessMsg | _ \<Rightarrow> None)"
| "build T_userAuthFailureMsg vs =
     (case vs of [VNames x0, VBool x1] \<Rightarrow>
        Some (UserAuthFailureMsg x0 x1) | _ \<Rightarrow> None)"
| "build T_userAuthInfoRequestMsg vs =
     (case vs of [VString x0, VString x1, VString x2, VU32 x3, VBytes x4] \<Rightarrow>
        Some (UserAuthInfoRequestMsg x0 x1 x2 x3 x4) | _ \<Rightarrow> None)"
| "build T_channelOpenMsg vs =
     (case vs of [VString x0, VU32 x1, VU32 x2, VU32 x3, VBytes x4] \<Rightarrow>
        Some (ChannelOpenMsg x0 x1 x2 x3 x4) | _ \<Rightarrow> None)"
| "build T_channelDataMsg vs =
     (case vs of [VU32 x0, VU32 x1, VBytes x2] \<Rightarrow>
        Some (ChannelDataMsg x0 x1 x2) | _ \<Rightarrow> None)"
| "build T_channelOpenConfirmMsg vs =
     (case vs of [VU32 x0, VU32 x1, VU32 x2, VU32 x3, VBytes x4] \<Rightarrow>
        Some (ChannelOpenConfirmMsg x0 x1 x2 x3 x4) | _ \<Rightarrow> None)"
| "build T_channelOpenFailureMsg vs =
     (case vs of [VU32 x0, VU32 x1, VString x2, VString x3] \<Rightarrow>
        Some (ChannelOpenFailureMsg x0 x1 x2 x3) | _ \<Rightarrow> None)"
| "build T_channelRequestMsg vs =
     (case vs of [VU32 x0, VString x1, VBool x2, VBytes x3] \<Rightarrow>
        Some (ChannelRequestMsg x0 x1 x2 x3) | _ \<Rightarrow> None)"
| "build T_channelRequestSuccessMsg vs =
     (case vs of [VU32 x0] \<Rightarrow>
        Some (ChannelRequestSuccessMsg x0) | _ \<Rightarrow> None)"
| "build T_channelRequestFailureMsg vs =
     (case vs of [VU32 x0] \<Rightarrow>
        Some (ChannelRequestFailureMsg x0) | _ \<Rightarrow> None)"
| "build T_channelCloseMsg vs =
     (case vs of [VU32 x0] \<Rightarrow>
        Some (ChannelCloseMsg x0) | _ \<Rightarrow> None)"
| "build T_channelEOFMsg vs =
     (case vs of [VU32 x0] \<Rightarrow>
        Some (ChannelEOFMsg x0) | _ \<Rightarrow> None)"
| "build T_globalRequestMsg vs =
     (case vs of [VString x0, VBool x1, VBytes x2] \<Rightarrow>
        Some (GlobalRequestMsg x0 x1 x2) | _ \<Rightarrow> None)"
| "build T_globalRequestSuccessMsg vs =
     (case vs of [VBytes x0] \<Rightarrow>
        Some (GlobalRequestSuccessMsg x0) | _ \<Rightarrow> None)"
| "build T_globalRequestFailureMsg vs =
     (case vs of [VBytes x0] \<Rightarrow>
        Some (GlobalRequestFailureMsg x0) | _ \<Rightarrow> None)"
| "build T_windowAdjustMsg vs =
     (case vs of [VU32 x0, VU32 x1] \<Rightarrow>
        Some (WindowAdjustMsg x0 x1) | _ \<Rightarrow> None)"
| "build T_userAuthPubKeyOkMsg vs =
     (case vs of [VString x0, VBytes x1] \<Rightarrow>
        Some (UserAuthPubKeyOkMsg x0 x1) | _ \<Rightarrow> None)"

definition UnmarshalMsg :: "mtype \<Rightarrow> bytes \<Rightarrow> message res" where
  "UnmarshalMsg t data =
     res_bind (Unmarshal (structOf t) data) (\<lambda>vs.
       case build t vs of Some m \<Rightarrow> Ok m | None \<Rightarrow> wrongKind)"

definition MarshalMsg :: "message \<Rightarrow> bytes res" where
  "MarshalMsg m = Marshal (structOf (mtypeOf m)) (fieldsOf m)"

text \<open>The message numbers.\<close>

abbreviation (input) msgIgnore :: byte where "msgIgnore \<equiv> 2"
abbreviation (input) msgUnimplemented :: byte where "msgUnimplemented \<equiv> 3"
abbreviation (input) msgDebug :: byte where "msgDebug \<equiv> 4"
abbreviation (input) msgNewKeys :: byte where "msgNewKeys \<equiv> 21"
abbreviation (input) msgUserAuthSuccess :: byte where "msgUserAuthSuccess \<equiv> 52"
abbreviation (input) msgUserAuthBanner :: byte where "msgUserAuthBanner \<equiv> 53"
abbreviation (input) msgDisconnect :: byte where "msgDisconnect \<equiv> 1"
abbreviation (input) msgKexInit :: byte where "msgKexInit \<equiv> 20"
abbreviation (input) msgKexDHInit :: byte where "msgKexDHInit \<equiv> 30"
abbreviation (input) msgKexECDHInit :: byte where "msgKexECDHInit \<equiv> 30"
abbreviation (input) msgKexECDHReply :: byte where "msgKexECDHReply \<equiv> 31"
abbreviation (input) msgKexDHReply :: byte where "msgKexDHReply \<equiv> 31"
abbreviation (input) msgServiceRequest :: byte where "msgServiceRequest \<equiv> 5"
abbreviation (input) msgServiceAccept :: byte where "msgServiceAccept \<equiv> 6"
abbreviation (input) msgUserAuthRequest :: byte where "msgUserAuthRequest \<equiv> 50"
abbreviation (input) msgUserAuthFailure :: byte where "msgUserAuthFailure \<equiv> 51"
abbreviation (input) msgUserAuthInfoRequest :: byte where "msgUserAuthInfoRequest \<equiv> 60"
abbreviation (input) msgUserAuthInfoResponse :: byte where "msgUserAuthInfoResponse \<equiv> 61"
abbreviation (input) msgChannelOpen :: byte where "msgChannelOpen \<equiv> 90"
abbreviation (input) msgChannelExtendedData :: byte where "msgChannelExtendedData \<equiv> 95"
abbreviation (input) msgChannelData :: byte where "msgChannelData \<equiv> 94"
abbreviation (input) msgChannelOpenConfirm :: byte where "msgChannelOpenConfirm \<equiv> 91"
abbreviation (input) msgChannelOpenFailure :: byte where "msgChannelOpenFailure \<equiv> 92"
abbreviation (input) msgChannelRequest :: byte where "msgChannelRequest \<equiv> 98"
abbreviation (input) msgChannelSuccess :: byte where "msgChannelSuccess \<equiv> 99"
abbreviation (input) msgChannelFailure :: byte where "msgChannelFailure \<equiv> 100"
abbreviation (input) msgChannelClose :: byte where "msgChannelClose \<equiv> 97"
abbreviation (input) msgChannelEOF :: byte where "msgChannelEOF \<equiv> 96"
abbreviation (input) msgGlobalRequest :: byte where "msgGlobalRequest \<equiv> 80"
abbreviation (input) msgRequestSuccess :: byte where "msgRequestSuccess \<equiv> 81"
abbreviation (input) msgRequestFailure :: byte where "msgRequestFailure \<equiv> 82"
abbreviation (input) msgChannelWindowAdjust :: byte where "msgChannelWindowAdjust \<equiv> 93"
abbreviation (input) msgUserAuthPubKeyOk :: byte where "msgUserAuthPubKeyOk \<equiv> 60"

definition decode :: "bytes \<Rightarrow> message res" where
  "decode packet =
     (case packet of [] \<Rightarrow> Panic ''index out of range''
      | p # _ \<Rightarrow>
        if p = msgDisconnect then UnmarshalMsg T_disconnectMsg packet
        else if p = msgServiceRequest then UnmarshalMsg T_serviceRequestMsg packet
        else if p = msgServiceAccept then UnmarshalMsg T_serviceAcceptMsg packet
        else if p = msgKexInit then UnmarshalMsg T_kexInitMsg packet
        else if p = msgKexDHInit then UnmarshalMsg T_kexDHInitMsg packet
        else if p = msgKexDHReply then UnmarshalMsg T_kexDHReplyMsg packet
        else if p = msgUserAuthRequest then UnmarshalMsg T_userAuthRequestMsg packet
        else if p = msgUserAuthSuccess then Ok UserAuthSuccessMsg
        else if p = msgUserAuthFailure then UnmarshalMsg T_userAuthFailureMsg packet
        else if p = msgUserAuthPubKeyOk then UnmarshalMsg T_userAuthPubKeyOkMsg packet
        else if p = msgGlobalRequest then UnmarshalMsg T_globalRequestMsg packet
        else if p = msgRequestSuccess then UnmarshalMsg T_globalRequestSuccessMsg packet
        else if p = msgRequestFailure then UnmarshalMsg T_globalRequestFailureMsg packet
        else if p = msgChannelOpen then UnmarshalMsg T_channelOpenMsg packet
        else if p = msgChannelData then UnmarshalMsg T_channelDataMsg packet
        else if p = msgChannelOpenConfirm then UnmarshalMsg T_channelOpenConfirmMsg packet
        else if p = msgChannelOpenFailure then UnmarshalMsg T_channelOpenFailureMsg packet
        else if p = msgChannelWindowAdjust then UnmarshalMsg T_windowAdjustMsg packet
        else if p = msgChannelEOF then UnmarshalMsg T_channelEOFMsg packet
        else if p = msgChannelClose then UnmarshalMsg T_channelCloseMsg packet
        else if p = msgChannelRequest then UnmarshalMsg T_channelRequestMsg packet
        else if p = msgChannelSuccess then UnmarshalMsg T_channelRequestSuccessMsg packet
        else if p = msgChannelFailure then UnmarshalMsg T_channelRequestFailureMsg packet
        else Err (unexpectedMessageError 0 p))"

section \<open>Lemmas\<close>

lemma build_fieldsOf [simp]: "build (mtypeOf m) (fieldsOf m) = Some m"
  by (cases m) simp_all

lemmas tag_eval = tagBytes_def typeTags_def atoi_def digit_val_def map_filter_simps

primrec tagOf :: "mtype \<Rightarrow> bytes" where
  "tagOf T_disconnectMsg = [1]"
| "tagOf T_kexInitMsg = [20]"
| "tagOf T_kexDHInitMsg = [30]"
| "tagOf T_kexECDHInitMsg = [30]"
| "tagOf T_kexECDHReplyMsg = [31]"
| "tagOf T_kexDHReplyMsg = [31]"
| "tagOf T_serviceRequestMsg = [5]"
| "tagOf T_serviceAcceptMsg = [6]"
| "tagOf T_userAuthRequestMsg = [50]"
| "tagOf T_userAuthSuccessMsg = []"
| "tagOf T_userAuthFailureMsg = [51]"
| "tagOf T_userAuthInfoRequestMsg = [60]"
| "tagOf T_channelOpenMsg = [90]"
| "tagOf T_channelDataMsg = [94]"
| "tagOf T_channelOpenConfirmMsg = [91]"
| "tagOf T_channelOpenFailureMsg = [92]"
| "tagOf T_channelRequestMsg = [98]"
| "tagOf T_channelRequestSuccessMsg = [99]"
| "tagOf T_channelRequestFailureMsg = [100]"
| "tagOf T_channelCloseMsg = [97]"
| "tagOf T_channelEOFMsg = [96]"
| "tagOf T_globalRequestMsg = [80]"
| "tagOf T_globalRequestSuccessMsg = [81]"
| "tagOf T_globalRequestFailureMsg = [82]"
| "tagOf T_windowAdjustMsg = [93]"
| "tagOf T_userAuthPubKeyOkMsg = [60]"

lemma tagBytes_structOf [simp]: "tagBytes (structOf t) = tagOf t"
  by (cases t) (simp_all add: tag_eval)

lemma sfields_structOf [simp]: "sfields (structOf t) = [] \<longleftrightarrow> t = T_userAuthSuccessMsg"
  by (cases t) simp_all

lemma fieldsOf_empty [simp]: "fieldsOf m = [] \<longleftrightarrow> mtypeOf m = T_userAuthSuccessMsg"
  by (cases m) simp_all

lemma struct_ok_structOf [simp]: "struct_ok (structOf t)"
  unfolding struct_ok_def tagBytes_structOf by (cases t) simp_all

definition msg_ok :: "message \<Rightarrow> bool" where
  "msg_ok m \<longleftrightarrow> vals_ok (sfields (structOf (mtypeOf m))) (fieldsOf m) \<and>
     mtypeOf m \<noteq> T_userAuthSuccessMsg"

definition msgBytes :: "message \<Rightarrow> bytes" where
  "msgBytes m = structBytes (structOf (mtypeOf m)) (fieldsOf m)"

lemma MarshalMsg_ok: "msg_ok m \<Longrightarrow> MarshalMsg m = Ok (msgBytes m)"
  by (simp add: MarshalMsg_def msg_ok_def msgBytes_def Marshal_ok)

lemma msgBytes_tag:
  "mtypeOf m \<noteq> T_userAuthSuccessMsg \<Longrightarrow>
     msgBytes m = hd (tagOf (mtypeOf m)) # fieldsBytes (sfields (structOf (mtypeOf m))) (fieldsOf m)"
  unfolding msgBytes_def structBytes_def tagBytes_structOf by (cases m) simp_all

lemma UnmarshalMsg_msgBytes:
  assumes "msg_ok m" "length (msgBytes m) < 2 ^ 32"
  shows "UnmarshalMsg (mtypeOf m) (msgBytes m) = Ok m"
proof -
  have "Unmarshal (structOf (mtypeOf m)) (msgBytes m) = Ok (fieldsOf m)"
    using assms msgBytes_tag [of m] unfolding msgBytes_def
    by (intro Unmarshal_structBytes) (auto simp: msg_ok_def)
  then show ?thesis by (simp add: UnmarshalMsg_def)
qed

text \<open>The types of the messages \<open>decode\<close> builds.\<close>

definition decodable :: "mtype \<Rightarrow> bool" where
  "decodable t \<longleftrightarrow> t \<notin> {T_kexECDHInitMsg, T_kexECDHReplyMsg, T_userAuthInfoRequestMsg}"

lemma decode_tag:
  "decodable t \<Longrightarrow> t \<noteq> T_userAuthSuccessMsg \<Longrightarrow> decode (hd (tagOf t) # data) = UnmarshalMsg t (hd (tagOf t) # data)"
  by (cases t) (simp_all add: decode_def decodable_def)

lemma decode_msgBytes:
  assumes "msg_ok m" "decodable (mtypeOf m)" "length (msgBytes m) < 2 ^ 32"
  shows "decode (msgBytes m) = Ok m"
  using decode_tag [OF assms(2)] UnmarshalMsg_msgBytes [OF assms(1,3)] msgBytes_tag [of m] assms(1)
  by (simp add: msg_ok_def)

fun fits :: "fkind \<Rightarrow> fval \<Rightarrow> bool" where
  "fits KBool v = (\<exists>x. v = VBool x)"
| "fits (KArray n) v = (\<exists>x. v = VArray x)"
| "fits KUint64 v = (\<exists>x. v = VU64 x)"
| "fits KUint32 v = (\<exists>x. v = VU32 x)"
| "fits KUint8 v = (\<exists>x. v = VU8 x)"
| "fits KString v = (\<exists>x. v = VString x)"
| "fits KBytes v = (\<exists>x. v = VBytes x)"
| "fits KRest v = (\<exists>x. v = VBytes x)"
| "fits KNames v = (\<exists>x. v = VNames x)"
| "fits KBigInt v = (\<exists>x. v = VInt x)"
| "fits k v = False"

lemma unmarshalField_fits: "unmarshalField sn fn k data = Ok (v, r) \<Longrightarrow> fits k v"
  by (cases k) (auto simp: opt_res_def split: list.splits option.splits if_splits)

lemma unmarshalFields_fits:
  "unmarshalFields sn fs data = Ok (vs, r) \<Longrightarrow> list_all2 (\<lambda>f v. fits (snd f) v) fs vs"
proof (induction sn fs data arbitrary: vs rule: unmarshalFields.induct)
  case (2 sn fn k fs data)
  then show ?case by (auto simp: res_simps dest: unmarshalField_fits split: prod.splits)
qed simp

lemma build_total:
  "list_all2 (\<lambda>f v. fits (snd f) v) (sfields (structOf t)) vs \<Longrightarrow> \<exists>m. build t vs = Some m"
  by (cases t) (auto simp: list_all2_Cons1)

lemma build_mtypeOf: "build t vs = Some m \<Longrightarrow> mtypeOf m = t \<and> fieldsOf m = vs"
  by (cases t) (auto split: list.splits fval.splits)

lemma UnmarshalMsg_no_panic:
  assumes "t \<noteq> T_userAuthSuccessMsg"
  shows "\<not> is_Panic (UnmarshalMsg t data)"
proof -
  have "\<exists>m. build t vs = Some m" if "Unmarshal (structOf t) data = Ok vs" for vs
    using Unmarshal_OkD [OF that] build_total [OF unmarshalFields_fits] by blast
  then show ?thesis
    using Unmarshal_no_panic [of "structOf t" data] assms
    by (cases "Unmarshal (structOf t) data") (auto simp: UnmarshalMsg_def)
qed

lemma decode_no_panic: "packet \<noteq> [] \<Longrightarrow> \<not> is_Panic (decode packet)"
  by (cases packet) (simp_all add: decode_def UnmarshalMsg_no_panic)

section \<open>Properties\<close>



text \<open>No packet a peer can send makes \<open>decode\<close> panic, as long as it is not empty.\<close>

theorem decode_total: "packet \<noteq> [] \<Longrightarrow> \<not> is_Panic (decode packet)"
  by (rule decode_no_panic)

theorem decode_total_witness: "\<not> is_Panic (decode [20, 0, 0])"
  by (rule decode_total) simp

end
