(* ===== verification/IdleTimer.thy ===== *)
theory IdleTimer
  imports Prelude
begin

text \<open>
  The idle timer (\<open>src/idle.go\<close>). The fields the timer's methods update atomically and the
  variables of the background goroutine (\<open>dur\<close>, \<open>heartbeat\<close>) are one record. The
  goroutine's \<open>select\<close> handles one event at a time, so it is a function from the timer and an
  event to the new timer; the events are the communications the \<open>select\<close> lists, the request to
  stop, and the atomic updates of \<open>BeginAttempt\<close> and \<open>AttemptOK\<close>. The monotonic clock is an argument of the
  events that read it. \<open>time.NewTicker\<close> panics on an interval that is not positive, so every
  step returns a result.
\<close>

section \<open>State\<close>

text \<open>
  \<open>heartbeat\<close> is the ticker's interval, \<open>None\<close> when \<open>heartbeat\<close> and \<open>heartch\<close>
  are nil. \<open>'c\<close> is the type of callbacks. \<open>stopReq\<close> and \<open>stopped\<close> are the closed
  states of the timer's \<open>Halt.ReqStopChan()\<close> and \<open>Halt.DoneChan()\<close>.
\<close>

record 'c IdleTimer =
  timeOutRaised :: string
  lastStart :: int
  lastOK :: int
  timeoutCallback :: "'c list"
  atomicdur :: int
  idleDur :: int
  heartbeat :: "int option"
  isOneshot :: bool
  stopReq :: bool
  stopped :: bool

datatype 'c idleEvent =
    EvRequestStop
  | EvReqStop
  | EvTimedOut
  | EvSetCallback 'c
  | EvAddCallback 'c
  | EvGetIdleTimeout
  | EvSetIdleTimeout int
  | EvHeartbeat int
  | EvBeginAttempt int
  | EvAttemptOK int

text \<open>What an event hands to the other side of the channel, or the callbacks it starts.\<close>

datatype 'c idleOutput =
    OutNone
  | OutTimedOut string
  | OutDur int
  | OutDone
  | OutFire "'c list"

definition factor :: int where
  "factor = 10"

definition newTicker :: "int \<Rightarrow> int res" where
  "newTicker d = (if d \<le> 0 then Panic ''non-positive interval for NewTicker'' else Ok d)"

section \<open>Operations\<close>

definition NewIdleTimer :: "'c option \<Rightarrow> int \<Rightarrow> 'c IdleTimer res" where
  "NewIdleTimer callback dur =
     (let t = \<lparr>timeOutRaised = [], lastStart = 0, lastOK = 0,
               timeoutCallback = (case callback of None \<Rightarrow> [] | Some c \<Rightarrow> [c]),
               atomicdur = dur, idleDur = dur, heartbeat = None, isOneshot = False,
               stopReq = False, stopped = False\<rparr>
      in if dur > 0 then res_bind (newTicker (dur div factor)) (\<lambda>p. Ok (t\<lparr>heartbeat := Some p\<rparr>))
         else Ok t)"

definition LastOKLastStartAndMonoNow :: "'c IdleTimer \<Rightarrow> int \<Rightarrow> int \<times> int \<times> int" where
  "LastOKLastStartAndMonoNow t monoNow = (lastOK t, lastStart t, monoNow)"

definition BeginAttempt :: "'c IdleTimer \<Rightarrow> int \<Rightarrow> 'c IdleTimer" where
  "BeginAttempt t monoNow = t\<lparr>lastStart := monoNow\<rparr>"

definition timerStop :: "'c IdleTimer \<Rightarrow> 'c IdleTimer" where
  "timerStop t = t\<lparr>stopReq := True, heartbeat := None, stopped := True\<rparr>"

definition AttemptOK :: "'c IdleTimer \<Rightarrow> int \<Rightarrow> 'c IdleTimer" where
  "AttemptOK t monoNow = (if isOneshot t then timerStop t else t\<lparr>lastOK := monoNow\<rparr>)"

definition IdleStatus :: "'c IdleTimer \<Rightarrow> int \<Rightarrow> int \<times> int \<times> int \<times> int \<times> bool" where
  "IdleStatus t mnow =
     (let lok = lastOK t; lst = lastStart t; todur = atomicdur t in
      if todur \<le> 0 \<or> lst \<le> 0 \<or> lok \<ge> lst then (lst, lok, mnow, todur, False)
      else let since = mnow - lst in (lst, lok, mnow, todur, since > todur))"

definition onSetIdleTimeout :: "'c IdleTimer \<Rightarrow> int \<Rightarrow> 'c IdleTimer res" where
  "onSetIdleTimeout t newdur =
     (let t1 = t\<lparr>timeOutRaised := [], lastStart := - 1\<rparr> in
      if idleDur t > 0 then
        (if newdur = idleDur t then Ok t1
         else if newdur \<le> 0 then
           Ok (t1\<lparr>idleDur := newdur, atomicdur := newdur, heartbeat := None\<rparr>)
         else
           res_bind (newTicker (newdur div factor)) (\<lambda>p.
             Ok (t1\<lparr>idleDur := newdur, atomicdur := newdur, heartbeat := Some p, lastStart := - 1\<rparr>)))
      else
        (if newdur \<le> 0 then Ok (t1\<lparr>idleDur := 0, atomicdur := 0\<rparr>)
         else
           res_bind (newTicker (newdur div factor)) (\<lambda>p.
             Ok (t1\<lparr>idleDur := newdur, atomicdur := newdur, heartbeat := Some p, lastStart := - 1\<rparr>))))"

text \<open>
  The text of a raised timeout. The wall clock time and the pointer that the source prints
  are left out; what matters to the readers is that the text is not empty.
\<close>

fun showNat :: "nat \<Rightarrow> string" where
  "showNat n = (if n < 10 then [char_of (48 + n)] else showNat (n div 10) @ [char_of (48 + n mod 10)])"

declare showNat.simps [simp del]

definition showInt :: "int \<Rightarrow> string" where
  "showInt n = (if n < 0 then ''-'' @ showNat (nat (- n)) else showNat (nat n))"

definition timeoutMessage :: "int \<Rightarrow> int \<Rightarrow> int \<Rightarrow> string" where
  "timeoutMessage dur since udur =
     ''timing out dur='' @ showInt dur @ '', since='' @ showInt since @ '' dur='' @ showInt udur @
     '', exceed='' @ showInt (since - udur)"

definition onHeartbeat :: "'c IdleTimer \<Rightarrow> int \<Rightarrow> ('c IdleTimer \<times> 'c idleOutput) res" where
  "onHeartbeat t monoNow =
     (if idleDur t = 0 then Panic ''should be impossible to get heartbeat.C on dur == 0''
      else
        let (lst, lok, mnow, udur, isTimeout) = IdleStatus t monoNow; since = mnow - lst in
        if isTimeout then
          (if timeoutCallback t = [] then
             Panic ''IdleTimer.timeoutCallback was never set! call t.addTimeoutCallback() first''
           else Ok (t\<lparr>timeOutRaised := timeoutMessage (idleDur t) since udur, heartbeat := None\<rparr>,
                    OutFire (timeoutCallback t)))
        else Ok (t, OutNone))"

text \<open>
  One turn of the background goroutine's loop, or an atomic update by a reader. A stopped timer
  answers nothing: its callers take their \<open>ReqStopChan\<close> case. A heartbeat arrives only while
  a ticker runs.
\<close>

definition enabled :: "'c IdleTimer \<Rightarrow> 'c idleEvent \<Rightarrow> bool" where
  "enabled t e =
     (case e of
        EvHeartbeat m \<Rightarrow> heartbeat t \<noteq> None \<and> \<not> stopped t
      | EvRequestStop \<Rightarrow> True
      | EvReqStop \<Rightarrow> stopReq t \<and> \<not> stopped t
      | EvBeginAttempt m \<Rightarrow> True
      | EvAttemptOK m \<Rightarrow> True
      | _ \<Rightarrow> \<not> stopped t)"

fun idleStep :: "'c IdleTimer \<Rightarrow> 'c idleEvent \<Rightarrow> ('c IdleTimer \<times> 'c idleOutput) res" where
  "idleStep t EvRequestStop = Ok (t\<lparr>stopReq := True\<rparr>, OutNone)"
| "idleStep t EvReqStop = Ok (timerStop t, OutNone)"
| "idleStep t EvTimedOut = Ok (t, OutTimedOut (timeOutRaised t))"
| "idleStep t (EvSetCallback f) = Ok (t\<lparr>timeoutCallback := [f]\<rparr>, OutNone)"
| "idleStep t (EvAddCallback f) = Ok (t\<lparr>timeoutCallback := timeoutCallback t @ [f]\<rparr>, OutNone)"
| "idleStep t EvGetIdleTimeout = Ok (t, OutDur (idleDur t))"
| "idleStep t (EvSetIdleTimeout d) = res_bind (onSetIdleTimeout t d) (\<lambda>t'. Ok (t', OutDone))"
| "idleStep t (EvHeartbeat m) = onHeartbeat t m"
| "idleStep t (EvBeginAttempt m) = Ok (BeginAttempt t m, OutNone)"
| "idleStep t (EvAttemptOK m) = Ok (AttemptOK t m, OutNone)"

fun idleRun :: "'c IdleTimer \<Rightarrow> 'c idleEvent list \<Rightarrow> 'c IdleTimer res" where
  "idleRun t [] = Ok t"
| "idleRun t (e # es) =
     (if enabled t e then res_bind (idleStep t e) (\<lambda>(t', _). idleRun t' es) else idleRun t es)"

text \<open>The methods that talk to the goroutine, on a timer that is not stopped.\<close>

definition SetIdleTimeout :: "'c IdleTimer \<Rightarrow> int \<Rightarrow> 'c IdleTimer res" where
  "SetIdleTimeout t d = (if stopped t then Ok t else onSetIdleTimeout t d)"

definition SetOneshotIdleTimeout :: "'c IdleTimer \<Rightarrow> int \<Rightarrow> 'c IdleTimer res" where
  "SetOneshotIdleTimeout t d = SetIdleTimeout (t\<lparr>isOneshot := True\<rparr>) d"

definition GetIdleTimeout :: "'c IdleTimer \<Rightarrow> int" where
  "GetIdleTimeout t = (if stopped t then 0 else idleDur t)"

definition AddTimeoutCallback :: "'c IdleTimer \<Rightarrow> 'c option \<Rightarrow> 'c IdleTimer res" where
  "AddTimeoutCallback t f =
     (case f of None \<Rightarrow> Panic ''cannot call addTimeoutCallback with nil function!''
      | Some c \<Rightarrow> Ok (if stopped t then t else t\<lparr>timeoutCallback := timeoutCallback t @ [c]\<rparr>))"

definition setTimeoutCallback :: "'c IdleTimer \<Rightarrow> 'c \<Rightarrow> 'c IdleTimer" where
  "setTimeoutCallback t f = (if stopped t then t else t\<lparr>timeoutCallback := [f]\<rparr>)"

text \<open>
  What a receive from \<open>TimedOut\<close> gives; \<open>None\<close> when the timer is stopped. The requests reach the
  backend at once here; the panics of \<open>AttemptOK\<close> and \<open>Stop\<close> after ten seconds without a backend are
  not modelled.
\<close>

definition recvTimedOut :: "'c IdleTimer \<Rightarrow> string option" where
  "recvTimedOut t = (if stopped t then None else Some (timeOutRaised t))"

section \<open>Lemmas\<close>

definition timer_inv :: "'c IdleTimer \<Rightarrow> bool" where
  "timer_inv t \<longleftrightarrow> atomicdur t = idleDur t \<and>
     (\<forall>p. heartbeat t = Some p \<longrightarrow> idleDur t > 0 \<and> p = idleDur t div factor \<and> p > 0)"

definition event_ok :: "'c idleEvent \<Rightarrow> bool" where
  "event_ok e = (case e of EvSetIdleTimeout d \<Rightarrow> d \<le> 0 \<or> factor \<le> d | _ \<Rightarrow> True)"

lemmas idle_defs = onSetIdleTimeout_def onHeartbeat_def timerStop_def BeginAttempt_def AttemptOK_def
  newTicker_def

lemma newTicker_ok: "factor \<le> d \<Longrightarrow> newTicker (d div factor) = Ok (d div factor)"
  by (simp add: newTicker_def factor_def pos_imp_zdiv_pos_iff not_le)

lemma onSetIdleTimeout_ok:
  "d \<le> 0 \<or> factor \<le> d \<Longrightarrow> timer_inv t \<Longrightarrow> \<exists>t'. onSetIdleTimeout t d = Ok t' \<and> timer_inv t' \<and>
     timeoutCallback t' = timeoutCallback t"
  by (auto simp: onSetIdleTimeout_def newTicker_ok [unfolded factor_def] timer_inv_def Let_def
      factor_def pos_imp_zdiv_pos_iff)

lemma onHeartbeat_ok:
  assumes "timer_inv t" "heartbeat t \<noteq> None" "timeoutCallback t \<noteq> []"
  shows "\<exists>t' o'. onHeartbeat t m = Ok (t', o') \<and> timer_inv t' \<and> timeoutCallback t' = timeoutCallback t"
  using assms by (auto simp: onHeartbeat_def timer_inv_def Let_def split: prod.splits)

lemma idleStep_ok:
  assumes "timer_inv t" "timeoutCallback t \<noteq> []" "enabled t e" "event_ok e"
  shows "\<exists>t' o'. idleStep t e = Ok (t', o') \<and> timer_inv t' \<and> timeoutCallback t' \<noteq> []"
proof (cases e)
  case (EvSetIdleTimeout d)
  with assms onSetIdleTimeout_ok [of d t] show ?thesis by (auto simp: event_ok_def)
next
  case (EvHeartbeat m)
  with assms onHeartbeat_ok [of t m] show ?thesis by (auto simp: enabled_def)
qed (use assms in \<open>auto simp: timer_inv_def timerStop_def BeginAttempt_def AttemptOK_def\<close>)

lemma idleRun_ok:
  "timer_inv t \<Longrightarrow> timeoutCallback t \<noteq> [] \<Longrightarrow> list_all event_ok es \<Longrightarrow>
     \<exists>t'. idleRun t es = Ok t' \<and> timer_inv t'"
proof (induction es arbitrary: t)
  case (Cons e es)
  show ?case
  proof (cases "enabled t e")
    case True
    with Cons.prems idleStep_ok [of t e] obtain t' o' where
      s: "idleStep t e = Ok (t', o')" "timer_inv t'" "timeoutCallback t' \<noteq> []" by auto
    with Cons.IH [of t'] Cons.prems True show ?thesis by simp
  next
    case False
    with Cons show ?thesis by simp
  qed
qed simp

lemma NewIdleTimer_ok:
  "d \<le> 0 \<or> factor \<le> d \<Longrightarrow> \<exists>t. NewIdleTimer (Some c) d = Ok t \<and> timer_inv t \<and> timeoutCallback t = [c]"
  by (auto simp: NewIdleTimer_def timer_inv_def newTicker_ok [unfolded factor_def] Let_def
      factor_def pos_imp_zdiv_pos_iff)

text \<open>A timer whose ticker was dropped keeps it dropped until a different duration is set.\<close>

definition quiet :: "int \<Rightarrow> 'c idleEvent \<Rightarrow> bool" where
  "quiet d e = (case e of EvSetIdleTimeout d' \<Rightarrow> d' = d | _ \<Rightarrow> True)"

lemma idleRun_quiet:
  "heartbeat t = None \<Longrightarrow> idleDur t = d \<Longrightarrow> 0 < d \<Longrightarrow> timeOutRaised t = [] \<Longrightarrow> list_all (quiet d) es \<Longrightarrow>
     \<exists>t'. idleRun t es = Ok t' \<and> heartbeat t' = None \<and> timeOutRaised t' = []"
proof (induction es arbitrary: t)
  case (Cons e es)
  show ?case
  proof (cases "enabled t e")
    case True
    have "\<exists>t' o'. idleStep t e = Ok (t', o') \<and> heartbeat t' = None \<and> idleDur t' = d \<and> timeOutRaised t' = []"
      using Cons.prems True
      by (cases e) (auto simp: quiet_def enabled_def onSetIdleTimeout_def timerStop_def
          BeginAttempt_def AttemptOK_def Let_def)
    then obtain t' o' where "idleStep t e = Ok (t', o')" "heartbeat t' = None" "idleDur t' = d" "timeOutRaised t' = []"
      by blast
    with Cons.IH [of t'] Cons.prems True show ?thesis by simp
  next
    case False
    with Cons show ?thesis by simp
  qed
qed simp

lemma showNat_nonempty [simp]: "showNat n \<noteq> []"
  by (subst showNat.simps) simp

lemma timeoutMessage_nonempty [simp]: "timeoutMessage d s u \<noteq> []"
  by (simp add: timeoutMessage_def)

section \<open>Properties\<close>

text \<open>The background goroutine never panics: from a new timer with a callback, whatever the
  order of attempts, heartbeats, queries, callback changes and timeout settings, as long as
  every duration set is not positive or at least ten nanoseconds. In particular the branch
  commented "should be impossible" is, and a ticker only runs while a timeout is active.\<close>

theorem idleTimer_never_panics:
  assumes "d \<le> 0 \<or> factor \<le> d" "list_all event_ok es" "NewIdleTimer (Some c) d = Ok t"
  shows "\<exists>t'. idleRun t es = Ok t' \<and> (heartbeat t' \<noteq> None \<longrightarrow> idleDur t' > 0)"
proof -
  from NewIdleTimer_ok [OF assms(1), of c] assms(3) have "timer_inv t" "timeoutCallback t \<noteq> []" by auto
  with idleRun_ok assms(2) show ?thesis by (fastforce simp: timer_inv_def)
qed

theorem idleTimer_never_panics_witness:
  "\<exists>t. NewIdleTimer (Some ()) 1000 = Ok t \<and>
     (\<exists>t'. idleRun t [EvBeginAttempt 5, EvHeartbeat 2000, EvSetIdleTimeout 0, EvHeartbeat 3000] = Ok t' \<and>
       (heartbeat t' \<noteq> None \<longrightarrow> idleDur t' > 0))"
proof -
  obtain t where t: "NewIdleTimer (Some ()) 1000 = Ok t" using NewIdleTimer_ok [of 1000 "()"] by (auto simp: factor_def)
  have "\<exists>t'. idleRun t [EvBeginAttempt 5, EvHeartbeat 2000, EvSetIdleTimeout 0, EvHeartbeat 3000] = Ok t' \<and>
       (heartbeat t' \<noteq> None \<longrightarrow> idleDur t' > 0)"
    by (rule idleTimer_never_panics [OF _ _ t]) (simp_all add: factor_def event_ok_def)
  with t show ?thesis by blast
qed

text \<open>A heartbeat raises a timeout, and starts every registered callback, exactly when a timeout
  is set, an attempt has started since it was set and has not succeeded, and it started more than
  the timeout ago.\<close>

theorem heartbeat_raises_iff:
  assumes "timer_inv t" "heartbeat t \<noteq> None" "timeoutCallback t \<noteq> []"
  shows "\<exists>t' o'. onHeartbeat t now = Ok (t', o') \<and>
     (o' = OutFire (timeoutCallback t) \<longleftrightarrow>
        0 < lastStart t \<and> lastOK t < lastStart t \<and> idleDur t < now - lastStart t) \<and>
     (o' \<noteq> OutNone \<longrightarrow> timeOutRaised t' \<noteq> [] \<and> heartbeat t' = None) \<and> (o' = OutNone \<longrightarrow> t' = t)"
  using assms by (auto simp: onHeartbeat_def IdleStatus_def timer_inv_def Let_def)

theorem heartbeat_raises_iff_witness:
  "\<exists>t' o'. onHeartbeat \<lparr>timeOutRaised = [], lastStart = 5, lastOK = 0, timeoutCallback = [()],
       atomicdur = 100, idleDur = 100, heartbeat = Some 10, isOneshot = False, stopReq = False,
       stopped = False\<rparr> 200 = Ok (t', o') \<and> o' = OutFire [()] \<and> timeOutRaised t' \<noteq> []"
  using heartbeat_raises_iff [of "\<lparr>timeOutRaised = [], lastStart = 5, lastOK = 0, timeoutCallback = [()],
       atomicdur = 100, idleDur = 100, heartbeat = Some 10, isOneshot = False, stopReq = False,
       stopped = False\<rparr>" 200]
  by (auto simp: timer_inv_def factor_def)

text \<open>C24: After a timeout has fired, setting the same duration again clears the raised timeout but
  does not start the ticker: whatever happens next, no later timeout is raised until a different
  duration is set.\<close>

theorem rearm_same_duration_is_dead:
  assumes "heartbeat t = None" "0 < idleDur t" "list_all (quiet (idleDur t)) es"
  shows "\<exists>t1 t2. onSetIdleTimeout t (idleDur t) = Ok t1 \<and> idleRun t1 es = Ok t2 \<and>
     heartbeat t2 = None \<and> timeOutRaised t2 = []"
proof -
  let ?t1 = "t\<lparr>timeOutRaised := [], lastStart := - 1\<rparr>"
  have "onSetIdleTimeout t (idleDur t) = Ok ?t1" using assms by (simp add: onSetIdleTimeout_def Let_def)
  moreover have "\<exists>t2. idleRun ?t1 es = Ok t2 \<and> heartbeat t2 = None \<and> timeOutRaised t2 = []"
    using assms by (intro idleRun_quiet) simp_all
  ultimately show ?thesis by blast
qed

theorem rearm_same_duration_is_dead_witness:
  "\<exists>t1 t2. onSetIdleTimeout \<lparr>timeOutRaised = ''x'', lastStart = 5, lastOK = 0, timeoutCallback = [()],
       atomicdur = 100, idleDur = 100, heartbeat = None, isOneshot = False, stopReq = False,
       stopped = False\<rparr> 100 = Ok t1 \<and>
     idleRun t1 [EvBeginAttempt 300, EvHeartbeat 10000] = Ok t2 \<and> heartbeat t2 = None \<and> timeOutRaised t2 = []"
  using rearm_same_duration_is_dead [of "\<lparr>timeOutRaised = ''x'', lastStart = 5, lastOK = 0, timeoutCallback = [()],
       atomicdur = 100, idleDur = 100, heartbeat = None, isOneshot = False, stopReq = False,
       stopped = False\<rparr>" "[EvBeginAttempt 300, EvHeartbeat 10000]"]
  by (simp add: quiet_def)

text \<open>Activating a positive timeout below ten nanoseconds panics, because the ticker interval is
  the duration divided by ten.\<close>

theorem tiny_timeout_panics:
  assumes "0 < d" "d < factor" "\<not> stopped t" "idleDur t \<noteq> d"
  shows "is_Panic (SetIdleTimeout t d)"
  using assms by (simp add: SetIdleTimeout_def onSetIdleTimeout_def newTicker_def factor_def Let_def)

theorem tiny_timeout_panics_witness:
  "is_Panic (SetIdleTimeout \<lparr>timeOutRaised = [], lastStart = 0, lastOK = 0, timeoutCallback = [()],
     atomicdur = 0, idleDur = 0, heartbeat = None, isOneshot = False, stopReq = False, stopped = False\<rparr> 1)"
  by (rule tiny_timeout_panics) (simp_all add: factor_def)

end
