(* ===== verification/Buffer.thy ===== *)
theory Buffer
  imports IdleTimer
begin

text \<open>
  The byte buffer between the packet reader and the users of a channel (\<open>src/buffer.go\<close>).
  The linked list from \<open>head\<close> to \<open>tail\<close> is the list of its elements' slices, so
  \<open>head\<close> and \<open>tail\<close> are the same element exactly when the list has one entry; an element
  the head has passed is unreachable and not represented. \<open>Read\<close> runs under the lock until
  it returns or reaches \<open>Cond.Wait\<close>; nothing has been copied when it waits, so resuming after
  a signal is the same as attempting the read again on the buffer as it is then. The locale
  \<open>byte_queue\<close> is the contract of a queue of bytes; it is interpreted on the buffer.
\<close>

section \<open>The buffer\<close>

record buffer =
  elements :: "bytes list"
  buf_closed :: bool

definition newBuffer :: buffer where
  "newBuffer = \<lparr>elements = [[]], buf_closed = False\<rparr>"

definition buf_write :: "bytes \<Rightarrow> buffer \<Rightarrow> buffer" where
  "buf_write d b = b\<lparr>elements := elements b @ [d]\<rparr>"

definition buf_eof :: "buffer \<Rightarrow> buffer" where
  "buf_eof b = b\<lparr>buf_closed := True\<rparr>"

text \<open>
  How the loop of \<open>Read\<close> ends: it has filled the slice or drained the buffer, it returns an
  error, or it waits for the producer. \<open>timedOut\<close> is what the \<open>select\<close> receives:
  the timer's text, or nothing when the timer has been asked to stop.
\<close>

datatype readStatus = RdDone | RdErr gerror | RdWait | RdNil

function readLoop :: "string option \<Rightarrow> buffer \<Rightarrow> nat \<Rightarrow> bytes \<Rightarrow> buffer \<times> bytes \<times> readStatus" where
  "readLoop timedOut b len acc =
     (if len = 0 then (b, acc, RdDone)
      else case elements b of
        [] \<Rightarrow> (b, acc, RdNil)
      | h # rest \<Rightarrow>
          if h \<noteq> [] then
            let r = min len (length h) in
            readLoop timedOut (b\<lparr>elements := drop r h # rest\<rparr>) (len - r) (acc @ take r h)
          else if rest \<noteq> [] then readLoop timedOut (b\<lparr>elements := rest\<rparr>) len acc
          else if acc \<noteq> [] then (b, acc, RdDone)
          else if buf_closed b then (b, acc, RdErr IoEOF)
          else (case timedOut of None \<Rightarrow> (b, acc, RdWait)
            | Some s \<Rightarrow> if s \<noteq> [] then (b, acc, RdErr (ErrTimeout s)) else (b, acc, RdWait)))"
  by pat_completeness auto
termination
  by (relation "measure (\<lambda>(to, b, len, acc). length (concat (elements b)) + length (elements b))") auto

declare readLoop.simps [simp del]

text \<open>
  \<open>Read\<close> with its effect on the idle timer: it begins an attempt, and an attempt that
  returns without error is recorded. \<open>now1\<close> and \<open>now2\<close> are the clock readings.
\<close>

definition buf_Read ::
    "'c IdleTimer \<Rightarrow> buffer \<Rightarrow> nat \<Rightarrow> int \<Rightarrow> int \<Rightarrow> 'c IdleTimer \<times> buffer \<times> bytes \<times> readStatus" where
  "buf_Read idle b len now1 now2 =
     (let idle1 = BeginAttempt idle now1;
          (b', data, st) = readLoop (recvTimedOut idle1) b len []
      in (if st = RdDone then AttemptOK idle1 now2 else idle1, b', data, st))"

section \<open>A queue of bytes\<close>

text \<open>\<open>Inl d\<close> writes \<open>d\<close>, \<open>Inr n\<close> reads up to \<open>n\<close> bytes; the result is the queue
  and everything read.\<close>

fun queueRun ::
    "(bytes \<Rightarrow> 'q \<Rightarrow> 'q) \<Rightarrow> (nat \<Rightarrow> 'q \<Rightarrow> 'q \<times> bytes) \<Rightarrow> 'q \<Rightarrow> (bytes + nat) list \<Rightarrow> 'q \<times> bytes" where
  "queueRun wr rd q [] = (q, [])"
| "queueRun wr rd q (Inl d # ops) = queueRun wr rd (wr d q) ops"
| "queueRun wr rd q (Inr n # ops) =
     (let (q1, d) = rd n q; (q2, ds) = queueRun wr rd q1 ops in (q2, d @ ds))"

fun written :: "(bytes + nat) list \<Rightarrow> bytes" where
  "written [] = []"
| "written (Inl d # ops) = d @ written ops"
| "written (Inr n # ops) = written ops"

locale byte_queue =
  fixes qabs :: "'q \<Rightarrow> bytes" and qinv :: "'q \<Rightarrow> bool"
    and wr :: "bytes \<Rightarrow> 'q \<Rightarrow> 'q" and rd :: "nat \<Rightarrow> 'q \<Rightarrow> 'q \<times> bytes"
  assumes inv_wr: "qinv q \<Longrightarrow> qinv (wr d q)"
    and abs_wr: "qinv q \<Longrightarrow> qabs (wr d q) = qabs q @ d"
    and inv_rd: "qinv q \<Longrightarrow> rd n q = (q', d) \<Longrightarrow> qinv q'"
    and abs_rd: "qinv q \<Longrightarrow> rd n q = (q', d) \<Longrightarrow> d = take n (qabs q) \<and> qabs q' = drop n (qabs q)"
begin

lemma run_fifo:
  "qinv q \<Longrightarrow> queueRun wr rd q ops = (q', out) \<Longrightarrow> qinv q' \<and> qabs q @ written ops = out @ qabs q'"
proof (induction ops arbitrary: q out)
  case (Cons op ops)
  show ?case
  proof (cases op)
    case (Inl d)
    with Cons.IH [of "wr d q"] Cons.prems inv_wr abs_wr show ?thesis by simp
  next
    case (Inr n)
    obtain q1 d where rd: "rd n q = (q1, d)" by fastforce
    obtain q2 ds where run: "queueRun wr rd q1 ops = (q2, ds)" by fastforce
    with Cons.prems Inr rd have eq: "q2 = q'" "out = d @ ds" by simp_all
    have "qinv q' \<and> qabs q1 @ written ops = ds @ qabs q'"
      using Cons.IH [OF inv_rd [OF Cons.prems(1) rd] run [unfolded eq(1)]] .
    moreover have "qabs q = d @ qabs q1" using abs_rd [OF Cons.prems(1) rd] by simp
    ultimately show ?thesis using Inr eq by simp
  qed
qed simp

lemma run_prefix:
  assumes "qinv q" "qabs q = []" "queueRun wr rd q ops = (q', out)"
  shows "out = take (length out) (written ops)"
  using run_fifo [OF assms(1,3)] assms(2) by (metis append_Nil append_eq_conv_conj)

end

section \<open>The buffer is a queue of bytes\<close>

definition bufAbs :: "buffer \<Rightarrow> bytes" where
  "bufAbs b = concat (elements b)"

definition bufInv :: "buffer \<Rightarrow> bool" where
  "bufInv b \<longleftrightarrow> elements b \<noteq> []"

lemma bufInv_new [simp]: "bufInv newBuffer" "bufAbs newBuffer = []"
  by (simp_all add: bufInv_def bufAbs_def newBuffer_def)

definition readEnd :: "string option \<Rightarrow> buffer \<Rightarrow> readStatus" where
  "readEnd timedOut b =
     (if buf_closed b then RdErr IoEOF
      else case timedOut of None \<Rightarrow> RdWait | Some s \<Rightarrow> if s \<noteq> [] then RdErr (ErrTimeout s) else RdWait)"

lemma readEnd_elements [simp]: "readEnd to (b\<lparr>elements := es\<rparr>) = readEnd to b"
  by (simp add: readEnd_def)

lemma readLoop_spec:
  "bufInv b \<Longrightarrow> readLoop to b len acc = (b', acc', st) \<Longrightarrow>
     bufInv b' \<and> buf_closed b' = buf_closed b \<and> acc' = acc @ take len (bufAbs b) \<and>
     bufAbs b' = drop len (bufAbs b) \<and>
     st = (if len = 0 \<or> acc' \<noteq> [] then RdDone else readEnd to b)"
proof (induction to b len acc rule: readLoop.induct)
  case (1 to b len acc)
  show ?case
  proof (cases "len = 0")
    case True
    with "1.prems" show ?thesis by (auto simp: readLoop.simps [of to b 0 acc])
  next
    case False
    from "1.prems"(1) obtain h rest where e: "elements b = h # rest"
      by (cases "elements b") (auto simp: bufInv_def)
    show ?thesis
    proof (cases "h = []")
      case True
      show ?thesis
      proof (cases "rest = []")
        case True
        with "1.prems" \<open>h = []\<close> \<open>len \<noteq> 0\<close> e show ?thesis
          by (auto simp: readLoop.simps [of to b len acc] bufAbs_def readEnd_def bufInv_def
              split: if_splits option.splits)
      next
        case rest: False
        with "1.prems" \<open>h = []\<close> \<open>len \<noteq> 0\<close> e
        have "readLoop to (b\<lparr>elements := rest\<rparr>) len acc = (b', acc', st)"
          by (simp add: readLoop.simps [of to b len acc])
        with "1.IH"(2) [OF \<open>len \<noteq> 0\<close> e] rest \<open>h = []\<close> e show ?thesis
          by (auto simp: bufInv_def bufAbs_def)
      qed
    next
      case h: False
      let ?r = "min len (length h)"
      from "1.prems" h \<open>len \<noteq> 0\<close> e
      have "readLoop to (b\<lparr>elements := drop ?r h # rest\<rparr>) (len - ?r) (acc @ take ?r h) = (b', acc', st)"
        by (simp add: readLoop.simps [of to b len acc] Let_def)
      with "1.IH"(1) [OF \<open>len \<noteq> 0\<close> e h refl] h \<open>len \<noteq> 0\<close> e show ?thesis
        by (auto simp: bufInv_def bufAbs_def min_def split: if_splits)
    qed
  qed
qed

definition buf_take :: "nat \<Rightarrow> buffer \<Rightarrow> buffer \<times> bytes" where
  "buf_take n b = (let (b', d, _) = readLoop None b n [] in (b', d))"

interpretation bufq: byte_queue bufAbs bufInv buf_write buf_take
proof
  fix q d assume "bufInv q"
  then show "bufInv (buf_write d q)" "bufAbs (buf_write d q) = bufAbs q @ d"
    by (simp_all add: bufInv_def bufAbs_def buf_write_def)
next
  fix q n q' d assume "bufInv q" "buf_take n q = (q', d)"
  then show "bufInv q'" "d = take n (bufAbs q) \<and> bufAbs q' = drop n (bufAbs q)"
    using readLoop_spec [of q None n "[]"] by (auto simp: buf_take_def split: prod.splits)
qed

section \<open>Properties\<close>

text \<open>C22: The buffer delivers every byte once and in order: after any interleaving of writes and reads
  of any sizes, the bytes read followed by the bytes still buffered are the bytes written.\<close>

theorem buffer_fifo:
  "\<exists>b' out. queueRun buf_write buf_take newBuffer ops = (b', out) \<and> written ops = out @ bufAbs b'"
proof -
  obtain b' out where r: "queueRun buf_write buf_take newBuffer ops = (b', out)" by fastforce
  with bufq.run_fifo [of newBuffer ops b' out] show ?thesis by simp
qed

text \<open>\<open>Read\<close> returns as many bytes as fit and are buffered, and only waits or fails when it
  could not copy any: it reports end of file exactly when the buffer is drained and closed, and a
  timeout exactly when it is drained, still open and the timer has raised one. The attempt counts
  as successful for the timer only when it returns without error.\<close>

theorem buffer_Read_behaviour:
  assumes "bufInv b" "0 < len" "buf_Read idle b len now1 now2 = (idle', b', data, st)"
  shows "data = take len (bufAbs b) \<and> bufAbs b' = drop len (bufAbs b) \<and>
     (st = RdDone \<longleftrightarrow> bufAbs b \<noteq> []) \<and>
     (st = RdErr IoEOF \<longleftrightarrow> bufAbs b = [] \<and> buf_closed b) \<and>
     (st = RdErr (ErrTimeout s) \<longleftrightarrow>
        bufAbs b = [] \<and> \<not> buf_closed b \<and> recvTimedOut idle = Some s \<and> s \<noteq> []) \<and>
     idle' = (if st = RdDone then AttemptOK (BeginAttempt idle now1) now2 else BeginAttempt idle now1)"
proof -
  let ?to = "recvTimedOut (BeginAttempt idle now1)"
  have to: "?to = recvTimedOut idle" by (simp add: recvTimedOut_def BeginAttempt_def)
  obtain b1 d1 s1 where l: "readLoop ?to b len [] = (b1, d1, s1)" by (metis prod_cases3)
  from assms(3) l have eq: "b' = b1" "data = d1" "st = s1"
    "idle' = (if s1 = RdDone then AttemptOK (BeginAttempt idle now1) now2 else BeginAttempt idle now1)"
    by (auto simp: buf_Read_def Let_def)
  from readLoop_spec [OF assms(1) l] assms(2) to eq show ?thesis
    by (auto simp: readEnd_def split: if_splits option.splits)
qed

theorem buffer_Read_behaviour_witness:
  "\<exists>i b d st. buf_Read \<lparr>timeOutRaised = ''t'', lastStart = 0, lastOK = 0, timeoutCallback = [()],
       atomicdur = 0, idleDur = 0, heartbeat = None, isOneshot = False, stopReq = False, stopped = False\<rparr>
       (buf_write [1, 2] newBuffer) 1 5 6 = (i, b, d, st) \<and> d = [1] \<and> bufAbs b = [2] \<and> st = RdDone"
proof -
  let ?i = "\<lparr>timeOutRaised = ''t'', lastStart = 0, lastOK = 0, timeoutCallback = [()],
       atomicdur = 0, idleDur = 0, heartbeat = None, isOneshot = False, stopReq = False, stopped = False\<rparr>"
  let ?b = "buf_write [1, 2] newBuffer"
  have b: "bufInv ?b" "bufAbs ?b = [1, 2]" by (simp_all add: bufInv_def bufAbs_def buf_write_def newBuffer_def)
  obtain i b d st where r: "buf_Read ?i ?b 1 5 6 = (i, b, d, st)" by (metis prod_cases4)
  from buffer_Read_behaviour [OF b(1) _ r] b(2) r show ?thesis by auto
qed

end
