(* ===== verification/Window.thy ===== *)
theory Window
  imports Prelude
begin

text \<open>
  The flow-control window of a channel (\<open>src/common.go\<close>, lines 310 to 408). A goroutine in
  \<open>reserve\<close> holds the lock except while it waits, so \<open>reserve\<close> is split at
  \<open>Cond.Wait\<close>: \<open>reserveStart\<close> runs up to the first wait or the return, and
  \<open>reserveWake\<close> from a wake-up to the next wait or the return. The step relation
  \<open>winStep\<close> interleaves any number of writers with window updates and the closing of the
  window.
\<close>

record window =
  win :: u32
  writeWaiters :: int
  win_closed :: bool

definition window_add :: "u32 \<Rightarrow> window \<Rightarrow> bool \<times> window" where
  "window_add n w =
     (if n = 0 then (True, w)
      else if win w + n < n then (False, w)
      else (True, w\<lparr>win := win w + n\<rparr>))"

definition window_close :: "window \<Rightarrow> window" where
  "window_close w = w\<lparr>win_closed := True\<rparr>"

text \<open>What the \<open>select\<close> of \<open>reserveShouldReturn\<close> receives.\<close>

datatype selResult = SelTimedOut string | SelHalt

fun reserveShouldReturn :: "selResult \<Rightarrow> bool \<times> gerror option" where
  "reserveShouldReturn (SelTimedOut s) =
     (if s \<noteq> [] then (True, Some (ErrTimeout s)) else (False, None))"
| "reserveShouldReturn SelHalt = (True, Some IoEOF)"

datatype reserveState = Waiting u32 | Reserved u32 "gerror option"

definition reserveFinish :: "u32 \<Rightarrow> window \<Rightarrow> window \<times> reserveState" where
  "reserveFinish n w =
     (let n' = (if win w < n then win w else n) in
      (w\<lparr>writeWaiters := writeWaiters w - 1, win := win w - n'\<rparr>,
       Reserved n' (if win_closed w then Some IoEOF else None)))"

definition reserveCheck :: "u32 \<Rightarrow> window \<Rightarrow> window \<times> reserveState" where
  "reserveCheck n w =
     (if win w = 0 \<and> \<not> win_closed w then (w, Waiting n) else reserveFinish n w)"

definition reserveStart :: "selResult \<Rightarrow> u32 \<Rightarrow> window \<Rightarrow> window \<times> reserveState" where
  "reserveStart sel n w =
     (case reserveShouldReturn sel of
        (True, err) \<Rightarrow> (w, Reserved 0 err)
      | (False, _) \<Rightarrow> reserveCheck n (w\<lparr>writeWaiters := writeWaiters w + 1\<rparr>))"

definition reserveWake :: "selResult \<Rightarrow> u32 \<Rightarrow> window \<Rightarrow> window \<times> reserveState" where
  "reserveWake sel n w =
     (case reserveShouldReturn sel of
        (True, err) \<Rightarrow> (w, Reserved 0 err)
      | (False, _) \<Rightarrow> reserveCheck n w)"

text \<open>\<open>waitWriterBlocked\<close> returns when this holds.\<close>

definition writerBlocked :: "window \<Rightarrow> bool" where
  "writerBlocked w \<longleftrightarrow> writeWaiters w \<noteq> 0"

section \<open>Interleaved writers\<close>

text \<open>
  \<open>waiting i\<close> is the request of writer \<open>i\<close> while it waits. \<open>added\<close> and
  \<open>granted\<close> count the bytes accepted by \<open>add\<close> and returned by \<open>reserve\<close>.
\<close>

record winSys =
  wnd :: window
  waiting :: "nat \<Rightarrow> u32 option"
  added :: nat
  granted :: nat

definition winInit :: winSys where
  "winInit = \<lparr>wnd = \<lparr>win = 0, writeWaiters = 0, win_closed = False\<rparr>, waiting = (\<lambda>_. None),
     added = 0, granted = 0\<rparr>"

definition settle :: "nat \<Rightarrow> window \<times> reserveState \<Rightarrow> winSys \<Rightarrow> winSys" where
  "settle i r s =
     (case r of (w, Waiting n) \<Rightarrow> s\<lparr>wnd := w, waiting := (waiting s)(i \<mapsto> n)\<rparr>
      | (w, Reserved n err) \<Rightarrow>
          s\<lparr>wnd := w, waiting := (waiting s)(i := None), granted := granted s + unat n\<rparr>)"

inductive winStep :: "winSys \<Rightarrow> winSys \<Rightarrow> bool" where
  add_ok: "window_add n (wnd s) = (True, w) \<Longrightarrow>
     winStep s (s\<lparr>wnd := w, added := added s + unat n\<rparr>)"
| add_fail: "window_add n (wnd s) = (False, w) \<Longrightarrow> winStep s (s\<lparr>wnd := w\<rparr>)"
| close: "winStep s (s\<lparr>wnd := window_close (wnd s)\<rparr>)"
| start: "waiting s i = None \<Longrightarrow> winStep s (settle i (reserveStart sel n (wnd s)) s)"
| wake: "waiting s i = Some n \<Longrightarrow> winStep s (settle i (reserveWake sel n (wnd s)) s)"

inductive winReachable :: "winSys \<Rightarrow> bool" where
  init: "winReachable winInit"
| step: "winReachable s \<Longrightarrow> winStep s t \<Longrightarrow> winReachable t"

section \<open>Lemmas\<close>

lemma window_add_ok:
  assumes "window_add n w = (True, w')"
  shows "unat (win w') = unat (win w) + unat n \<and> win_closed w' = win_closed w \<and>
    writeWaiters w' = writeWaiters w"
proof (cases "n = 0")
  case True
  with assms show ?thesis by (simp add: window_add_def)
next
  case False
  with assms have w': "w' = w\<lparr>win := win w + n\<rparr>" and "\<not> win w + n < n"
    by (auto simp: window_add_def split: if_splits)
  then have "n \<le> n + win w" by (simp only: add.commute [of n] not_less)
  then have "unat (n + win w) = unat n + unat (win w)" by (rule unat_plus_simple [THEN iffD1])
  then have "unat (win w + n) = unat (win w) + unat n" by (simp only: add.commute [of "win w"] add.commute [of "unat (win w)"])
  then show ?thesis using w' by simp
qed

lemma window_add_iff: "fst (window_add n w) \<longleftrightarrow> unat (win w) + unat n < 2 ^ 32"
proof (cases "n = 0")
  case True
  then show ?thesis using unat_u32_less [of "win w"] by (simp add: window_add_def)
next
  case False
  then have "fst (window_add n w) \<longleftrightarrow> n \<le> n + win w"
    unfolding add.commute [of n "win w"] by (auto simp: window_add_def)
  also have "\<dots> \<longleftrightarrow> unat n + unat (win w) < 2 ^ LENGTH(32)" by (rule no_olen_add_nat)
  finally show ?thesis by (simp only: add.commute [of "unat n"] len_num1 len_bit0 len_bit1) simp
qed

lemma reserveCheck_conserves:
  "reserveCheck n w = (w', r) \<Longrightarrow>
     unat (win w') + (case r of Waiting _ \<Rightarrow> 0 | Reserved m _ \<Rightarrow> unat m) = unat (win w)"
  by (auto simp: reserveCheck_def reserveFinish_def Let_def word_less_nat_alt unat_sub word_le_nat_alt
      split: if_splits)

lemma reserve_conserves:
  "reserveStart sel n w = (w', r) \<Longrightarrow>
     unat (win w') + (case r of Waiting _ \<Rightarrow> 0 | Reserved m _ \<Rightarrow> unat m) = unat (win w)"
  "reserveWake sel n w = (w', r) \<Longrightarrow>
     unat (win w') + (case r of Waiting _ \<Rightarrow> 0 | Reserved m _ \<Rightarrow> unat m) = unat (win w)"
  by (auto simp: reserveStart_def reserveWake_def dest: reserveCheck_conserves split: prod.splits bool.splits)

definition win_inv :: "winSys \<Rightarrow> bool" where
  "win_inv s \<longleftrightarrow> granted s + unat (win (wnd s)) = added s"

lemma settle_inv:
  assumes "win_inv s" "unat (win w) + (case r of Waiting _ \<Rightarrow> 0 | Reserved m _ \<Rightarrow> unat m) = unat (win (wnd s))"
  shows "win_inv (settle i (w, r) s)"
  using assms by (cases r) (auto simp: win_inv_def settle_def)

lemma winStep_inv: "winStep s t \<Longrightarrow> win_inv s \<Longrightarrow> win_inv t"
proof (induction rule: winStep.induct)
  case (add_ok n s w)
  with window_add_ok [OF add_ok(1)] show ?case by (simp add: win_inv_def)
next
  case (add_fail n s w)
  then show ?case by (auto simp: win_inv_def window_add_def split: if_splits)
next
  case (close s)
  then show ?case by (simp add: win_inv_def window_close_def)
next
  case (start s i sel n)
  then show ?case using reserve_conserves(1) [of sel n "wnd s"]
    by (cases "reserveStart sel n (wnd s)") (auto intro: settle_inv)
next
  case (wake s i n sel)
  then show ?case using reserve_conserves(2) [of sel n "wnd s"]
    by (cases "reserveWake sel n (wnd s)") (auto intro: settle_inv)
qed

lemma winReachable_inv: "winReachable s \<Longrightarrow> win_inv s"
proof (induction rule: winReachable.induct)
  case init
  show ?case by (simp add: win_inv_def winInit_def)
next
  case (step s t)
  then show ?case by (blast intro: winStep_inv)
qed

section \<open>Properties\<close>

text \<open>C21: Under any interleaving of writers, window updates and closing, the bytes granted to writers
  plus the window that is left are the bytes the peer added: writers never send more than the
  peer allowed.\<close>

theorem window_conservation:
  "winReachable s \<Longrightarrow> granted s + unat (win (wnd s)) = added s"
  using winReachable_inv by (simp add: win_inv_def)

theorem window_conservation_witness:
  "\<exists>s. winReachable s \<and> granted s = 3 \<and> win (wnd s) = 2 \<and> granted s + unat (win (wnd s)) = added s"
proof -
  let ?s1 = "winInit\<lparr>wnd := \<lparr>win = 5, writeWaiters = 0, win_closed = False\<rparr>, added := added winInit + unat (5 :: u32)\<rparr>"
  have r1: "winReachable ?s1"
    by (rule winReachable.step [OF winReachable.init], rule winStep.add_ok)
      (simp add: window_add_def winInit_def)
  let ?s2 = "settle 0 (reserveStart (SelTimedOut []) 3 (wnd ?s1)) ?s1"
  have r2: "winReachable ?s2"
    by (rule winReachable.step [OF r1], rule winStep.start) (simp add: winInit_def)
  have e: "?s2 = winInit\<lparr>wnd := \<lparr>win = 2, writeWaiters = 0, win_closed = False\<rparr>, added := 5, granted := 3\<rparr>"
    by (simp add: settle_def reserveStart_def reserveCheck_def reserveFinish_def winInit_def Let_def)
  from r2 have r: "winReachable (winInit\<lparr>wnd := \<lparr>win = 2, writeWaiters = 0, win_closed = False\<rparr>,
      added := 5, granted := 3\<rparr>)" by (simp only: e)
  show ?thesis by (rule exI, rule conjI, rule r, use window_conservation [OF r] in simp)
qed

text \<open>A window update is refused exactly when the window would exceed \<open>2 ^ 32 - 1\<close>, and an
  accepted one never wraps around.\<close>

theorem window_add_no_overflow:
  "window_add n w =
     (if unat (win w) + unat n < 2 ^ 32 then (True, w\<lparr>win := word_of_nat (unat (win w) + unat n)\<rparr>)
      else (False, w))"
proof (cases "unat (win w) + unat n < 2 ^ 32")
  case True
  then have "fst (window_add n w)" by (simp only: window_add_iff)
  with True show ?thesis by (auto simp: window_add_def split: if_splits)
next
  case False
  then have "\<not> fst (window_add n w)" by (simp only: window_add_iff not_False_eq_True)
  with False show ?thesis by (auto simp: window_add_def split: if_splits)
qed

text \<open>A writer that gets past the wait takes the smaller of what it asked for and what is left; it
  waits exactly when nothing is left and the window is open, so a request of at least one byte on an
  open window is never answered with zero bytes and no error.\<close>

theorem reserve_grant:
  "reserveCheck n w =
     (if win w = 0 \<and> \<not> win_closed w then (w, Waiting n)
      else (w\<lparr>writeWaiters := writeWaiters w - 1, win := win w - min (win w) n\<rparr>,
            Reserved (min (win w) n) (if win_closed w then Some IoEOF else None))) \<and>
   (0 < n \<longrightarrow> reserveCheck n w = (w', Reserved m None) \<longrightarrow> 0 < m)"
  by (auto simp: reserveCheck_def reserveFinish_def min_def Let_def word_neq_0_conv split: if_splits)

theorem reserve_grant_witness:
  "reserveCheck 10 \<lparr>win = 4, writeWaiters = 1, win_closed = False\<rparr> =
     (\<lparr>win = 0, writeWaiters = 0, win_closed = False\<rparr>, Reserved 4 None) \<and> (0 :: u32) < 4"
proof -
  have "reserveCheck 10 \<lparr>win = 4, writeWaiters = 1, win_closed = False\<rparr> =
     (\<lparr>win = 0, writeWaiters = 0, win_closed = False\<rparr>, Reserved 4 None)"
    by (simp add: reserveCheck_def reserveFinish_def)
  with reserve_grant [of 10 "\<lparr>win = 4, writeWaiters = 1, win_closed = False\<rparr>"] show ?thesis by auto
qed

end
