(* ===== verification/Halter.thy ===== *)
theory Halter
  imports Prelude
begin

text \<open>
  Life-cycle management of goroutines (\<open>src/halter.go\<close>). Halters are shared and linked, so
  they live in a store indexed by their address. \<open>RequestStop\<close> recurses while it holds the
  halter's mutex: the addresses whose mutex the goroutine holds are an argument, and locking one of
  them again blocks forever, which is the value \<open>None\<close>, as is running out of fuel. A
  \<open>for range\<close> over the map \<open>downstream\<close> runs in an arbitrary order: the map is the list of
  its keys in that order.
\<close>

section \<open>Channels that are closed once\<close>

record IdemCloseChan =
  chan_closed :: bool
  idem_closed :: bool

definition NewIdemCloseChan :: IdemCloseChan where
  "NewIdemCloseChan = \<lparr>chan_closed = False, idem_closed = False\<rparr>"

definition Reinit :: "IdemCloseChan \<Rightarrow> IdemCloseChan" where
  "Reinit c = c\<lparr>chan_closed := False, idem_closed := False\<rparr>"

definition ErrAlreadyClosed :: gerror where
  "ErrAlreadyClosed = ErrNew ''Chan already closed''"

text \<open>Closing a closed Go channel panics.\<close>

definition idemClose :: "IdemCloseChan \<Rightarrow> (IdemCloseChan \<times> gerror option) res" where
  "idemClose c =
     (if \<not> idem_closed c then
        if chan_closed c then Panic ''close of closed channel'' else Ok (c\<lparr>chan_closed := True, idem_closed := True\<rparr>, None)
      else Ok (c, Some ErrAlreadyClosed))"

definition IsClosed :: "IdemCloseChan \<Rightarrow> bool" where
  "IsClosed c = idem_closed c"

fun idemOps :: "bool list \<Rightarrow> IdemCloseChan \<Rightarrow> IdemCloseChan res" where
  "idemOps [] c = Ok c"
| "idemOps (True # ops) c = res_bind (idemClose c) (\<lambda>(c', _). idemOps ops c')"
| "idemOps (False # ops) c = idemOps ops (Reinit c)"

definition idem_inv :: "IdemCloseChan \<Rightarrow> bool" where
  "idem_inv c \<longleftrightarrow> chan_closed c = idem_closed c"

section \<open>Halters\<close>

record Halter =
  ready :: bool
  isDone :: bool
  reqStop :: bool
  halt_err :: "gerror option"
  upstream :: "nat list"
  downstream :: "nat list"

type_synonym halters = "nat \<Rightarrow> Halter"

definition NewHalter :: Halter where
  "NewHalter = \<lparr>ready = False, isDone = False, reqStop = False, halt_err = None,
     upstream = [], downstream = []\<rparr>"

definition insertKey :: "nat \<Rightarrow> nat list \<Rightarrow> nat list" where
  "insertKey k ks = (if k \<in> set ks then ks else ks @ [k])"

definition SetErr :: "gerror option \<Rightarrow> nat \<Rightarrow> halters \<Rightarrow> halters" where
  "SetErr e h st = st(h := (st h)\<lparr>halt_err := e\<rparr>)"

definition addUpstream :: "nat \<Rightarrow> nat \<Rightarrow> halters \<Rightarrow> halters" where
  "addUpstream h u st = st(h := (st h)\<lparr>upstream := insertKey u (upstream (st h))\<rparr>)"

definition removeUpstream :: "nat \<Rightarrow> nat \<Rightarrow> halters \<Rightarrow> halters" where
  "removeUpstream h u st = st(h := (st h)\<lparr>upstream := removeAll u (upstream (st h))\<rparr>)"

definition AddDownstream :: "nat \<Rightarrow> nat \<Rightarrow> halters \<Rightarrow> halters" where
  "AddDownstream h d st =
     addUpstream d h (st(h := (st h)\<lparr>downstream := insertKey d (downstream (st h))\<rparr>))"

definition RemoveDownstream :: "nat \<Rightarrow> nat \<Rightarrow> halters \<Rightarrow> halters" where
  "RemoveDownstream h d st =
     removeUpstream d h (st(h := (st h)\<lparr>downstream := removeAll d (downstream (st h))\<rparr>))"

record RunStatus =
  rs_Ready :: bool
  rs_StopRequested :: bool
  rs_Done :: bool
  rs_Err :: "gerror option"

definition Status :: "Halter \<Rightarrow> RunStatus" where
  "Status h = \<lparr>rs_Ready = ready h, rs_StopRequested = reqStop h, rs_Done = isDone h,
     rs_Err = (if isDone h then halt_err h else None)\<rparr>"

definition closeReqStop :: "nat \<Rightarrow> halters \<Rightarrow> halters" where
  "closeReqStop h st = st(h := (st h)\<lparr>reqStop := True\<rparr>)"

definition closeDone :: "nat \<Rightarrow> halters \<Rightarrow> halters" where
  "closeDone h st = st(h := (st h)\<lparr>isDone := True\<rparr>)"

fun stopAll :: "(nat \<Rightarrow> halters \<Rightarrow> halters option) \<Rightarrow> nat list \<Rightarrow> halters \<Rightarrow> halters option" where
  "stopAll f [] st = Some st"
| "stopAll f (d # ds) st = (case f d st of None \<Rightarrow> None | Some st' \<Rightarrow> stopAll f ds st')"

fun RequestStop :: "nat \<Rightarrow> nat list \<Rightarrow> nat \<Rightarrow> halters \<Rightarrow> halters option" where
  "RequestStop 0 held h st = None"
| "RequestStop (Suc fuel) held h st =
     (let st1 = closeReqStop h st in
      if h \<in> set held then None
      else stopAll (RequestStop fuel (h # held)) (downstream (st1 h)) st1)"

fun waitForDownstreamDone :: "nat \<Rightarrow> nat list \<Rightarrow> halters \<Rightarrow> halters option" where
  "waitForDownstreamDone h [] st = Some st"
| "waitForDownstreamDone h (d # ds) st =
     (if isDone (st d) then waitForDownstreamDone h ds (removeUpstream d h st) else None)"

definition MarkReady :: "nat \<Rightarrow> halters \<Rightarrow> halters" where
  "MarkReady h st = st(h := (st h)\<lparr>ready := True\<rparr>)"

text \<open>\<open>None\<close>: it blocks, because a mutex is held or a downstream halter is not done.\<close>

definition MarkDone :: "nat \<Rightarrow> nat \<Rightarrow> halters \<Rightarrow> halters option" where
  "MarkDone fuel h st =
     (case RequestStop fuel [] h st of
        None \<Rightarrow> None
      | Some st1 \<Rightarrow>
          (case waitForDownstreamDone h (downstream (st1 h)) st1 of
             None \<Rightarrow> None
           | Some st2 \<Rightarrow> Some (closeDone h st2)))"

definition MarkDoneNoBlock :: "nat \<Rightarrow> nat \<Rightarrow> halters \<Rightarrow> halters option" where
  "MarkDoneNoBlock fuel h st = map_option (closeDone h) (RequestStop fuel [] h st)"

section \<open>The link between a context and a halter\<close>

text \<open>
  The goroutine of \<open>MAD\<close>. A channel set to \<open>nil\<close> is never ready. \<open>cancels\<close> counts the
  calls of \<open>cancelctx\<close>, which cancels the context.
\<close>

datatype madCase = CaseCtx | CaseReqStop | CaseDone

record madState =
  cchan :: bool
  hchan1 :: bool
  hchan2 :: bool
  cancelctx :: bool
  cDone :: bool
  hDone :: bool
  ctx_done :: bool
  mad_halt :: Halter
  cancels :: nat

definition madInit :: "bool \<Rightarrow> Halter \<Rightarrow> bool \<Rightarrow> madState" where
  "madInit cancel h ctx = \<lparr>cchan = True, hchan1 = True, hchan2 = True, cancelctx = cancel,
     cDone = False, hDone = False, ctx_done = ctx, mad_halt = h, cancels = 0\<rparr>"

definition madReady :: "madCase \<Rightarrow> madState \<Rightarrow> bool" where
  "madReady c s = (case c of CaseCtx \<Rightarrow> cchan s \<and> ctx_done s
     | CaseReqStop \<Rightarrow> hchan1 s \<and> reqStop (mad_halt s)
     | CaseDone \<Rightarrow> hchan2 s \<and> isDone (mad_halt s))"

definition madHalted :: "madState \<Rightarrow> madState" where
  "madHalted s = s\<lparr>hDone := True,
     ctx_done := ctx_done s \<or> cancelctx s,
     cancels := cancels s + (if cancelctx s then 1 else 0),
     cancelctx := False, hchan1 := False, hchan2 := False\<rparr>"

definition madTake :: "madCase \<Rightarrow> madState \<Rightarrow> madState" where
  "madTake c s = (case c of
       CaseCtx \<Rightarrow> s\<lparr>mad_halt := (mad_halt s)\<lparr>reqStop := True, isDone := True\<rparr>, cDone := True, cchan := False\<rparr>
     | CaseReqStop \<Rightarrow> madHalted s
     | CaseDone \<Rightarrow> madHalted s)"

definition madReturned :: "madState \<Rightarrow> bool" where
  "madReturned s \<longleftrightarrow> cDone s \<and> hDone s"

inductive madStep :: "madState \<Rightarrow> madState \<Rightarrow> bool" where
  select: "\<not> madReturned s \<Longrightarrow> madReady c s \<Longrightarrow> madStep s (madTake c s)"
| env_ctx: "madStep s (s\<lparr>ctx_done := True\<rparr>)"
| env_stop: "madStep s (s\<lparr>mad_halt := (mad_halt s)\<lparr>reqStop := True\<rparr>\<rparr>)"
| env_done: "madStep s (s\<lparr>mad_halt := (mad_halt s)\<lparr>isDone := True\<rparr>\<rparr>)"

section \<open>Lemmas\<close>

lemma idem_inv_new [simp]: "idem_inv NewIdemCloseChan"
  by (simp add: idem_inv_def NewIdemCloseChan_def)

lemma idemOps_ok: "idem_inv c \<Longrightarrow> \<exists>c'. idemOps ops c = Ok c' \<and> idem_inv c'"
proof (induction ops c rule: idemOps.induct)
  case (2 ops c)
  then obtain c1 e where "idemClose c = Ok (c1, e)" "idem_inv c1"
    by (auto simp: idemClose_def idem_inv_def)
  with 2 show ?case by auto
qed (auto simp: Reinit_def idem_inv_def)

definition edges :: "halters \<Rightarrow> (nat \<times> nat) set" where
  "edges st = {(h, d). d \<in> set (downstream (st h))}"

text \<open>Everything but the stop flags is the same.\<close>

definition sameLinks :: "halters \<Rightarrow> halters \<Rightarrow> bool" where
  "sameLinks st st' \<longleftrightarrow> (\<forall>k. (st' k)\<lparr>reqStop := False\<rparr> = (st k)\<lparr>reqStop := False\<rparr>)"

definition stopsExactly :: "nat set \<Rightarrow> halters \<Rightarrow> halters \<Rightarrow> bool" where
  "stopsExactly S st st' \<longleftrightarrow> sameLinks st st' \<and> (\<forall>k. reqStop (st' k) \<longleftrightarrow> reqStop (st k) \<or> k \<in> S)"

lemma reqStop_update_eqD:
  "h'\<lparr>reqStop := False\<rparr> = h\<lparr>reqStop := False\<rparr> \<Longrightarrow> downstream h' = downstream h \<and> isDone h' = isDone h"
  by (cases h', cases h) simp

lemma sameLinks_downstream: "sameLinks st st' \<Longrightarrow> downstream (st' k) = downstream (st k)"
  unfolding sameLinks_def using reqStop_update_eqD by blast

lemma sameLinks_isDone: "sameLinks st st' \<Longrightarrow> isDone (st' k) = isDone (st k)"
  unfolding sameLinks_def using reqStop_update_eqD by blast

lemma sameLinks_edges: "sameLinks st st' \<Longrightarrow> edges st' = edges st"
  by (auto simp: edges_def sameLinks_downstream)

lemma stopsExactly_trans:
  "stopsExactly S st st1 \<Longrightarrow> stopsExactly T st1 st2 \<Longrightarrow> stopsExactly (S \<union> T) st st2"
  by (auto simp: stopsExactly_def sameLinks_def)

lemma stopAll_exact:
  assumes "\<And>d st'. d \<in> set ds \<Longrightarrow> sameLinks st st' \<Longrightarrow> \<exists>st''. f d st' = Some st'' \<and> stopsExactly (S d) st' st''"
  shows "\<exists>st'. stopAll f ds st = Some st' \<and> stopsExactly (\<Union>d\<in>set ds. S d) st st'"
  using assms
proof (induction ds arbitrary: st)
  case Nil
  then show ?case by (simp add: stopsExactly_def sameLinks_def)
next
  case (Cons d ds)
  from Cons.prems [of d st] obtain st1 where 1: "f d st = Some st1" "stopsExactly (S d) st st1"
    by (auto simp: sameLinks_def)
  then have "\<exists>st'. stopAll f ds st1 = Some st' \<and> stopsExactly (\<Union>d\<in>set ds. S d) st1 st'"
    by (intro Cons.IH Cons.prems) (auto simp: stopsExactly_def sameLinks_def)
  with 1 show ?case by (auto dest: stopsExactly_trans)
qed

lemma closeReqStop_exact: "stopsExactly {h} st (closeReqStop h st)"
  by (auto simp: stopsExactly_def sameLinks_def closeReqStop_def)

definition acyclic_rank :: "(nat \<Rightarrow> nat) \<Rightarrow> halters \<Rightarrow> bool" where
  "acyclic_rank rank st \<longleftrightarrow> (\<forall>(h, d) \<in> edges st. rank d < rank h)"

lemma reach_unfold: "R\<^sup>* `` {h} = {h} \<union> (\<Union>d\<in>{d. (h, d) \<in> R}. R\<^sup>* `` {d})"
proof (rule set_eqI, rule iffI)
  fix k
  assume "k \<in> R\<^sup>* `` {h}"
  then have "(h, k) \<in> R\<^sup>*" by simp
  then show "k \<in> {h} \<union> (\<Union>d\<in>{d. (h, d) \<in> R}. R\<^sup>* `` {d})"
    by (cases rule: converse_rtranclE) auto
next
  fix k
  assume "k \<in> {h} \<union> (\<Union>d\<in>{d. (h, d) \<in> R}. R\<^sup>* `` {d})"
  then show "k \<in> R\<^sup>* `` {h}" by (auto intro: converse_rtrancl_into_rtrancl)
qed

lemma RequestStop_exact:
  "acyclic_rank rank st \<Longrightarrow> rank h < fuel \<Longrightarrow> (\<forall>k\<in>set held. rank h < rank k) \<Longrightarrow>
     \<exists>st'. RequestStop fuel held h st = Some st' \<and> stopsExactly ((edges st)\<^sup>* `` {h}) st st'"
proof (induction fuel arbitrary: held h st)
  case (Suc fuel)
  let ?st1 = "closeReqStop h st"
  have links: "sameLinks st ?st1" using closeReqStop_exact by (simp add: stopsExactly_def)
  have "h \<notin> set held" using Suc.prems(3) by auto
  moreover
  have "\<exists>st'. stopAll (RequestStop fuel (h # held)) (downstream (?st1 h)) ?st1 = Some st' \<and>
      stopsExactly (\<Union>d\<in>set (downstream (?st1 h)). (edges st)\<^sup>* `` {d}) ?st1 st'"
  proof (rule stopAll_exact)
    fix d st'
    assume d: "d \<in> set (downstream (?st1 h))" and l: "sameLinks ?st1 st'"
    have e: "edges st' = edges st" using sameLinks_edges [OF l] sameLinks_edges [OF links] by simp
    have "(h, d) \<in> edges st" using d sameLinks_downstream [OF links] by (simp add: edges_def)
    then have r: "rank d < rank h" using Suc.prems(1) by (auto simp: acyclic_rank_def)
    show "\<exists>st''. RequestStop fuel (h # held) d st' = Some st'' \<and> stopsExactly ((edges st)\<^sup>* `` {d}) st' st''"
    proof -
      have "acyclic_rank rank st'" using Suc.prems(1) e by (simp add: acyclic_rank_def)
      moreover have "rank d < fuel" "\<forall>k\<in>set (h # held). rank d < rank k"
        using Suc.prems(2,3) r by auto
      ultimately show ?thesis using Suc.IH [of st' d "h # held"] e by simp
    qed
  qed
  ultimately obtain st' where st': "RequestStop (Suc fuel) held h st = Some st'"
    "stopsExactly (\<Union>d\<in>set (downstream (?st1 h)). (edges st)\<^sup>* `` {d}) ?st1 st'"
    by (auto simp: Let_def)
  have "{h} \<union> (\<Union>d\<in>set (downstream (?st1 h)). (edges st)\<^sup>* `` {d}) = (edges st)\<^sup>* `` {h}"
    using reach_unfold [of "edges st" h] sameLinks_downstream [OF links]
    by (simp add: edges_def)
  with stopsExactly_trans [OF closeReqStop_exact st'(2)] st'(1) show ?case by auto
qed simp

lemma stopAll_links:
  assumes "\<And>d s s'. f d s = Some s' \<Longrightarrow> sameLinks s s'" "stopAll f ds st = Some st'"
  shows "sameLinks st st'"
  using assms(2)
proof (induction ds arbitrary: st)
  case (Cons d ds)
  then obtain st1 where "f d st = Some st1" "stopAll f ds st1 = Some st'" by (auto split: option.splits)
  with Cons.IH assms(1) show ?case by (fastforce simp: sameLinks_def)
qed (simp add: sameLinks_def)

lemma stopAll_Some:
  assumes "stopAll f ds st = Some st'" "d \<in> set ds" "\<And>d s s'. f d s = Some s' \<Longrightarrow> sameLinks s s'"
  shows "\<exists>s s'. sameLinks st s \<and> f d s = Some s'"
  using assms(1,2)
proof (induction ds arbitrary: st)
  case (Cons e ds)
  then obtain st1 where 1: "f e st = Some st1" "stopAll f ds st1 = Some st'" by (auto split: option.splits)
  show ?case
  proof (cases "d = e")
    case True
    with 1 show ?thesis by (auto simp: sameLinks_def)
  next
    case False
    with Cons.IH [OF 1(2)] Cons.prems assms(3) [OF 1(1)] show ?thesis by (fastforce simp: sameLinks_def)
  qed
qed simp

lemma RequestStop_links: "RequestStop fuel held h st = Some st' \<Longrightarrow> sameLinks st st'"
proof (induction fuel arbitrary: held h st st')
  case (Suc fuel)
  then have "stopAll (RequestStop fuel (h # held)) (downstream (closeReqStop h st h)) (closeReqStop h st) = Some st'"
    by (auto simp: Let_def split: if_splits)
  then have "sameLinks (closeReqStop h st) st'" by (rule stopAll_links [rotated]) (rule Suc.IH)
  with closeReqStop_exact [of h st] show ?case by (simp add: stopsExactly_def sameLinks_def)
qed simp

lemma RequestStop_avoids_held:
  "RequestStop fuel held h st = Some st' \<Longrightarrow> (h, k) \<in> (edges st)\<^sup>* \<Longrightarrow> k \<notin> set held"
proof (induction fuel arbitrary: held h st st')
  case (Suc fuel)
  then have run: "h \<notin> set held"
    "stopAll (RequestStop fuel (h # held)) (downstream (closeReqStop h st h)) (closeReqStop h st) = Some st'"
    by (auto simp: Let_def split: if_splits)
  have links: "sameLinks st (closeReqStop h st)" using closeReqStop_exact by (simp add: stopsExactly_def)
  from Suc.prems(2) show ?case
  proof (cases rule: converse_rtranclE)
    case base
    with run show ?thesis by simp
  next
    case (step d)
    then have "d \<in> set (downstream (closeReqStop h st h))"
      using sameLinks_downstream [OF links] by (simp add: edges_def)
    with stopAll_Some [OF run(2)] RequestStop_links
    obtain s s' where s: "sameLinks (closeReqStop h st) s" "RequestStop fuel (h # held) d s = Some s'" by blast
    have "edges s = edges st" using sameLinks_edges [OF s(1)] sameLinks_edges [OF links] by simp
    with Suc.IH [OF s(2)] step(2) show ?thesis by auto
  qed
qed simp

lemma RequestStop_no_cycle:
  assumes "RequestStop fuel held h st = Some st'"
  shows "(h, h) \<notin> (edges st)\<^sup>+"
proof
  assume "(h, h) \<in> (edges st)\<^sup>+"
  then obtain d where d: "(h, d) \<in> edges st" "(d, h) \<in> (edges st)\<^sup>*" by (meson tranclD)
  from assms obtain f where run:
    "stopAll (RequestStop f (h # held)) (downstream (closeReqStop h st h)) (closeReqStop h st) = Some st'"
    by (cases fuel) (auto simp: Let_def split: if_splits)
  have links: "sameLinks st (closeReqStop h st)" using closeReqStop_exact by (simp add: stopsExactly_def)
  have "d \<in> set (downstream (closeReqStop h st h))"
    using d sameLinks_downstream [OF links] by (simp add: edges_def)
  with stopAll_Some [OF run] RequestStop_links
  obtain s s' where s: "sameLinks (closeReqStop h st) s" "RequestStop f (h # held) d s = Some s'" by blast
  have "edges s = edges st" using sameLinks_edges [OF s(1)] sameLinks_edges [OF links] by simp
  with RequestStop_avoids_held [OF s(2), of h] d(2) show False by simp
qed

lemma waitForDownstreamDone_all:
  "waitForDownstreamDone h ds st = Some st' \<Longrightarrow> \<forall>d\<in>set ds. isDone (st d)"
  by (induction h ds st rule: waitForDownstreamDone.induct)
    (auto simp: removeUpstream_def split: if_splits)

text \<open>What the goroutine of \<open>MAD\<close> keeps.\<close>

definition mad_inv :: "madState \<Rightarrow> bool" where
  "mad_inv s \<longleftrightarrow> cancels s \<le> 1 \<and> (cancelctx s \<longrightarrow> cancels s = 0) \<and> (hDone s \<longrightarrow> \<not> cancelctx s) \<and>
     (cDone s \<longrightarrow> ctx_done s \<and> reqStop (mad_halt s) \<and> isDone (mad_halt s)) \<and>
     (hDone s \<longrightarrow> reqStop (mad_halt s) \<or> isDone (mad_halt s)) \<and>
     (\<not> cDone s \<longrightarrow> cchan s) \<and> (\<not> hDone s \<longrightarrow> hchan1 s \<and> hchan2 s) \<and> (cancels s = 1 \<longrightarrow> ctx_done s)"

lemmas mad_defs = mad_inv_def madTake_def madHalted_def madReady_def madReturned_def

lemma madStep_inv: "madStep s t \<Longrightarrow> mad_inv s \<Longrightarrow> mad_inv t"
proof (induction rule: madStep.induct)
  case (select s c)
  then show ?case by (cases c) (auto simp: mad_defs)
qed (auto simp: mad_inv_def)

lemma mad_reach_inv:
  assumes "madStep\<^sup>*\<^sup>* (madInit cancel h ctx) s"
  shows "mad_inv s"
  using assms
proof (induction rule: rtranclp_induct)
  case base
  show ?case by (simp add: mad_inv_def madInit_def)
next
  case (step s t)
  then show ?case by (blast intro: madStep_inv)
qed

section \<open>Properties\<close>

text \<open>C23: When the downstream links have no cycle, \<open>RequestStop\<close> returns, and it sets the stop flag of
  exactly the halters reachable through downstream links, leaving everything else as it was.\<close>

theorem RequestStop_stops_downstream:
  assumes "acyclic_rank rank st"
  shows "\<exists>st'. RequestStop (Suc (rank h)) [] h st = Some st' \<and>
     (\<forall>k. reqStop (st' k) \<longleftrightarrow> reqStop (st k) \<or> (h, k) \<in> (edges st)\<^sup>*) \<and>
     (\<forall>k. (st' k)\<lparr>reqStop := False\<rparr> = (st k)\<lparr>reqStop := False\<rparr>)"
  using RequestStop_exact [OF assms, of h "Suc (rank h)" "[]"]
  by (auto simp: stopsExactly_def sameLinks_def)

theorem RequestStop_stops_downstream_witness:
  "\<exists>st'. RequestStop 2 [] 1 (AddDownstream 1 0 (\<lambda>_. NewHalter)) = Some st' \<and> reqStop (st' 0)"
proof -
  let ?st = "AddDownstream 1 0 (\<lambda>_. NewHalter)"
  have e: "edges ?st = {(1, 0)}"
    by (auto simp: edges_def AddDownstream_def addUpstream_def NewHalter_def insertKey_def split: if_splits)
  then have "acyclic_rank (\<lambda>k. k) ?st" by (simp add: acyclic_rank_def)
  from RequestStop_stops_downstream [OF this, of 1] e show ?thesis
    by (metis One_nat_def Suc_1 insertI1 r_into_rtrancl)
qed

text \<open>A halter that is downstream of itself blocks forever: \<open>RequestStop\<close> locks the mutex it
  already holds, whatever the number of steps it is given, although the links were made by
  \<open>AddDownstream\<close>.\<close>

theorem RequestStop_cycle_blocks:
  "(h, h) \<in> (edges st)\<^sup>+ \<Longrightarrow> RequestStop fuel held h st = None"
  using RequestStop_no_cycle by (cases "RequestStop fuel held h st") auto

theorem RequestStop_cycle_blocks_witness:
  "RequestStop 100 [] 0 (AddDownstream 1 0 (AddDownstream 0 1 (\<lambda>_. NewHalter))) = None"
proof -
  let ?st = "AddDownstream 1 0 (AddDownstream 0 1 (\<lambda>_. NewHalter))"
  have "(0, 1) \<in> edges ?st" "(1, 0) \<in> edges ?st"
    by (simp_all add: edges_def AddDownstream_def addUpstream_def NewHalter_def insertKey_def)
  then have "(0, 0) \<in> (edges ?st)\<^sup>+" by (rule trancl.trancl_into_trancl [OF trancl.r_into_trancl])
  then show ?thesis by (rule RequestStop_cycle_blocks)
qed

text \<open>\<open>MarkDone\<close> returns only when every direct downstream halter is done, and then the halter
  itself is done.\<close>

theorem MarkDone_waits:
  assumes "MarkDone fuel h st = Some st'"
  shows "(\<forall>d\<in>set (downstream (st h)). isDone (st d)) \<and> isDone (st' h)"
proof -
  obtain st1 st2 where 1: "RequestStop fuel [] h st = Some st1"
    "waitForDownstreamDone h (downstream (st1 h)) st1 = Some st2" "st' = closeDone h st2"
    using assms by (auto simp: MarkDone_def split: option.splits)
  have links: "sameLinks st st1" using RequestStop_links [OF 1(1)] .
  with waitForDownstreamDone_all [OF 1(2)] sameLinks_downstream [OF links] sameLinks_isDone [OF links] 1(3)
  show ?thesis by (simp add: closeDone_def)
qed

theorem MarkDone_waits_witness:
  "\<exists>st'. MarkDone 2 1 (closeDone 0 (AddDownstream 1 0 (\<lambda>_. NewHalter))) = Some st' \<and> isDone (st' 1)"
proof -
  let ?st = "closeDone 0 (AddDownstream 1 0 (\<lambda>_. NewHalter))"
  have "\<exists>st'. MarkDone 2 1 ?st = Some st'"
    by (simp add: numeral_2_eq_2 MarkDone_def AddDownstream_def addUpstream_def NewHalter_def insertKey_def
        closeDone_def closeReqStop_def Let_def)
  then show ?thesis using MarkDone_waits [of 2 1 ?st] by blast
qed

text \<open>The goroutine of \<open>MAD\<close> calls the cancel function at most once, under any interleaving with
  the context and the halter, and when it returns both sides are down: the context is cancelled and
  the halter is stopped and done.\<close>

theorem MAD_mutual:
  assumes "madStep\<^sup>*\<^sup>* (madInit cancel h ctx) s"
  shows "cancels s \<le> 1 \<and>
    (madReturned s \<longrightarrow> ctx_done s \<and> reqStop (mad_halt s) \<and> isDone (mad_halt s))"
  using mad_reach_inv [OF assms] by (auto simp: mad_inv_def madReturned_def)

theorem MAD_mutual_witness:
  "\<exists>s. madStep\<^sup>*\<^sup>* (madInit True NewHalter True) s \<and> madReturned s \<and> cancels s \<le> 1 \<and> isDone (mad_halt s)"
proof -
  let ?s0 = "madInit True NewHalter True"
  let ?s1 = "madTake CaseCtx ?s0"
  let ?s2 = "madTake CaseReqStop ?s1"
  have 1: "madStep ?s0 ?s1" by (rule madStep.select) (simp_all add: madInit_def madReady_def madReturned_def)
  have 2: "madStep ?s1 ?s2"
    by (rule madStep.select) (simp_all add: madInit_def madReady_def madReturned_def madTake_def)
  have r: "madStep\<^sup>*\<^sup>* ?s0 ?s2"
    by (rule rtranclp.rtrancl_into_rtrancl, rule r_into_rtranclp, rule 1, rule 2)
  have "madReturned ?s2" by (simp add: madReturned_def madTake_def madHalted_def)
  with MAD_mutual [OF r] r show ?thesis by blast
qed

end
