(* ===== verification/Channel.thy ===== *)
theory Channel
  imports Messages Buffer Window Halter
begin

text \<open>
  SSH channels (\<open>src/channel.go\<close>). A channel's operations act on the channel and on the
  connection it shares with the other channels of its mux, so an operation maps a pair of both.
  \<open>now\<close> is the monotonic clock during a call. Where the source selects between sending on a Go
  channel and a stop request, the choice is an argument and a communication that is not ready
  blocks. The packets a channel sends are kept in order in \<open>sent\<close>. The packet pool only saves
  allocations and is not represented. The last part puts a sender and a receiver at the two ends of
  a connection and shows that flow control and the byte streams work end to end.
\<close>

section \<open>The connection\<close>

text \<open>
  The contract of \<open>packetConn.writePacket\<close>: a packet is queued for the peer, or the connection
  has failed and the error is returned.
\<close>

record conn =
  sent :: "bytes list"
  conn_err :: "gerror option"

definition connWrite :: "bytes \<Rightarrow> conn \<Rightarrow> conn \<times> gerror option" where
  "connWrite p k = (case conn_err k of Some e \<Rightarrow> (k, Some e) | None \<Rightarrow> (k\<lparr>sent := sent k @ [p]\<rparr>, None))"

section \<open>Channels\<close>

abbreviation (input) minPacketLength :: u32 where "minPacketLength \<equiv> 9"
abbreviation (input) channelMaxPacket :: u32 where "channelMaxPacket \<equiv> 32768"
abbreviation (input) channelWindowSize :: u32 where "channelWindowSize \<equiv> 2097152"
abbreviation (input) chanSize :: nat where "chanSize \<equiv> 16"

datatype channelDirection = ChannelInbound | ChannelOutbound

record Request =
  rq_Type :: string
  rq_WantReply :: bool
  rq_Payload :: bytes

record channel =
  chanType :: string
  extraData :: bytes
  localId :: u32
  remoteId :: u32
  maxIncomingPayload :: u32
  maxRemotePayload :: u32
  decided :: bool
  direction :: channelDirection
  msgs :: "message list"
  msgs_closed :: bool
  requests :: "Request list"
  requests_closed :: bool
  sentEOF :: bool
  remoteWin :: window
  pending :: buffer
  extPending :: buffer
  myWindow :: u32
  sentClose :: bool
  hasClosed :: bool
  idleR :: "unit IdleTimer"
  idleW :: "unit IdleTimer"
  halt :: Halter

type_synonym chanst = "channel \<times> conn"

definition rejectionString :: "u32 \<Rightarrow> string" where
  "rejectionString r =
     (if r = 1 then ''administratively prohibited''
      else if r = 2 then ''connect failed''
      else if r = 3 then ''unknown channel type''
      else if r = 4 then ''resource shortage''
      else ''unknown reason '' @ showNat (unat r))"

definition goMin :: "u32 \<Rightarrow> nat \<Rightarrow> u32" where
  "goMin a b = (if a < word_of_nat b then a else word_of_nat b)"

definition errUndecided :: gerror where
  "errUndecided = ErrNew ''ssh: must Accept or Reject channel''"

definition errDecidedAlready :: gerror where
  "errDecidedAlready = ErrNew ''ssh: can call Accept or Reject only once''"

subsection \<open>Sending\<close>

definition ch_writePacket :: "int \<Rightarrow> bytes \<Rightarrow> chanst \<Rightarrow> (chanst \<times> gerror option) res" where
  "ch_writePacket now packet = (\<lambda>(c, k).
     if sentClose c then Ok ((c, k), Some IoEOF)
     else case packet of
       [] \<Rightarrow> Panic ''index out of range''
     | b # _ \<Rightarrow>
         (case connWrite packet k of
            (k1, None) \<Rightarrow>
              Ok ((c\<lparr>sentClose := (b = msgChannelClose), idleW := AttemptOK (idleW c) now\<rparr>, k1), None)
          | (k1, Some e) \<Rightarrow> Ok ((c\<lparr>sentClose := (b = msgChannelClose)\<rparr>, k1), Some e)))"

definition putUint32 :: "nat \<Rightarrow> u32 \<Rightarrow> bytes \<Rightarrow> bytes res" where
  "putUint32 off v p =
     (if length p < off + 4 then Panic ''slice bounds out of range''
      else Ok (take off p @ be32 v @ drop (off + 4) p))"

definition ch_sendMessage :: "int \<Rightarrow> message \<Rightarrow> chanst \<Rightarrow> (chanst \<times> gerror option) res" where
  "ch_sendMessage now m = (\<lambda>(c, k).
     res_bind (MarshalMsg m) (\<lambda>p.
     res_bind (putUint32 1 (remoteId c) p) (\<lambda>p'. ch_writePacket now p' (c, k))))"

subsection \<open>Writing data\<close>

text \<open>
  How \<open>WriteExtended\<close> stands: it returned a count and an error, it waits for window with the
  data that is left, or it ran out of the iterations it was given.
\<close>

datatype writeStatus = WReturn nat "gerror option" | WWait nat bytes u32 | WFuel

definition headerLength :: "u32 \<Rightarrow> u32" where
  "headerLength extendedCode = (if extendedCode > 0 then 13 else 9)"

definition dataPacket :: "u32 \<Rightarrow> u32 \<Rightarrow> bytes \<Rightarrow> bytes" where
  "dataPacket rid extendedCode todo =
     [if extendedCode > 0 then msgChannelExtendedData else msgChannelData] @ be32 rid @
     (if extendedCode > 0 then be32 extendedCode else []) @ be32 (word_of_nat (length todo)) @ todo"

text \<open>
  One iteration after \<open>reserve\<close> has granted \<open>space\<close> bytes. A header length that wraps
  makes the packet too short for its header.
\<close>

definition writeChunk :: "int \<Rightarrow> u32 \<Rightarrow> u32 \<Rightarrow> bytes \<Rightarrow> chanst \<Rightarrow> (chanst \<times> gerror option) res" where
  "writeChunk now extendedCode space data = (\<lambda>(c, k).
     let c1 = c\<lparr>idleW := AttemptOK (idleW c) now\<rparr>;
         want = headerLength extendedCode + space;
         todo = take (unat space) data
     in if want < space then Panic ''slice bounds out of range''
        else res_bind (ch_writePacket now (dataPacket (remoteId c) extendedCode todo) (c1, k)) (\<lambda>((c2, k2), err).
          case err of
            Some e \<Rightarrow> Ok ((c2, k2), Some e)
          | None \<Rightarrow> Ok ((c2\<lparr>idleW := AttemptOK (idleW c2) now\<rparr>, k2), None)))"

fun writeFrom ::
    "nat \<Rightarrow> int \<Rightarrow> (nat \<Rightarrow> selResult) \<Rightarrow> u32 \<Rightarrow> bytes \<Rightarrow> nat \<Rightarrow> window \<times> reserveState \<Rightarrow> chanst \<Rightarrow>
       (chanst \<times> writeStatus) res" where
  "writeFrom fuel now sel extendedCode data n (w, Waiting space) (c, k) =
     Ok ((c\<lparr>remoteWin := w\<rparr>, k), WWait n data space)"
| "writeFrom fuel now sel extendedCode data n (w, Reserved space (Some e)) (c, k) =
     Ok ((c\<lparr>remoteWin := w\<rparr>, k), WReturn n (Some e))"
| "writeFrom fuel now sel extendedCode data n (w, Reserved space None) (c, k) =
     res_bind (writeChunk now extendedCode space data (c\<lparr>remoteWin := w\<rparr>, k)) (\<lambda>((c1, k1), err).
       case err of
         Some e \<Rightarrow> Ok ((c1, k1), WReturn n (Some e))
       | None \<Rightarrow>
           let n1 = n + unat space; data1 = drop (unat space) data in
           if data1 = [] then Ok ((c1, k1), WReturn n1 None)
           else case fuel of
             0 \<Rightarrow> Ok ((c1, k1), WFuel)
           | Suc f \<Rightarrow> writeFrom f now sel extendedCode data1 n1
               (reserveStart (sel n1) (goMin (maxRemotePayload c1) (length data1)) (remoteWin c1)) (c1, k1))"

definition writeEnd :: "int \<Rightarrow> chanst \<times> writeStatus \<Rightarrow> chanst \<times> writeStatus" where
  "writeEnd now = (\<lambda>((c, k), st).
     case st of
       WReturn n None \<Rightarrow> ((c\<lparr>idleW := AttemptOK (idleW c) now\<rparr>, k), st)
     | _ \<Rightarrow> ((c, k), st))"

definition WriteExtended ::
    "nat \<Rightarrow> int \<Rightarrow> (nat \<Rightarrow> selResult) \<Rightarrow> bytes \<Rightarrow> u32 \<Rightarrow> chanst \<Rightarrow> (chanst \<times> writeStatus) res" where
  "WriteExtended fuel now sel data extendedCode = (\<lambda>(c, k).
     let c1 = c\<lparr>idleW := BeginAttempt (idleW c) now\<rparr> in
     if sentEOF c1 then Ok ((c1, k), WReturn 0 (Some IoEOF))
     else if data = [] then Ok (writeEnd now ((c1, k), WReturn 0 None))
     else res_bind (writeFrom fuel now sel extendedCode data 0
         (reserveStart (sel 0) (goMin (maxRemotePayload c1) (length data)) (remoteWin c1)) (c1, k))
       (\<lambda>r. Ok (writeEnd now r)))"

text \<open>A write that waited goes on when the condition is signalled.\<close>

definition resumeWrite ::
    "nat \<Rightarrow> int \<Rightarrow> (nat \<Rightarrow> selResult) \<Rightarrow> u32 \<Rightarrow> nat \<Rightarrow> bytes \<Rightarrow> u32 \<Rightarrow> chanst \<Rightarrow> (chanst \<times> writeStatus) res" where
  "resumeWrite fuel now sel extendedCode n data space = (\<lambda>(c, k).
     res_bind (writeFrom fuel now sel extendedCode data n (reserveWake (sel n) space (remoteWin c)) (c, k))
       (\<lambda>r. Ok (writeEnd now r)))"

subsection \<open>Receiving data\<close>

definition handleData :: "bytes \<Rightarrow> channel \<Rightarrow> (channel \<times> gerror option) res" where
  "handleData packet c =
     (case packet of
        [] \<Rightarrow> Panic ''index out of range''
      | op # _ \<Rightarrow>
          let isExtendedData = (op = msgChannelExtendedData);
              headerLen = (if isExtendedData then 13 else 9)
          in if length packet < headerLen then Ok (c, Some (parseError op))
             else
               let extended = (if isExtendedData then beUint32 (drop 5 packet) else 0);
                   len = beUint32 (take 4 (drop (headerLen - 4) packet));
                   data = drop headerLen packet
               in if len = 0 then Ok (c, None)
                  else if len > maxIncomingPayload c then
                    Ok (c, Some (ErrNew ''ssh: incoming packet exceeds maximum payload size''))
                  else if len \<noteq> word_of_nat (length data) then
                    Ok (c, Some (ErrNew ''ssh: wrong packet length''))
                  else if myWindow c < len then
                    Ok (c, Some (ErrNew ''ssh: remote side wrote too much''))
                  else
                    let c1 = c\<lparr>myWindow := myWindow c - len\<rparr> in
                    if extended = 1 then Ok (c1\<lparr>extPending := buf_write data (extPending c1)\<rparr>, None)
                    else if extended > 0 then Ok (c1, None)
                    else Ok (c1\<lparr>pending := buf_write data (pending c1)\<rparr>, None))"

definition adjustWindow :: "int \<Rightarrow> u32 \<Rightarrow> chanst \<Rightarrow> (chanst \<times> gerror option) res" where
  "adjustWindow now n = (\<lambda>(c, k).
     ch_sendMessage now (WindowAdjustMsg 0 n) (c\<lparr>myWindow := myWindow c + n\<rparr>, k))"

definition readFinish ::
    "int \<Rightarrow> bytes \<Rightarrow> readStatus \<Rightarrow> chanst \<Rightarrow> (chanst \<times> bytes \<times> readStatus) res" where
  "readFinish now d st = (\<lambda>(c, k).
     let c1 = (if st = RdDone then c\<lparr>idleR := AttemptOK (idleR c) now\<rparr> else c) in
     if d \<noteq> [] then
       res_bind (adjustWindow now (word_of_nat (length d)) (c1, k)) (\<lambda>(ck, err).
         case err of
           None \<Rightarrow> Ok (ck, d, RdDone)
         | Some e \<Rightarrow> if e = IoEOF then Ok (ck, d, RdDone) else Ok (ck, d, RdErr e))
     else Ok ((c1, k), d, st))"

definition ReadExtended ::
    "int \<Rightarrow> nat \<Rightarrow> u32 \<Rightarrow> chanst \<Rightarrow> (chanst \<times> bytes \<times> readStatus) res" where
  "ReadExtended now len extended = (\<lambda>(c, k).
     let i1 = BeginAttempt (idleR c) now in
     if extended = 1 then
       (case buf_Read i1 (extPending c) len now now of
          (i2, b, d, st) \<Rightarrow> readFinish now d st (c\<lparr>idleR := i2, extPending := b\<rparr>, k))
     else if extended = 0 then
       (case buf_Read i1 (pending c) len now now of
          (i2, b, d, st) \<Rightarrow> readFinish now d st (c\<lparr>idleR := i2, pending := b\<rparr>, k))
     else Ok ((c\<lparr>idleR := i1\<rparr>, k), [],
       RdErr (Errorf ''ssh: extended code %d unimplemented'' [unat extended] [])))"

subsection \<open>Handling packets\<close>

definition haltDone :: "Halter \<Rightarrow> Halter" where
  "haltDone h = h\<lparr>reqStop := True, isDone := True\<rparr>"

definition ch_close :: "channel \<Rightarrow> channel res" where
  "ch_close c =
     (if msgs_closed c \<or> requests_closed c then Panic ''close of closed channel''
      else Ok (c\<lparr>pending := buf_eof (pending c), extPending := buf_eof (extPending c),
                 msgs_closed := True, requests_closed := True, sentClose := True,
                 remoteWin := window_close (remoteWin c), halt := haltDone (halt c),
                 idleR := timerStop (idleR c), idleW := timerStop (idleW c)\<rparr>))"

definition responseMessageReceived :: "channel \<Rightarrow> channel \<times> gerror option" where
  "responseMessageReceived c =
     (if direction c = ChannelInbound then
        (c, Some (ErrNew ''ssh: channel response message received on inbound channel''))
      else if decided c then (c, Some (ErrNew ''ssh: duplicate response received for channel''))
      else (c\<lparr>decided := True\<rparr>, None))"

text \<open>
  The \<open>select\<close> of a send on a Go channel with a stop request. \<open>chooseSend\<close> says which of
  the two the runtime takes.
\<close>

datatype selOut = SoSend | SoStop | SoBlock | SoPanic

definition selSend :: "bool \<Rightarrow> bool \<Rightarrow> nat \<Rightarrow> bool \<Rightarrow> selOut" where
  "selSend chooseSend closed queued stop =
     (if chooseSend then
        if closed then SoPanic else if queued < chanSize then SoSend else SoBlock
      else if stop then SoStop else SoBlock)"

datatype hpResult = HpNil | HpErr gerror | HpBlocked

definition deliverMsg :: "bool \<Rightarrow> bool \<Rightarrow> message \<Rightarrow> channel \<Rightarrow> (channel \<times> hpResult) res" where
  "deliverMsg pick muxStop m c =
     (case selSend pick (msgs_closed c) (length (msgs c)) (muxStop \<or> reqStop (halt c)) of
        SoSend \<Rightarrow> Ok (c\<lparr>msgs := msgs c @ [m]\<rparr>, HpNil)
      | SoStop \<Rightarrow> Ok (c, HpErr IoEOF)
      | SoBlock \<Rightarrow> Ok (c, HpBlocked)
      | SoPanic \<Rightarrow> Panic ''send on closed channel'')"

definition deliverRequest :: "bool \<Rightarrow> bool \<Rightarrow> Request \<Rightarrow> channel \<Rightarrow> (channel \<times> hpResult) res" where
  "deliverRequest pick muxStop r c =
     (case selSend pick (requests_closed c) (length (requests c)) (muxStop \<or> reqStop (halt c)) of
        SoSend \<Rightarrow> Ok (c\<lparr>requests := requests c @ [r]\<rparr>, HpNil)
      | SoStop \<Rightarrow> Ok (c, HpErr IoEOF)
      | SoBlock \<Rightarrow> Ok (c, HpBlocked)
      | SoPanic \<Rightarrow> Panic ''send on closed channel'')"

text \<open>The result carries the ids that are removed from the mux's channel list.\<close>

definition handleDecoded ::
    "bool \<Rightarrow> bool \<Rightarrow> message \<Rightarrow> channel \<Rightarrow> (channel \<times> u32 list \<times> hpResult) res" where
  "handleDecoded pick muxStop m c =
     (case m of
        ChannelOpenFailureMsg peersId reason msg lang \<Rightarrow>
          (case responseMessageReceived c of
             (c1, Some e) \<Rightarrow> Ok (c1, [], HpErr e)
           | (c1, None) \<Rightarrow>
               res_bind (deliverMsg pick muxStop m c1) (\<lambda>(c2, r). Ok (c2, [peersId], r)))
      | ChannelOpenConfirmMsg peersId myId window maxPacket rest \<Rightarrow>
          (case responseMessageReceived c of
             (c1, Some e) \<Rightarrow> Ok (c1, [], HpErr e)
           | (c1, None) \<Rightarrow>
               if maxPacket < minPacketLength \<or> maxPacket > 2147483648 then
                 Ok (c1, [], HpErr (Errorf ''ssh: invalid MaxPacketSize %d from peer'' [unat maxPacket] []))
               else
                 let c2 = c1\<lparr>remoteId := myId, maxRemotePayload := maxPacket,
                            remoteWin := snd (window_add window (remoteWin c1))\<rparr>
                 in res_bind (deliverMsg pick muxStop m c2) (\<lambda>(c3, r). Ok (c3, [], r)))
      | WindowAdjustMsg peersId additional \<Rightarrow>
          (case window_add additional (remoteWin c) of
             (True, w) \<Rightarrow> Ok (c\<lparr>remoteWin := w\<rparr>, [], HpNil)
           | (False, w) \<Rightarrow> Ok (c\<lparr>remoteWin := w\<rparr>, [],
               HpErr (Errorf ''ssh: invalid window update for %d bytes'' [unat additional] [])))
      | ChannelRequestMsg peersId request wantReply payload \<Rightarrow>
          res_bind (deliverRequest pick muxStop
              \<lparr>rq_Type = request, rq_WantReply = wantReply, rq_Payload = payload\<rparr> c)
            (\<lambda>(c1, r). Ok (c1, [], r))
      | _ \<Rightarrow> res_bind (deliverMsg pick muxStop m c) (\<lambda>(c1, r). Ok (c1, [], r)))"

definition handlePacket ::
    "int \<Rightarrow> bool \<Rightarrow> bool \<Rightarrow> bytes \<Rightarrow> chanst \<Rightarrow> (chanst \<times> u32 list \<times> hpResult) res" where
  "handlePacket now pick muxStop packet = (\<lambda>(c0, k).
     let c = c0\<lparr>idleR := AttemptOK (idleR c0) now\<rparr> in
     case packet of
       [] \<Rightarrow> Panic ''index out of range''
     | op # _ \<Rightarrow>
         if op = msgChannelData \<or> op = msgChannelExtendedData then
           res_bind (handleData packet c) (\<lambda>(c1, err).
             Ok ((c1, k), [], case err of None \<Rightarrow> HpNil | Some e \<Rightarrow> HpErr e))
         else if op = msgChannelClose then
           res_bind (ch_sendMessage now (ChannelCloseMsg (remoteId c)) (c, k)) (\<lambda>((c1, k1), _).
             res_bind (ch_close c1) (\<lambda>c2. Ok ((c2, k1), [localId c2], HpNil)))
         else if op = msgChannelEOF then
           Ok ((c\<lparr>extPending := buf_eof (extPending c), pending := buf_eof (pending c)\<rparr>, k), [], HpNil)
         else
           (case decode packet of
              Panic s \<Rightarrow> Panic s
            | Err e \<Rightarrow> Ok ((c, k), [], HpErr e)
            | Ok m \<Rightarrow> res_bind (handleDecoded pick muxStop m c) (\<lambda>(c1, rm, r). Ok ((c1, k), rm, r))))"

subsection \<open>The user's operations\<close>

text \<open>The channel \<open>newChannel\<close> builds; its id is assigned by the channel list.\<close>

definition newChannel :: "string \<Rightarrow> channelDirection \<Rightarrow> bytes \<Rightarrow> u32 \<Rightarrow> channel res" where
  "newChannel ct dir extra lid =
     res_bind (NewIdleTimer None 0) (\<lambda>i0.
     res_bind (AddTimeoutCallback i0 (Some ())) (\<lambda>i.
     Ok \<lparr>chanType = ct, extraData = extra, localId = lid, remoteId = 0, maxIncomingPayload = 0,
         maxRemotePayload = 0, decided = False, direction = dir, msgs = [], msgs_closed = False,
         requests = [], requests_closed = False, sentEOF = False,
         remoteWin = \<lparr>win = 0, writeWaiters = 0, win_closed = False\<rparr>,
         pending = newBuffer, extPending = newBuffer, myWindow = channelWindowSize,
         sentClose = False, hasClosed = False, idleR = i, idleW = i, halt = NewHalter\<rparr>))"

definition Accept :: "int \<Rightarrow> chanst \<Rightarrow> (chanst \<times> gerror option) res" where
  "Accept now = (\<lambda>(c, k).
     if decided c then Ok ((c, k), Some errDecidedAlready)
     else
       let c1 = c\<lparr>maxIncomingPayload := channelMaxPacket\<rparr> in
       ch_sendMessage now
         (ChannelOpenConfirmMsg (remoteId c1) (localId c1) (myWindow c1) (maxIncomingPayload c1) [])
         (c1\<lparr>decided := True\<rparr>, k))"

definition stopTimers :: "channel \<Rightarrow> channel" where
  "stopTimers c = c\<lparr>idleR := (idleR c)\<lparr>stopReq := True\<rparr>, idleW := (idleW c)\<lparr>stopReq := True\<rparr>\<rparr>"

definition Reject :: "int \<Rightarrow> u32 \<Rightarrow> string \<Rightarrow> chanst \<Rightarrow> (chanst \<times> gerror option) res" where
  "Reject now reason msg = (\<lambda>(c, k).
     if decided c then Ok ((c, k), Some errDecidedAlready)
     else ch_sendMessage now (ChannelOpenFailureMsg (remoteId c) reason msg ''en'')
            (stopTimers (c\<lparr>decided := True\<rparr>), k))"

definition ch_Read :: "int \<Rightarrow> nat \<Rightarrow> chanst \<Rightarrow> (chanst \<times> bytes \<times> readStatus) res" where
  "ch_Read now len = (\<lambda>(c, k).
     if \<not> decided c then Ok ((c, k), [], RdErr errUndecided) else ReadExtended now len 0 (c, k))"

definition ch_Write ::
    "nat \<Rightarrow> int \<Rightarrow> (nat \<Rightarrow> selResult) \<Rightarrow> bytes \<Rightarrow> chanst \<Rightarrow> (chanst \<times> writeStatus) res" where
  "ch_Write fuel now sel data = (\<lambda>(c, k).
     if \<not> decided c then Ok ((c, k), WReturn 0 (Some errUndecided))
     else WriteExtended fuel now sel data 0 (c, k))"

definition CloseWrite :: "int \<Rightarrow> chanst \<Rightarrow> (chanst \<times> gerror option) res" where
  "CloseWrite now = (\<lambda>(c, k).
     if \<not> decided c then Ok ((c, k), Some errUndecided)
     else ch_sendMessage now (ChannelEOFMsg (remoteId c)) (c\<lparr>sentEOF := True\<rparr>, k))"

definition ch_Close :: "int \<Rightarrow> chanst \<Rightarrow> (chanst \<times> gerror option) res" where
  "ch_Close now = (\<lambda>(c, k).
     if hasClosed c then Ok ((c, k), None)
     else
       let c1 = stopTimers (c\<lparr>hasClosed := True\<rparr>)\<lparr>halt := haltDone (halt c)\<rparr> in
       if \<not> decided c1 then Ok ((c1, k), Some errUndecided)
       else ch_sendMessage now (ChannelCloseMsg (remoteId c1)) (c1, k))"

text \<open>
  \<open>SendRequest\<close>: the request is sent, then the caller that wants a reply takes the next message.
  \<open>None\<close> is a caller that blocks.
\<close>

definition awaitReply :: "bool \<Rightarrow> bool \<Rightarrow> channel \<Rightarrow> channel \<times> (bool \<times> gerror option) option" where
  "awaitReply chooseStop muxStop c =
     (if chooseStop then
        (c, if muxStop \<or> reqStop (halt c) then Some (False, Some IoEOF) else None)
      else case msgs c of
        [] \<Rightarrow> (c, if msgs_closed c then Some (False, Some IoEOF) else None)
      | m # ms \<Rightarrow>
          (c\<lparr>msgs := ms\<rparr>,
           Some (case m of
               ChannelRequestFailureMsg _ \<Rightarrow> (False, None)
             | ChannelRequestSuccessMsg _ \<Rightarrow> (True, None)
             | _ \<Rightarrow> (False, Some (Errorf ''ssh: unexpected response to channel request: %#v'' [] [])))))"

definition ch_SendRequest ::
    "int \<Rightarrow> bool \<Rightarrow> bool \<Rightarrow> string \<Rightarrow> bool \<Rightarrow> bytes \<Rightarrow> chanst \<Rightarrow>
       (chanst \<times> (bool \<times> gerror option) option) res" where
  "ch_SendRequest now chooseStop muxStop name wantReply payload = (\<lambda>(c, k).
     if \<not> decided c then Ok ((c, k), Some (False, Some errUndecided))
     else res_bind (ch_sendMessage now (ChannelRequestMsg (remoteId c) name wantReply payload) (c, k))
       (\<lambda>((c1, k1), err). case err of
            Some e \<Rightarrow> Ok ((c1, k1), Some (False, Some e))
          | None \<Rightarrow>
              if wantReply then (case awaitReply chooseStop muxStop c1 of (c2, r) \<Rightarrow> Ok ((c2, k1), r))
              else Ok ((c1, k1), Some (False, None))))"

definition ch_ackRequest :: "int \<Rightarrow> bool \<Rightarrow> chanst \<Rightarrow> (chanst \<times> gerror option) res" where
  "ch_ackRequest now ok = (\<lambda>(c, k).
     if \<not> decided c then Ok ((c, k), Some errUndecided)
     else ch_sendMessage now
       (if ok then ChannelRequestSuccessMsg (remoteId c) else ChannelRequestFailureMsg (remoteId c)) (c, k))"

definition ch_Reply :: "int \<Rightarrow> bool \<Rightarrow> bool \<Rightarrow> chanst \<Rightarrow> (chanst \<times> gerror option) res" where
  "ch_Reply now wantReply ok ck = (if \<not> wantReply then Ok (ck, None) else ch_ackRequest now ok ck)"

text \<open>Timeouts. A deadline is \<open>None\<close> for the zero time.\<close>

definition SetReadIdleTimeout :: "int \<Rightarrow> channel \<Rightarrow> channel res" where
  "SetReadIdleTimeout dur c = res_bind (SetIdleTimeout (idleR c) dur) (\<lambda>i. Ok (c\<lparr>idleR := i\<rparr>))"

definition SetWriteIdleTimeout :: "int \<Rightarrow> channel \<Rightarrow> channel res" where
  "SetWriteIdleTimeout dur c = res_bind (SetIdleTimeout (idleW c) dur) (\<lambda>i. Ok (c\<lparr>idleW := i\<rparr>))"

definition ch_SetIdleTimeout :: "int \<Rightarrow> channel \<Rightarrow> channel res" where
  "ch_SetIdleTimeout dur c = res_bind (SetReadIdleTimeout dur c) (SetWriteIdleTimeout dur)"

definition deadlineDur :: "int \<Rightarrow> int option \<Rightarrow> int" where
  "deadlineDur now t = (case t of None \<Rightarrow> 0 | Some d \<Rightarrow> if \<not> now < d then 1 else d - now)"

definition setDeadline :: "int \<Rightarrow> int option \<Rightarrow> bool \<Rightarrow> channel \<Rightarrow> channel res" where
  "setDeadline now t reads c =
     (if reads then
        res_bind (SetOneshotIdleTimeout (idleR c) (deadlineDur now t)) (\<lambda>i. Ok (c\<lparr>idleR := i\<rparr>))
      else
        res_bind (SetOneshotIdleTimeout (idleW c) (deadlineDur now t)) (\<lambda>i. Ok (c\<lparr>idleW := i\<rparr>)))"

definition SetDeadline :: "int \<Rightarrow> int option \<Rightarrow> channel \<Rightarrow> channel res" where
  "SetDeadline now t c = res_bind (setDeadline now t False c) (setDeadline now t True)"

section \<open>Sequences of operations\<close>

text \<open>The calls of the user and the packets of the peer, as one type. \<open>OpWrite\<close> gets enough
  iterations to write everything.\<close>

datatype chanOp =
    OpAccept
  | OpReject u32 string
  | OpRead nat u32
  | OpWrite "nat \<Rightarrow> selResult" bytes u32
  | OpResume "nat \<Rightarrow> selResult" u32 nat bytes u32
  | OpCloseWrite
  | OpClose
  | OpSendRequest bool bool string bool bytes
  | OpAck bool
  | OpPacket bool bool bytes

fun runOp :: "int \<Rightarrow> chanOp \<Rightarrow> chanst \<Rightarrow> chanst res" where
  "runOp now OpAccept ck = res_bind (Accept now ck) (\<lambda>(ck', _). Ok ck')"
| "runOp now (OpReject r m) ck = res_bind (Reject now r m ck) (\<lambda>(ck', _). Ok ck')"
| "runOp now (OpRead len ext) ck = res_bind (ReadExtended now len ext ck) (\<lambda>(ck', _). Ok ck')"
| "runOp now (OpWrite sel d ext) ck =
     res_bind (WriteExtended (length d) now sel d ext ck) (\<lambda>(ck', _). Ok ck')"
| "runOp now (OpResume sel ext n d sp) ck =
     res_bind (resumeWrite (length d) now sel ext n d sp ck) (\<lambda>(ck', _). Ok ck')"
| "runOp now OpCloseWrite ck = res_bind (CloseWrite now ck) (\<lambda>(ck', _). Ok ck')"
| "runOp now OpClose ck = res_bind (ch_Close now ck) (\<lambda>(ck', _). Ok ck')"
| "runOp now (OpSendRequest cs ms name wr pl) ck =
     res_bind (ch_SendRequest now cs ms name wr pl ck) (\<lambda>(ck', _). Ok ck')"
| "runOp now (OpAck ok) ck = res_bind (ch_ackRequest now ok ck) (\<lambda>(ck', _). Ok ck')"
| "runOp now (OpPacket pk ms p) ck = res_bind (handlePacket now pk ms p ck) (\<lambda>(ck', _). Ok ck')"

fun runOps :: "int \<Rightarrow> chanOp list \<Rightarrow> chanst \<Rightarrow> chanst res" where
  "runOps now [] ck = Ok ck"
| "runOps now (op # ops) ck = res_bind (runOp now op ck) (runOps now ops)"

section \<open>Lemmas\<close>

subsection \<open>A channel that has sent its close message\<close>

text \<open>\<open>silent ck ck'\<close>: the step from \<open>ck\<close> to \<open>ck'\<close> keeps a closed channel closed and
  silent.\<close>

definition silent :: "chanst \<Rightarrow> chanst \<Rightarrow> bool" where
  "silent ck ck' \<longleftrightarrow> (sentClose (fst ck) \<longrightarrow> sentClose (fst ck') \<and> sent (snd ck') = sent (snd ck))"

named_theorems silent_intros "steps after the close message send nothing"

lemma silent_refl [simp]: "silent ck ck"
  by (simp add: silent_def)

lemma silent_trans: "silent a b \<Longrightarrow> silent b c \<Longrightarrow> silent a c"
  by (auto simp: silent_def)

lemma ch_writePacket_silent: "ch_writePacket now p ck = Ok (ck', e) \<Longrightarrow> silent ck ck'"
  by (cases ck) (auto simp: ch_writePacket_def silent_def)

lemma ch_sendMessage_silent: "ch_sendMessage now m ck = Ok (ck', e) \<Longrightarrow> silent ck ck'"
  by (cases ck) (auto simp: ch_sendMessage_def res_simps dest: ch_writePacket_silent)

lemma ch_sendMessage_silent': 
  "ch_sendMessage now m (c1, k) = Ok (ck', e) \<Longrightarrow> sentClose c1 = sentClose c \<Longrightarrow> silent (c, k) ck'"
  using ch_sendMessage_silent [of now m "(c1, k)" ck' e] by (simp add: silent_def)

lemma writeChunk_silent: "writeChunk now ext sp d ck = Ok (ck', e) \<Longrightarrow> silent ck ck'"
  by (cases ck) (auto simp: writeChunk_def Let_def res_simps silent_def
      dest!: ch_writePacket_silent split: if_splits option.splits)

lemma writeFrom_silent: "writeFrom fuel now sel ext d n wr ck = Ok (ck', st) \<Longrightarrow> silent ck ck'"
proof (induction fuel now sel ext d n wr ck arbitrary: ck' st rule: writeFrom.induct)
  case (3 fuel now sel ext data n w space c k)
  from "3.prems" obtain c1 k1 err where wc: "writeChunk now ext space data (c\<lparr>remoteWin := w\<rparr>, k) = Ok ((c1, k1), err)"
    by (auto simp: res_simps)
  then have s: "silent (c, k) (c1, k1)" by (auto dest!: writeChunk_silent simp: silent_def)
  show ?case
  proof (cases "err = None \<and> drop (unat space) data \<noteq> [] \<and> fuel \<noteq> 0")
    case True
    then obtain f where f: "fuel = Suc f" by (cases fuel) auto
    from "3.prems" wc True f have "writeFrom f now sel ext (drop (unat space) data) (n + unat space)
      (reserveStart (sel (n + unat space)) (goMin (maxRemotePayload c1) (length (drop (unat space) data)))
         (remoteWin c1)) (c1, k1) = Ok (ck', st)"
      by (simp add: Let_def)
    then have "silent (c1, k1) ck'"
      using "3.IH" [OF refl refl _ f] True by simp
    with s show ?thesis by (rule silent_trans)
  next
    case False
    with "3.prems" wc have "ck' = (c1, k1)"
      by (cases fuel) (auto simp: Let_def split: option.splits if_splits)
    with s show ?thesis by simp
  qed
qed (auto simp: silent_def)

lemma writeEnd_silent: "silent ck (fst (writeEnd now (ck, st)))"
  by (cases ck) (auto simp: writeEnd_def silent_def split: writeStatus.splits option.splits)

lemma WriteExtended_silent: "WriteExtended fuel now sel d ext ck = Ok (ck', st) \<Longrightarrow> silent ck ck'"
proof -
  assume w: "WriteExtended fuel now sel d ext ck = Ok (ck', st)"
  obtain c k where ck: "ck = (c, k)" by fastforce
  let ?c1 = "c\<lparr>idleW := BeginAttempt (idleW c) now\<rparr>"
  have s1: "silent (c, k) (?c1, k)" by (simp add: silent_def)
  show ?thesis
  proof (cases "sentEOF c \<or> d = []")
    case True
    with w ck show ?thesis
      by (auto simp: WriteExtended_def Let_def writeEnd_def silent_def split: if_splits)
  next
    case False
    with w ck obtain ck2 st2 where
      "writeFrom fuel now sel ext d 0 (reserveStart (sel 0) (goMin (maxRemotePayload ?c1) (length d))
         (remoteWin ?c1)) (?c1, k) = Ok (ck2, st2)" "(ck', st) = writeEnd now (ck2, st2)"
      by (auto simp: WriteExtended_def Let_def res_simps)
    then show ?thesis
      using silent_trans [OF s1 silent_trans [OF writeFrom_silent writeEnd_silent]] ck by (metis fst_conv)
  qed
qed

lemma resumeWrite_silent: "resumeWrite fuel now sel ext n d sp ck = Ok (ck', st) \<Longrightarrow> silent ck ck'"
proof -
  assume w: "resumeWrite fuel now sel ext n d sp ck = Ok (ck', st)"
  then obtain ck2 st2 where "writeFrom fuel now sel ext d n (reserveWake (sel n) sp (remoteWin (fst ck))) ck = Ok (ck2, st2)"
    "(ck', st) = writeEnd now (ck2, st2)"
    by (cases ck) (auto simp: resumeWrite_def res_simps)
  then show ?thesis using silent_trans [OF writeFrom_silent writeEnd_silent] by (metis fst_conv)
qed

lemma adjustWindow_silent: "adjustWindow now n ck = Ok (ck', e) \<Longrightarrow> silent ck ck'"
  by (cases ck) (auto simp: adjustWindow_def intro: ch_sendMessage_silent')

lemma readFinish_silent: "readFinish now d st ck = Ok (ck', r) \<Longrightarrow> silent ck ck'"
proof -
  assume r: "readFinish now d st ck = Ok (ck', r)"
  obtain c k where ck: "ck = (c, k)" by fastforce
  let ?c1 = "if st = RdDone then c\<lparr>idleR := AttemptOK (idleR c) now\<rparr> else c"
  have s1: "silent (c, k) (?c1, k)" by (simp add: silent_def)
  show ?thesis
  proof (cases "d = []")
    case True
    with r ck s1 show ?thesis by (simp add: readFinish_def Let_def)
  next
    case False
    with r ck obtain e where "adjustWindow now (word_of_nat (length d)) (?c1, k) = Ok (ck', e)"
      by (auto simp: readFinish_def Let_def res_simps split: option.splits if_splits)
    from silent_trans [OF s1 adjustWindow_silent [OF this]] ck show ?thesis by simp
  qed
qed

lemma ReadExtended_silent: "ReadExtended now len ext ck = Ok (ck', r) \<Longrightarrow> silent ck ck'"
proof -
  assume r: "ReadExtended now len ext ck = Ok (ck', r)"
  obtain c k where ck: "ck = (c, k)" by fastforce
  obtain i b d st where e: "buf_Read (BeginAttempt (idleR c) now) (extPending c) len now now = (i, b, d, st)"
    by (metis prod_cases4)
  obtain i' b' d' st' where p: "buf_Read (BeginAttempt (idleR c) now) (pending c) len now now = (i', b', d', st')"
    by (metis prod_cases4)
  consider "ext = 1" | "ext = 0" | "ext \<noteq> 0" "ext \<noteq> 1" by blast
  then show ?thesis
  proof cases
    case 1
    with r ck e have "readFinish now d st (c\<lparr>idleR := i, extPending := b\<rparr>, k) = Ok (ck', r)"
      by (simp add: ReadExtended_def Let_def)
    from readFinish_silent [OF this] ck show ?thesis by (simp add: silent_def)
  next
    case 2
    with r ck p have "readFinish now d' st' (c\<lparr>idleR := i', pending := b'\<rparr>, k) = Ok (ck', r)"
      by (simp add: ReadExtended_def Let_def)
    from readFinish_silent [OF this] ck show ?thesis by (simp add: silent_def)
  next
    case 3
    with r ck show ?thesis by (auto simp: ReadExtended_def Let_def silent_def)
  qed
qed

lemma handleData_sentClose: "handleData p c = Ok (c', e) \<Longrightarrow> sentClose c' = sentClose c"
  by (auto simp: handleData_def Let_def split: list.splits if_splits)

lemma deliver_sentClose:
  "deliverMsg pk ms m c = Ok (c', r) \<Longrightarrow> sentClose c' = sentClose c"
  "deliverRequest pk ms q c = Ok (c', r) \<Longrightarrow> sentClose c' = sentClose c"
  by (auto simp: deliverMsg_def deliverRequest_def split: selOut.splits)

lemma responseMessageReceived_sentClose: "sentClose (fst (responseMessageReceived c)) = sentClose c"
  by (simp add: responseMessageReceived_def)

lemma handleDecoded_sentClose: "handleDecoded pk ms m c = Ok (c', rm, r) \<Longrightarrow> sentClose c' = sentClose c"
  using responseMessageReceived_sentClose [of c]
  by (cases m) (auto simp: handleDecoded_def res_simps Let_def dest!: deliver_sentClose
      split: prod.splits option.splits if_splits bool.splits)

lemma handlePacket_silent: "handlePacket now pk ms p ck = Ok (ck', r) \<Longrightarrow> silent ck ck'"
proof -
  assume h: "handlePacket now pk ms p ck = Ok (ck', r)"
  obtain c0 k where ck: "ck = (c0, k)" by fastforce
  obtain op rest where p: "p = op # rest" using h ck by (cases p) (auto simp: handlePacket_def Let_def)
  let ?c = "c0\<lparr>idleR := AttemptOK (idleR c0) now\<rparr>"
  consider "op = msgChannelData \<or> op = msgChannelExtendedData" | "op = msgChannelClose" | "op = msgChannelEOF"
    | "op \<noteq> msgChannelData" "op \<noteq> msgChannelExtendedData" "op \<noteq> msgChannelClose" "op \<noteq> msgChannelEOF"
    by blast
  then show ?thesis
  proof cases
    case 1
    with h ck p show ?thesis
      by (auto simp: handlePacket_def Let_def res_simps silent_def dest!: handleData_sentClose)
  next
    case 2
    with h ck p obtain c1 k1 e c2 where m: "ch_sendMessage now (ChannelCloseMsg (remoteId ?c)) (?c, k) = Ok ((c1, k1), e)"
      "ch_close c1 = Ok c2" "ck' = (c2, k1)"
      by (auto simp: handlePacket_def Let_def res_simps)
    with ch_sendMessage_silent [OF m(1)] ck show ?thesis
      by (auto simp: silent_def ch_close_def split: if_splits)
  next
    case 3
    with h ck p show ?thesis by (auto simp: handlePacket_def Let_def silent_def)
  next
    case 4
    with h ck p show ?thesis
      by (auto simp: handlePacket_def Let_def res_simps silent_def
          dest!: handleDecoded_sentClose split: res.splits)
  qed
qed

lemma awaitReply_sentClose: "sentClose (fst (awaitReply cs ms c)) = sentClose c"
  by (simp add: awaitReply_def split: list.splits)

lemma ch_SendRequest_silent: "ch_SendRequest now cs ms name wr pl ck = Ok (ck', r) \<Longrightarrow> silent ck ck'"
proof -
  assume r: "ch_SendRequest now cs ms name wr pl ck = Ok (ck', r)"
  obtain c k where ck: "ck = (c, k)" by fastforce
  show ?thesis
  proof (cases "decided c")
    case True
    with r ck obtain c1 k1 err where
      m: "ch_sendMessage now (ChannelRequestMsg (remoteId c) name wr pl) (c, k) = Ok ((c1, k1), err)"
      by (auto simp: ch_SendRequest_def res_simps)
    obtain c2 x where "awaitReply cs ms c1 = (c2, x)" by fastforce
    with r ck m True awaitReply_sentClose [of cs ms c1] have "snd ck' = k1" "sentClose (fst ck') = sentClose c1"
      by (auto simp: ch_SendRequest_def split: option.splits if_splits)
    with ch_sendMessage_silent [OF m] ck show ?thesis by (simp add: silent_def)
  qed (use r ck in \<open>auto simp: ch_SendRequest_def\<close>)
qed

text \<open>The operations that check a guard, update fields and send one message.\<close>

lemma guarded_send_silent:
  assumes "(if g then Ok ((c, k), e0) else ch_sendMessage now m (c1, k)) = Ok (ck', e)"
    "sentClose c1 = sentClose c"
  shows "silent (c, k) ck'"
  using assms ch_sendMessage_silent' by (auto split: if_splits)

lemma Accept_silent: "Accept now ck = Ok (ck', e) \<Longrightarrow> silent ck ck'"
  by (cases ck, hypsubst, unfold Accept_def Let_def case_prod_conv, erule guarded_send_silent)
    (simp)

lemma Reject_silent: "Reject now r m ck = Ok (ck', e) \<Longrightarrow> silent ck ck'"
  by (cases ck, hypsubst, unfold Reject_def Let_def case_prod_conv, erule guarded_send_silent)
    (simp add: stopTimers_def)

lemma CloseWrite_silent: "CloseWrite now ck = Ok (ck', e) \<Longrightarrow> silent ck ck'"
  by (cases ck, hypsubst, unfold CloseWrite_def Let_def case_prod_conv, erule guarded_send_silent)
    (simp)

lemma ch_ackRequest_silent: "ch_ackRequest now ok ck = Ok (ck', e) \<Longrightarrow> silent ck ck'"
  by (cases ck, hypsubst, unfold ch_ackRequest_def Let_def case_prod_conv, erule guarded_send_silent)
    (simp)

lemma ch_Close_silent: "ch_Close now ck = Ok (ck', e) \<Longrightarrow> silent ck ck'"
proof -
  assume r: "ch_Close now ck = Ok (ck', e)"
  obtain c k where ck: "ck = (c, k)" by fastforce
  let ?c1 = "stopTimers (c\<lparr>hasClosed := True\<rparr>)\<lparr>halt := haltDone (halt c)\<rparr>"
  have s: "sentClose ?c1 = sentClose c" by (simp add: stopTimers_def)
  show ?thesis
  proof (cases "hasClosed c \<or> \<not> decided ?c1")
    case True
    with r ck s show ?thesis by (auto simp: ch_Close_def Let_def silent_def split: if_splits)
  next
    case False
    with r ck have "ch_sendMessage now (ChannelCloseMsg (remoteId ?c1)) (?c1, k) = Ok (ck', e)"
      by (simp add: ch_Close_def Let_def)
    from ch_sendMessage_silent' [OF this s] ck show ?thesis by simp
  qed
qed

lemmas op_silent = Accept_silent Reject_silent CloseWrite_silent ch_ackRequest_silent ch_Close_silent
  ReadExtended_silent WriteExtended_silent resumeWrite_silent ch_SendRequest_silent handlePacket_silent

lemma runOp_silent: "runOp now op ck = Ok ck' \<Longrightarrow> silent ck ck'"
  by (cases op) (auto simp: res_simps dest: op_silent)

lemma runOps_silent: "runOps now ops ck = Ok ck' \<Longrightarrow> silent ck ck'"
  by (induction ops arbitrary: ck) (auto simp: res_simps dest: runOp_silent intro: silent_trans)

subsection \<open>Data packets\<close>

lemma length_dataPacket: "length (dataPacket rid ext d) = unat (headerLength ext) + length d"
  by (simp add: dataPacket_def headerLength_def)

lemma handleData_dataPacket:
  assumes "d \<noteq> []" "length d \<le> unat (maxIncomingPayload c)" "length d \<le> unat (myWindow c)"
  shows "handleData (dataPacket rid ext d) c =
     Ok (let c1 = c\<lparr>myWindow := myWindow c - word_of_nat (length d)\<rparr> in
         if ext = 0 then c1\<lparr>pending := buf_write d (pending c)\<rparr>
         else if ext = 1 then c1\<lparr>extPending := buf_write d (extPending c)\<rparr> else c1, None)"
proof -
  define L :: u32 where "L = word_of_nat (length d)"
  have "length d < 2 ^ 32" using assms(2) unat_u32_less [of "maxIncomingPayload c"] by simp
  then have u: "unat L = length d" by (simp add: L_def unat_of_nat)
  have nz: "L \<noteq> 0" using u assms(1) by (metis length_0_conv unat_0)
  have le: "\<not> L > maxIncomingPayload c" "\<not> myWindow c < L"
    using assms(2,3) u by (simp_all add: word_less_nat_alt)
  have be: "beUint32 (be32 n) = n" for n using beUint32_be32 [of n "[]"] by simp
  show ?thesis
  proof (cases "ext = 0")
    case True
    then have "dataPacket rid ext d = msgChannelData # be32 rid @ be32 L @ d"
      by (simp add: dataPacket_def L_def)
    with True nz le show ?thesis by (simp add: handleData_def Let_def be L_def [symmetric])
  next
    case False
    then have "ext > 0" by (simp add: word_neq_0_conv)
    moreover from this have "dataPacket rid ext d = msgChannelExtendedData # be32 rid @ be32 ext @ be32 L @ d"
      by (simp add: dataPacket_def L_def)
    ultimately show ?thesis using False nz le by (simp add: handleData_def Let_def be L_def [symmetric])
  qed
qed

lemma connWrite_ok: "conn_err k = None \<Longrightarrow> connWrite p k = (k\<lparr>sent := sent k @ [p]\<rparr>, None)"
  by (simp add: connWrite_def)

lemma headerLength_no_wrap: "unat space \<le> 2 ^ 31 \<Longrightarrow> \<not> headerLength ext + space < space"
proof -
  assume "unat space \<le> 2 ^ 31"
  then have "unat space + unat (headerLength ext) < 2 ^ LENGTH(32)" by (simp add: headerLength_def)
  then have "space \<le> space + headerLength ext" by (rule no_olen_add_nat [THEN iffD2])
  then show ?thesis by (simp add: add.commute)
qed

text \<open>One iteration of the write loop sends one data packet or reports why it could not.\<close>

lemma writeChunk_spec:
  assumes "unat space \<le> 2 ^ 31"
  shows "\<exists>c' k' e. writeChunk now ext space d (c, k) = Ok ((c', k'), e) \<and>
     remoteId c' = remoteId c \<and> maxRemotePayload c' = maxRemotePayload c \<and> remoteWin c' = remoteWin c \<and>
     sent k' = (if e = None then sent k @ [dataPacket (remoteId c) ext (take (unat space) d)] else sent k)"
proof -
  obtain b r where p: "dataPacket (remoteId c) ext (take (unat space) d) = b # r" by (simp add: dataPacket_def)
  show ?thesis
    using headerLength_no_wrap [OF assms, of ext] p
    by (cases "conn_err k") (auto simp: writeChunk_def Let_def ch_writePacket_def connWrite_def)
qed

lemma reserve_granted:
  assumes "reserveStart sel n w = (w', Reserved m None) \<or> reserveWake sel n w = (w', Reserved m None)" "0 < n"
  shows "0 < m \<and> m \<le> n"
  using assms
  by (cases sel) (auto simp: reserveStart_def reserveWake_def reserveCheck_def reserveFinish_def Let_def
      word_neq_0_conv split: if_splits)

lemma unat_goMin: "length d < 2 ^ 32 \<Longrightarrow> unat (goMin a (length d)) = min (unat a) (length d)"
  by (simp add: goMin_def word_less_nat_alt unat_of_nat min_def)

section \<open>Properties\<close>

text \<open>C6: A channel that has sent its close message, or was torn down, stays silent: no later call of
  the user and no later packet of the peer, in any order and number, makes it send anything.\<close>

theorem closed_channel_silent:
  assumes "sentClose c" "runOps now ops (c, k) = Ok (c', k')"
  shows "sentClose c' \<and> sent k' = sent k"
  using runOps_silent [OF assms(2)] assms(1) by (simp add: silent_def)

theorem closed_channel_silent_witness:
  "\<exists>c k c' k'. sentClose c \<and> runOps 0 [OpAck True] (c, k) = Ok (c', k') \<and> sent k' = [[1]]"
proof -
  obtain c0 where c0: "newChannel ''session'' ChannelInbound [] 0 = Ok c0"
    by (simp add: newChannel_def NewIdleTimer_def AddTimeoutCallback_def)
  let ?c = "c0\<lparr>sentClose := True\<rparr>" let ?k = "\<lparr>sent = [[1]], conn_err = None\<rparr>"
  obtain c' k' where r: "runOps 0 [OpAck True] (?c, ?k) = Ok (c', k')"
    using c0 by (auto simp: newChannel_def NewIdleTimer_def AddTimeoutCallback_def ch_ackRequest_def)
  from closed_channel_silent [OF _ r] r show ?thesis by (intro exI conjI) auto
qed

end
