(* ===== verification/FlowControl.thy ===== *)
theory FlowControl
  imports Channel
begin

text \<open>
  What writing to a channel achieves. The first part characterises the packets of one
  \<open>WriteExtended\<close> call. The second part connects a sending channel to a receiving channel over
  an ordered connection and interleaves loop iterations of the writer, the receiver's handling of
  data packets, the receiver's reads, and the sender's handling of window updates. The invariant
  relates the two windows, the buffers and the packets under way.
\<close>

section \<open>The packets of one write\<close>

text \<open>The chunks \<open>ds\<close> of \<open>data\<close> that a write has sent when it stands at \<open>st\<close>.\<close>

definition chunksOK :: "nat \<Rightarrow> nat \<Rightarrow> nat \<Rightarrow> bytes \<Rightarrow> bytes list \<Rightarrow> writeStatus \<Rightarrow> bool" where
  "chunksOK fuel mx n data ds st \<longleftrightarrow>
     (\<forall>d\<in>set ds. d \<noteq> [] \<and> length d \<le> mx) \<and>
     (\<exists>rest. data = concat ds @ rest \<and>
        (case st of
           WReturn m e \<Rightarrow> m = n + length (concat ds) \<and> (e = None \<longrightarrow> rest = [])
         | WWait m r sp \<Rightarrow> m = n + length (concat ds) \<and> r = rest \<and> rest \<noteq> []
         | WFuel \<Rightarrow> fuel < length data))"

lemma chunksOK_Nil:
  "chunksOK fuel mx n data [] (WWait n data sp) \<longleftrightarrow> data \<noteq> []"
  "chunksOK fuel mx n data [] (WReturn n (Some e))"
  by (auto simp: chunksOK_def)

lemma chunksOK_Cons:
  assumes "chunksOK fuel mx (n + length d) rest ds st" "d \<noteq> []" "length d \<le> mx"
  shows "chunksOK (Suc fuel) mx n (d @ rest) (d # ds) st"
proof -
  have "0 < length d" using assms(2) by simp
  then show ?thesis using assms
    by (cases st) (auto simp: chunksOK_def simp del: length_greater_0_conv)
qed

lemma chunksOK_last:
  "d \<noteq> [] \<Longrightarrow> length d \<le> mx \<Longrightarrow> chunksOK fuel mx n d [d] (WReturn (n + length d) None)"
  "d \<noteq> [] \<Longrightarrow> length d \<le> mx \<Longrightarrow> rest \<noteq> [] \<Longrightarrow> chunksOK 0 mx n (d @ rest) [d] WFuel"
  by (auto simp: chunksOK_def)

definition goodReserve :: "nat \<Rightarrow> nat \<Rightarrow> reserveState \<Rightarrow> bool" where
  "goodReserve mx len r = (case r of Reserved m None \<Rightarrow> 0 < unat m \<and> unat m \<le> mx \<and> unat m \<le> len | _ \<Rightarrow> True)"

lemma goodReserve_start:
  assumes "data \<noteq> []" "length data < 2 ^ 32" "0 < mx"
  shows "goodReserve (unat mx) (length data) (snd (reserveStart sel (goMin mx (length data)) w))"
proof -
  have u: "unat (goMin mx (length data)) = min (unat mx) (length data)" using unat_goMin [OF assms(2)] .
  have "0 < unat mx" using assms(3) by (simp add: word_less_nat_alt)
  then have pos: "0 < goMin mx (length data)" using assms(1) u by (simp add: word_less_nat_alt)
  obtain w' r where rs: "reserveStart sel (goMin mx (length data)) w = (w', r)" by fastforce
  show ?thesis
  proof (cases "\<exists>m. r = Reserved m None")
    case True
    then obtain m where m: "r = Reserved m None" by blast
    with rs pos have "0 < m \<and> m \<le> goMin mx (length data)" by (intro reserve_granted) auto
    then show ?thesis using u m rs by (simp add: goodReserve_def word_less_nat_alt word_le_nat_alt)
  next
    case False
    then show ?thesis using rs by (auto simp: goodReserve_def split: reserveState.splits option.splits)
  qed
qed

lemma writeFrom_chunks:
  assumes "data \<noteq> []" "length data < 2 ^ 32" "0 < maxRemotePayload c" "unat (maxRemotePayload c) \<le> 2 ^ 31"
    "goodReserve (unat (maxRemotePayload c)) (length data) (snd wr)"
  shows "\<exists>c' k' st ds. writeFrom fuel now sel ext data n wr (c, k) = Ok ((c', k'), st) \<and>
     sent k' = sent k @ map (dataPacket (remoteId c) ext) ds \<and>
     chunksOK fuel (unat (maxRemotePayload c)) n data ds st"
  using assms
proof (induction fuel now sel ext data n wr "(c, k)" arbitrary: c k rule: writeFrom.induct)
  case (1 fuel now sel ext data n w space c k)
  then show ?case using chunksOK_Nil(1) by fastforce
next
  case (2 fuel now sel ext data n w space e c k)
  then show ?case using chunksOK_Nil(2) by fastforce
next
  case (3 fuel now sel ext data n w space c k)
  let ?mx = "unat (maxRemotePayload c)" and ?d = "take (unat space) data" and ?rest = "drop (unat space) data"
  from "3.prems"(5) have sp: "0 < unat space" "unat space \<le> ?mx" "unat space \<le> length data"
    by (simp_all add: goodReserve_def)
  with "3.prems"(4) have "unat space \<le> 2 ^ 31" by simp
  from writeChunk_spec [OF this, of now ext data "c\<lparr>remoteWin := w\<rparr>" k]
  obtain c1 k1 e where wc: "writeChunk now ext space data (c\<lparr>remoteWin := w\<rparr>, k) = Ok ((c1, k1), e)"
    "remoteId c1 = remoteId c" "maxRemotePayload c1 = maxRemotePayload c"
    "sent k1 = (if e = None then sent k @ [dataPacket (remoteId c) ext ?d] else sent k)"
    by auto
  have d: "?d \<noteq> []" "length ?d \<le> ?mx" "length ?d = unat space" "data = ?d @ ?rest" using sp by auto
  show ?case
  proof (cases e)
    case (Some x)
    with wc show ?thesis using chunksOK_Nil(2) by fastforce
  next
    case None
    show ?thesis
    proof (cases "?rest = []")
      case True
      then have "?d = data" by simp
      then have "chunksOK fuel ?mx n data [?d] (WReturn (n + unat space) None)"
        using chunksOK_last(1) [OF d(1,2), of fuel n] d(3) by metis
      with wc None True show ?thesis
        by (intro exI [of _ c1] exI [of _ k1] exI [of _ "WReturn (n + unat space) None"] exI [of _ "[?d]"])
          (simp add: Let_def)
    next
      case rest: False
      show ?thesis
      proof (cases fuel)
        case 0
        from chunksOK_last(2) [OF d(1,2) rest, of n] have "chunksOK fuel ?mx n data [?d] WFuel"
          by (simp only: append_take_drop_id 0)
        with wc None rest 0 show ?thesis
          by (intro exI [of _ c1] exI [of _ k1] exI [of _ WFuel] exI [of _ "[?d]"]) (simp add: Let_def)
      next
        case (Suc f)
        let ?wr = "reserveStart (sel (n + unat space)) (goMin (maxRemotePayload c1) (length ?rest)) (remoteWin c1)"
        have len: "length ?rest < 2 ^ 32" using "3.prems"(2) by simp
        have pos: "0 < maxRemotePayload c1" "unat (maxRemotePayload c1) \<le> 2 ^ 31"
          using "3.prems"(3,4) by (simp_all only: wc(3))
        note IH0 = "3.hyps" [OF refl refl rest Suc rest len pos goodReserve_start [OF rest len pos(1)], of k1]
        from IH0 [unfolded wc(2,3)]
        obtain c' k' st ds where IH: "writeFrom f now sel ext ?rest (n + unat space) ?wr (c1, k1) = Ok ((c', k'), st)"
          "sent k' = sent k1 @ map (dataPacket (remoteId c) ext) ds"
          "chunksOK f ?mx (n + unat space) ?rest ds st"
          unfolding wc(3) by blast
        from IH(3) have "chunksOK f ?mx (n + length ?d) ?rest ds st" by (simp only: d(3))
        from chunksOK_Cons [OF this d(1,2)] have "chunksOK fuel ?mx n data (?d # ds) st"
          by (simp only: append_take_drop_id Suc)
        moreover have "writeFrom fuel now sel ext data n (w, Reserved space None) (c, k) = Ok ((c', k'), st)"
          using IH(1) wc(1) None rest Suc by (simp add: Let_def)
        moreover have "sent k' = sent k @ map (dataPacket (remoteId c) ext) (?d # ds)"
          using IH(2) wc(4) None by simp
        ultimately show ?thesis by blast
      qed
    qed
  qed
qed

section \<open>Two ends of a connection\<close>

text \<open>
  A sender and a receiver. The packets \<open>sent\<close> on a connection and not yet taken off by the other
  side are under way. \<open>wrote\<close> and \<open>got\<close> record, for the main stream 0 and the stderr stream 1,
  the bytes written and the bytes returned by reads; \<open>failed\<close> records that a handler reported an
  error or panicked.
\<close>

record flow =
  sndr :: channel
  data_way :: conn
  rcvr :: channel
  adj_way :: conn
  wrote :: "u32 \<Rightarrow> bytes"
  got :: "u32 \<Rightarrow> bytes"
  failed :: bool

definition streams :: "u32 set" where
  "streams = {0, 1}"

inductive flowStep :: "flow \<Rightarrow> flow \<Rightarrow> bool" where
  send: "ext \<in> streams \<Longrightarrow> data \<noteq> [] \<Longrightarrow> length data < 2 ^ 32 \<Longrightarrow>
     sp = goMin (maxRemotePayload (sndr s)) (length data) \<Longrightarrow>
     reserveStart sel sp (remoteWin (sndr s)) = (w, Reserved m None) \<or>
       reserveWake sel sp (remoteWin (sndr s)) = (w, Reserved m None) \<Longrightarrow>
     writeChunk now ext m data ((sndr s)\<lparr>remoteWin := w\<rparr>, data_way s) = Ok ((a, ka), None) \<Longrightarrow>
     flowStep s (s\<lparr>sndr := a, data_way := ka,
       wrote := (wrote s)(ext := wrote s ext @ take (unat m) data)\<rparr>)"
| blocked: "reserveStart sel sp (remoteWin (sndr s)) = (w, Waiting sp) \<or>
       reserveWake sel sp (remoteWin (sndr s)) = (w, Waiting sp) \<Longrightarrow>
     flowStep s (s\<lparr>sndr := (sndr s)\<lparr>remoteWin := w\<rparr>\<rparr>)"
| recv: "sent (data_way s) = p # ps \<Longrightarrow>
     handlePacket now pk ms p (rcvr s, adj_way s) = Ok ((b, kb), rm, r) \<Longrightarrow>
     flowStep s (s\<lparr>data_way := (data_way s)\<lparr>sent := ps\<rparr>, rcvr := b, adj_way := kb,
       failed := failed s \<or> r \<noteq> HpNil\<rparr>)"
| recv_panic: "sent (data_way s) = p # ps \<Longrightarrow>
     handlePacket now pk ms p (rcvr s, adj_way s) = Panic x \<Longrightarrow> flowStep s (s\<lparr>failed := True\<rparr>)"
| read: "ext \<in> streams \<Longrightarrow>
     ReadExtended now len ext (rcvr s, adj_way s) = Ok ((b, kb), d, st) \<Longrightarrow>
     flowStep s (s\<lparr>rcvr := b, adj_way := kb, got := (got s)(ext := got s ext @ d)\<rparr>)"
| update: "sent (adj_way s) = p # ps \<Longrightarrow>
     handlePacket now pk ms p (sndr s, data_way s) = Ok ((a, ka), rm, r) \<Longrightarrow>
     flowStep s (s\<lparr>adj_way := (adj_way s)\<lparr>sent := ps\<rparr>, sndr := a, data_way := ka,
       failed := failed s \<or> r \<noteq> HpNil\<rparr>)"
| update_panic: "sent (adj_way s) = p # ps \<Longrightarrow>
     handlePacket now pk ms p (sndr s, data_way s) = Panic x \<Longrightarrow> flowStep s (s\<lparr>failed := True\<rparr>)"

text \<open>Both ends right after the channel has been opened: the sender knows the receiver's window and
  packet size.\<close>

definition established :: "flow \<Rightarrow> bool" where
  "established s \<longleftrightarrow>
     win (remoteWin (sndr s)) = channelWindowSize \<and> myWindow (rcvr s) = channelWindowSize \<and>
     maxRemotePayload (sndr s) = channelMaxPacket \<and> maxIncomingPayload (rcvr s) = channelMaxPacket \<and>
     \<not> sentClose (sndr s) \<and> \<not> sentClose (rcvr s) \<and>
     pending (rcvr s) = newBuffer \<and> extPending (rcvr s) = newBuffer \<and>
     data_way s = \<lparr>sent = [], conn_err = None\<rparr> \<and> adj_way s = \<lparr>sent = [], conn_err = None\<rparr> \<and>
     wrote s = (\<lambda>_. []) \<and> got s = (\<lambda>_. []) \<and> \<not> failed s"

section \<open>The operations on a healthy connection\<close>

lemma writeChunk_ok:
  assumes "unat m \<le> 2 ^ 31" "\<not> sentClose c" "conn_err k = None"
  shows "\<exists>i. writeChunk now ext m d (c, k) = Ok ((c\<lparr>idleW := i, sentClose := False\<rparr>,
     k\<lparr>sent := sent k @ [dataPacket (remoteId c) ext (take (unat m) d)]\<rparr>), None)"
proof -
  obtain b r where p: "dataPacket (remoteId c) ext (take (unat m) d) = b # r" "b \<noteq> msgChannelClose"
    by (simp add: dataPacket_def)
  show ?thesis
    using headerLength_no_wrap [OF assms(1), of ext] p assms
    by (simp add: writeChunk_def Let_def ch_writePacket_def connWrite_def)
      (intro exI [of _ "AttemptOK (AttemptOK (AttemptOK (idleW c) now) now) now"], simp)
qed

lemma adjust_bytes: "MarshalMsg (WindowAdjustMsg i n) = Ok (93 # be32 i @ be32 n)"
proof -
  have "msgBytes (WindowAdjustMsg i n) = 93 # be32 i @ be32 n"
    by (subst msgBytes_tag) (simp_all add: fieldBytes_simps)
  then show ?thesis by (subst MarshalMsg_ok) (simp_all add: msg_ok_def)
qed

definition adjPacket :: "u32 \<Rightarrow> u32 \<Rightarrow> bytes" where
  "adjPacket i n = 93 # be32 i @ be32 n"

lemma adjustWindow_ok:
  assumes "\<not> sentClose c" "conn_err k = None"
  shows "\<exists>i. adjustWindow now n (c, k) = Ok ((c\<lparr>myWindow := myWindow c + n, idleW := i, sentClose := False\<rparr>,
     k\<lparr>sent := sent k @ [adjPacket (remoteId c) n]\<rparr>), None)"
  using assms
  by (simp add: adjustWindow_def ch_sendMessage_def adjust_bytes putUint32_def adjPacket_def
      ch_writePacket_def connWrite_def) (intro exI [of _ "AttemptOK (idleW c) now"], simp)

lemma decode_adjPacket: "decode (adjPacket i n) = Ok (WindowAdjustMsg i n)"
proof -
  have m: "msgBytes (WindowAdjustMsg i n) = adjPacket i n"
    by (subst msgBytes_tag) (simp_all add: adjPacket_def)
  have "msg_ok (WindowAdjustMsg i n)" "decodable (mtypeOf (WindowAdjustMsg i n))"
    "length (msgBytes (WindowAdjustMsg i n)) < 2 ^ 32"
    by (simp_all add: msg_ok_def decodable_def m adjPacket_def)
  from decode_msgBytes [OF this] show ?thesis by (simp only: m)
qed

lemma handlePacket_adj:
  assumes "unat (win (remoteWin c)) + unat n < 2 ^ 32"
  shows "\<exists>i w. handlePacket now pk ms (adjPacket rid n) (c, k) =
     Ok ((c\<lparr>idleR := i, remoteWin := w\<rparr>, k), [], HpNil) \<and> unat (win w) = unat (win (remoteWin c)) + unat n"
proof -
  have "fst (window_add n (remoteWin c))" using assms window_add_iff by blast
  then obtain w where w: "window_add n (remoteWin c) = (True, w)" by (cases "window_add n (remoteWin c)") auto
  have d: "decode (93 # be32 rid @ be32 n) = Ok (WindowAdjustMsg rid n)"
    using decode_adjPacket by (simp add: adjPacket_def)
  have "handlePacket now pk ms (adjPacket rid n) (c, k) =
     Ok ((c\<lparr>idleR := AttemptOK (idleR c) now, remoteWin := w\<rparr>, k), [], HpNil)"
    using w d by (simp add: handlePacket_def adjPacket_def Let_def handleDecoded_def)
  with window_add_ok [OF w] show ?thesis by blast
qed

text \<open>The buffer of a stream.\<close>

definition streamBuf :: "u32 \<Rightarrow> channel \<Rightarrow> buffer" where
  "streamBuf ext c = (if ext = 0 then pending c else extPending c)"

lemma handlePacket_data:
  assumes "d \<noteq> []" "length d \<le> unat (maxIncomingPayload c)" "length d \<le> unat (myWindow c)" "ext \<in> streams"
  shows "\<exists>c'. handlePacket now pk ms (dataPacket rid ext d) (c, k) = Ok ((c', k), [], HpNil) \<and>
     myWindow c' = myWindow c - word_of_nat (length d) \<and> maxIncomingPayload c' = maxIncomingPayload c \<and>
     remoteId c' = remoteId c \<and> sentClose c' = sentClose c \<and>
     streamBuf ext c' = buf_write d (streamBuf ext c) \<and>
     (\<forall>e\<in>streams - {ext}. streamBuf e c' = streamBuf e c)"
proof -
  let ?c = "c\<lparr>idleR := AttemptOK (idleR c) now\<rparr>"
  obtain op r where p: "dataPacket rid ext d = op # r" "op = msgChannelData \<or> op = msgChannelExtendedData"
    by (simp add: dataPacket_def)
  obtain c' where c': "handleData (dataPacket rid ext d) ?c = Ok (c', None)"
    "c' = (let c1 = ?c\<lparr>myWindow := myWindow ?c - word_of_nat (length d)\<rparr> in
         if ext = 0 then c1\<lparr>pending := buf_write d (pending ?c)\<rparr>
         else if ext = 1 then c1\<lparr>extPending := buf_write d (extPending ?c)\<rparr> else c1)"
    using handleData_dataPacket [of d ?c rid ext] assms by simp
  have h: "handlePacket now pk ms (dataPacket rid ext d) (c, k) = Ok ((c', k), [], HpNil)"
    using p c'(1) by (auto simp: handlePacket_def Let_def)
  have ext: "ext = 0 \<or> ext = 1" using assms(4) by (simp add: streams_def)
  have "myWindow c' = myWindow c - word_of_nat (length d)" "maxIncomingPayload c' = maxIncomingPayload c"
    "remoteId c' = remoteId c" "sentClose c' = sentClose c" "streamBuf ext c' = buf_write d (streamBuf ext c)"
    "\<forall>e\<in>streams - {ext}. streamBuf e c' = streamBuf e c"
    using ext by (auto simp: c'(2) streamBuf_def streams_def Let_def)
  with h show ?thesis by blast
qed

lemma readFinish_ok:
  assumes "\<not> sentClose c" "conn_err k = None" "d \<noteq> [] \<longrightarrow> st = RdDone"
  shows "\<exists>i j st'. readFinish now d st (c, k) = Ok ((c\<lparr>idleR := i, idleW := j, sentClose := False,
       myWindow := myWindow c + word_of_nat (length d)\<rparr>,
     k\<lparr>sent := sent k @ (if d = [] then [] else [adjPacket (remoteId c) (word_of_nat (length d))])\<rparr>), d, st')"
proof (cases "d = []")
  case True
  then show ?thesis using assms(1)
    by (intro exI [of _ "if st = RdDone then AttemptOK (idleR c) now else idleR c"] exI [of _ "idleW c"]
        exI [of _ st]) (simp add: readFinish_def Let_def)
next
  case False
  let ?c = "c\<lparr>idleR := AttemptOK (idleR c) now\<rparr>"
  have "\<not> sentClose ?c" using assms(1) by simp
  from adjustWindow_ok [OF this assms(2), of now "word_of_nat (length d)"] obtain j where
    "adjustWindow now (word_of_nat (length d)) (?c, k) =
       Ok ((?c\<lparr>myWindow := myWindow ?c + word_of_nat (length d), idleW := j, sentClose := False\<rparr>,
         k\<lparr>sent := sent k @ [adjPacket (remoteId ?c) (word_of_nat (length d))]\<rparr>), None)" by blast
  then show ?thesis using False assms(3)
    by (intro exI [of _ "AttemptOK (idleR c) now"] exI [of _ j] exI [of _ RdDone])
      (simp add: readFinish_def Let_def)
qed

lemma ReadExtended_ok:
  assumes "\<not> sentClose c" "conn_err k = None" "ext \<in> streams" "bufInv (streamBuf ext c)"
  shows "\<exists>c' d st. ReadExtended now len ext (c, k) = Ok ((c', k\<lparr>sent := sent k @
       (if d = [] then [] else [adjPacket (remoteId c) (word_of_nat (length d))])\<rparr>), d, st) \<and>
     bufAbs (streamBuf ext c) = d @ bufAbs (streamBuf ext c') \<and> bufInv (streamBuf ext c') \<and>
     (\<forall>e\<in>streams - {ext}. streamBuf e c' = streamBuf e c) \<and>
     myWindow c' = myWindow c + word_of_nat (length d) \<and>
     maxIncomingPayload c' = maxIncomingPayload c \<and> remoteId c' = remoteId c \<and> \<not> sentClose c'"
proof -
  let ?i = "BeginAttempt (idleR c) now"
  obtain b d st where l: "readLoop (recvTimedOut (BeginAttempt ?i now)) (streamBuf ext c) len [] = (b, d, st)"
    by (metis prod_cases3)
  obtain i2 where r: "buf_Read ?i (streamBuf ext c) len now now = (i2, b, d, st)"
    using l by (auto simp: buf_Read_def Let_def)
  note spec = readLoop_spec [OF assms(4) l]
  have st: "d \<noteq> [] \<longrightarrow> st = RdDone" using spec by auto
  define c1 where "c1 = (if ext = 0 then c\<lparr>idleR := i2, pending := b\<rparr> else c\<lparr>idleR := i2, extPending := b\<rparr>)"
  have c1: "\<not> sentClose c1" "remoteId c1 = remoteId c" "myWindow c1 = myWindow c"
    "maxIncomingPayload c1 = maxIncomingPayload c"
    "streamBuf ext c1 = b" "\<forall>e\<in>streams - {ext}. streamBuf e c1 = streamBuf e c"
    using assms(1,3) by (auto simp: c1_def streamBuf_def streams_def)
  from readFinish_ok [OF c1(1) assms(2) st, of now] obtain i j st' where
    f: "readFinish now d st (c1, k) = Ok ((c1\<lparr>idleR := i, idleW := j, sentClose := False,
       myWindow := myWindow c1 + word_of_nat (length d)\<rparr>,
     k\<lparr>sent := sent k @ (if d = [] then [] else [adjPacket (remoteId c1) (word_of_nat (length d))])\<rparr>), d, st')"
    (is "_ = Ok ((?c', _), _, _)") by blast
  have "ReadExtended now len ext (c, k) = readFinish now d st (c1, k)"
    using assms(3) r by (auto simp: ReadExtended_def Let_def streams_def streamBuf_def c1_def)
  with f c1(2) have "ReadExtended now len ext (c, k) = Ok ((?c', k\<lparr>sent := sent k @
       (if d = [] then [] else [adjPacket (remoteId c) (word_of_nat (length d))])\<rparr>), d, st')" by simp
  moreover have "streamBuf e ?c' = streamBuf e c1" for e by (simp add: streamBuf_def)
  moreover have "bufAbs (streamBuf ext c) = d @ bufAbs b" "bufInv b" using spec by simp_all
  ultimately show ?thesis using c1 by (intro exI [of _ ?c'] exI [of _ d] exI [of _ st']) simp
qed

section \<open>The invariant\<close>

text \<open>The data under way on a stream.\<close>

definition wayData :: "u32 \<Rightarrow> (u32 \<times> bytes) list \<Rightarrow> bytes" where
  "wayData ext ds = concat (map snd (filter (\<lambda>p. fst p = ext) ds))"

definition wayBytes :: "(u32 \<times> bytes) list \<Rightarrow> nat" where
  "wayBytes ds = sum_list (map (\<lambda>p. length (snd p)) ds)"

definition flow_rel :: "(u32 \<times> bytes) list \<Rightarrow> u32 list \<Rightarrow> flow \<Rightarrow> bool" where
  "flow_rel ds ns s \<longleftrightarrow>
     sent (data_way s) = map (\<lambda>(ext, d). dataPacket (remoteId (sndr s)) ext d) ds \<and>
     sent (adj_way s) = map (adjPacket (remoteId (rcvr s))) ns \<and>
     (\<forall>(ext, d)\<in>set ds. ext \<in> streams \<and> d \<noteq> [] \<and> length d \<le> unat (maxIncomingPayload (rcvr s))) \<and>
     unat (win (remoteWin (sndr s))) + wayBytes ds + sum_list (map unat ns) = unat (myWindow (rcvr s)) \<and>
     unat (myWindow (rcvr s)) + length (bufAbs (streamBuf 0 (rcvr s))) + length (bufAbs (streamBuf 1 (rcvr s)))
       = unat channelWindowSize \<and>
     (\<forall>ext\<in>streams. bufInv (streamBuf ext (rcvr s)) \<and>
        wrote s ext = got s ext @ bufAbs (streamBuf ext (rcvr s)) @ wayData ext ds)"

definition flow_ok :: "flow \<Rightarrow> bool" where
  "flow_ok s \<longleftrightarrow>
     \<not> failed s \<and> \<not> sentClose (sndr s) \<and> \<not> sentClose (rcvr s) \<and>
     conn_err (data_way s) = None \<and> conn_err (adj_way s) = None \<and>
     maxRemotePayload (sndr s) = channelMaxPacket \<and> maxIncomingPayload (rcvr s) = channelMaxPacket"

lemma way_simps [simp]:
  "wayBytes [] = 0" "wayBytes ((e, d) # ds) = length d + wayBytes ds" "wayBytes (ds @ ds') = wayBytes ds + wayBytes ds'"
  "wayData x [] = []" "wayData x ((e, d) # ds) = (if e = x then d else []) @ wayData x ds"
  "wayData x (ds @ ds') = wayData x ds @ wayData x ds'"
  by (simp_all add: wayBytes_def wayData_def)

lemma flow_rel_bound: "flow_rel ds ns s \<Longrightarrow> unat (win (remoteWin (sndr s))) + wayBytes ds + sum_list (map unat ns) \<le> 2097152"
  by (simp add: flow_rel_def)

lemma flow_init: "established s \<Longrightarrow> flow_ok s \<and> flow_rel [] [] s"
  by (auto simp: established_def flow_ok_def flow_rel_def streamBuf_def)

lemma flow_send:
  assumes s: "flow_ok s" "flow_rel ds ns s"
    and w: "ext \<in> streams" "data \<noteq> []" "length data < 2 ^ 32" "sp = goMin (maxRemotePayload (sndr s)) (length data)"
      "reserveStart sel sp (remoteWin (sndr s)) = (w, Reserved m None) \<or>
        reserveWake sel sp (remoteWin (sndr s)) = (w, Reserved m None)"
      "writeChunk now ext m data ((sndr s)\<lparr>remoteWin := w\<rparr>, data_way s) = Ok ((a, ka), None)"
    and t: "t = s\<lparr>sndr := a, data_way := ka, wrote := (wrote s)(ext := wrote s ext @ take (unat m) data)\<rparr>"
  shows "flow_ok t \<and> flow_rel (ds @ [(ext, take (unat m) data)]) ns t"
proof -
  let ?c = "(sndr s)\<lparr>remoteWin := w\<rparr>"
  have mx: "maxRemotePayload (sndr s) = 32768" using s(1) by (simp add: flow_ok_def)
  have u: "unat sp = min 32768 (length data)" using unat_goMin [OF w(3), of 32768] w(4) mx by simp
  then have "0 < sp" using w(2) by (simp add: word_less_nat_alt)
  with reserve_granted [OF w(5)] u have m: "0 < unat m" "unat m \<le> 32768" "unat m \<le> length data"
    by (simp_all add: word_less_nat_alt word_le_nat_alt)
  have cons: "unat (win w) + unat m = unat (win (remoteWin (sndr s)))"
    using w(5) reserve_conserves(1) [of sel sp _ w "Reserved m None"]
      reserve_conserves(2) [of sel sp _ w "Reserved m None"] by auto
  have "unat m \<le> 2 ^ 31" "\<not> sentClose ?c" "conn_err (data_way s) = None" using m s(1) by (simp_all add: flow_ok_def)
  from writeChunk_ok [OF this, of now ext data] w(6) obtain i where
    a: "a = ?c\<lparr>idleW := i, sentClose := False\<rparr>"
      "ka = (data_way s)\<lparr>sent := sent (data_way s) @ [dataPacket (remoteId (sndr s)) ext (take (unat m) data)]\<rparr>"
    by auto
  have ok: "flow_ok t" using s(1) t a by (simp add: flow_ok_def)
  have "flow_rel (ds @ [(ext, take (unat m) data)]) ns t"
    using s m cons w(1,2) unfolding t a by (auto simp: flow_rel_def flow_ok_def)
  with ok show ?thesis ..
qed

lemma flow_blocked:
  assumes s: "flow_ok s" "flow_rel ds ns s"
    and w: "reserveStart sel sp (remoteWin (sndr s)) = (w, Waiting sp) \<or>
       reserveWake sel sp (remoteWin (sndr s)) = (w, Waiting sp)"
  shows "flow_ok (s\<lparr>sndr := (sndr s)\<lparr>remoteWin := w\<rparr>\<rparr>) \<and> flow_rel ds ns (s\<lparr>sndr := (sndr s)\<lparr>remoteWin := w\<rparr>\<rparr>)"
proof -
  have "unat (win w) = unat (win (remoteWin (sndr s)))"
    using w reserve_conserves(1) [of sel sp _ w "Waiting sp"] reserve_conserves(2) [of sel sp _ w "Waiting sp"] by auto
  with s show ?thesis by (simp add: flow_ok_def flow_rel_def)
qed

lemma flow_recv:
  assumes s: "flow_ok s" "flow_rel ds ns s" and p: "sent (data_way s) = p # ps"
  shows "\<exists>b e d ds'. handlePacket now pk ms p (rcvr s, adj_way s) = Ok ((b, adj_way s), [], HpNil) \<and>
     ds = (e, d) # ds' \<and>
     flow_ok (s\<lparr>data_way := (data_way s)\<lparr>sent := ps\<rparr>, rcvr := b\<rparr>) \<and>
     flow_rel ds' ns (s\<lparr>data_way := (data_way s)\<lparr>sent := ps\<rparr>, rcvr := b\<rparr>)"
proof -
  from s(2) p obtain e d ds' where ds: "ds = (e, d) # ds'" "p = dataPacket (remoteId (sndr s)) e d"
    "ps = map (\<lambda>(ext, d). dataPacket (remoteId (sndr s)) ext d) ds'"
    by (cases ds) (auto simp: flow_rel_def)
  from s(2) ds(1) have d: "d \<noteq> []" "length d \<le> unat (maxIncomingPayload (rcvr s))"
    "length d \<le> unat (myWindow (rcvr s))" "e \<in> streams"
    by (auto simp: flow_rel_def)
  from handlePacket_data [OF d, of now pk ms "remoteId (sndr s)" "adj_way s"] obtain b where
    b: "handlePacket now pk ms p (rcvr s, adj_way s) = Ok ((b, adj_way s), [], HpNil)"
      "myWindow b = myWindow (rcvr s) - word_of_nat (length d)" "maxIncomingPayload b = maxIncomingPayload (rcvr s)"
      "remoteId b = remoteId (rcvr s)" "sentClose b = sentClose (rcvr s)"
      "streamBuf e b = buf_write d (streamBuf e (rcvr s))" "\<forall>x\<in>streams - {e}. streamBuf x b = streamBuf x (rcvr s)"
    unfolding ds(2) by blast
  have "length d < 2 ^ 32" using d(2) s(1) by (simp add: flow_ok_def)
  then have u: "unat (myWindow b) = unat (myWindow (rcvr s)) - length d"
    using b(2) d(3) by (simp add: unat_sub word_le_nat_alt unat_of_nat)
  have inv: "bufInv (streamBuf e (rcvr s))" using s(2) d(4) by (simp add: flow_rel_def)
  note buf = bufq.inv_wr [OF inv, of d] bufq.abs_wr [OF inv, of d]
  have ok: "flow_ok (s\<lparr>data_way := (data_way s)\<lparr>sent := ps\<rparr>, rcvr := b\<rparr>)"
    using s(1) b by (simp add: flow_ok_def)
  have e: "e = 0 \<and> streamBuf 1 b = streamBuf 1 (rcvr s) \<or> e = 1 \<and> streamBuf 0 b = streamBuf 0 (rcvr s)"
    using d(4) b(7) by (auto simp: streams_def)
  have "flow_rel ds' ns (s\<lparr>data_way := (data_way s)\<lparr>sent := ps\<rparr>, rcvr := b\<rparr>)"
    using s(2) ds b buf u d(3) e by (auto simp: flow_rel_def streams_def)
  with ok ds(1) b(1) show ?thesis by blast
qed

lemma flow_read:
  assumes s: "flow_ok s" "flow_rel ds ns s" and ext: "ext \<in> streams"
    and r: "ReadExtended now len ext (rcvr s, adj_way s) = Ok ((b, kb), d, st)"
    and t: "t = s\<lparr>rcvr := b, adj_way := kb, got := (got s)(ext := got s ext @ d)\<rparr>"
  shows "flow_ok t \<and> flow_rel ds (ns @ (if d = [] then [] else [word_of_nat (length d)])) t"
proof -
  have "\<not> sentClose (rcvr s)" "conn_err (adj_way s) = None" "bufInv (streamBuf ext (rcvr s))"
    using s ext by (auto simp: flow_ok_def flow_rel_def)
  from ReadExtended_ok [OF this(1,2) ext this(3), of now len] r
  have b: "kb = (adj_way s)\<lparr>sent := sent (adj_way s) @
       (if d = [] then [] else [adjPacket (remoteId (rcvr s)) (word_of_nat (length d))])\<rparr>"
    "bufAbs (streamBuf ext (rcvr s)) = d @ bufAbs (streamBuf ext b)" "bufInv (streamBuf ext b)"
    "\<forall>e\<in>streams - {ext}. streamBuf e b = streamBuf e (rcvr s)"
    "myWindow b = myWindow (rcvr s) + word_of_nat (length d)"
    "maxIncomingPayload b = maxIncomingPayload (rcvr s)" "remoteId b = remoteId (rcvr s)" "\<not> sentClose b"
    by auto
  have e: "ext = 0 \<and> streamBuf 1 b = streamBuf 1 (rcvr s) \<or> ext = 1 \<and> streamBuf 0 b = streamBuf 0 (rcvr s)"
    using ext b(4) by (auto simp: streams_def)
  have sum: "unat (myWindow (rcvr s)) + length (bufAbs (streamBuf 0 (rcvr s))) + length (bufAbs (streamBuf 1 (rcvr s)))
      = 2097152" using s(2) by (simp add: flow_rel_def)
  have le: "unat (myWindow (rcvr s)) + length d \<le> 2097152"
    using e
  proof
    assume "ext = 0 \<and> streamBuf 1 b = streamBuf 1 (rcvr s)"
    then show ?thesis using sum b(2) by simp
  next
    assume "ext = 1 \<and> streamBuf 0 b = streamBuf 0 (rcvr s)"
    then show ?thesis using sum b(2) by simp
  qed
  have ud: "unat (word_of_nat (length d) :: u32) = length d" using le by (simp add: unat_of_nat)
  have "unat (myWindow (rcvr s) + word_of_nat (length d)) = unat (myWindow (rcvr s)) + length d"
    using le ud by (subst unat_add_lem [THEN iffD1]) simp_all
  then have u: "unat (myWindow b) = unat (myWindow (rcvr s)) + length d" using b(5) by simp
  have ok: "flow_ok t" using s(1) b t by (simp add: flow_ok_def)
  have "flow_rel ds (ns @ (if d = [] then [] else [word_of_nat (length d)])) t"
    using s(2) b u e ud unfolding t by (auto simp: flow_rel_def streams_def)
  with ok show ?thesis ..
qed

lemma flow_update:
  assumes s: "flow_ok s" "flow_rel ds ns s" and p: "sent (adj_way s) = p # ps"
  shows "\<exists>a ns'. handlePacket now pk ms p (sndr s, data_way s) = Ok ((a, data_way s), [], HpNil) \<and>
     flow_ok (s\<lparr>adj_way := (adj_way s)\<lparr>sent := ps\<rparr>, sndr := a\<rparr>) \<and>
     flow_rel ds ns' (s\<lparr>adj_way := (adj_way s)\<lparr>sent := ps\<rparr>, sndr := a\<rparr>)"
proof -
  from s(2) p obtain n ns' where ns: "ns = n # ns'" "p = adjPacket (remoteId (rcvr s)) n"
    "ps = map (adjPacket (remoteId (rcvr s))) ns'"
    by (cases ns) (auto simp: flow_rel_def)
  from flow_rel_bound [OF s(2)] ns(1) have "unat (win (remoteWin (sndr s))) + unat n < 2 ^ 32" by simp
  from handlePacket_adj [OF this, of now pk ms "remoteId (rcvr s)" "data_way s"] obtain i w where
    h: "handlePacket now pk ms p (sndr s, data_way s) =
      Ok (((sndr s)\<lparr>idleR := i, remoteWin := w\<rparr>, data_way s), [], HpNil)"
      "unat (win w) = unat (win (remoteWin (sndr s))) + unat n"
    unfolding ns(2) by blast
  have "flow_ok (s\<lparr>adj_way := (adj_way s)\<lparr>sent := ps\<rparr>, sndr := (sndr s)\<lparr>idleR := i, remoteWin := w\<rparr>\<rparr>)"
    "flow_rel ds ns' (s\<lparr>adj_way := (adj_way s)\<lparr>sent := ps\<rparr>, sndr := (sndr s)\<lparr>idleR := i, remoteWin := w\<rparr>\<rparr>)"
    using s ns h(2) by (auto simp: flow_ok_def flow_rel_def)
  with h(1) show ?thesis by blast
qed

definition flow_inv :: "flow \<Rightarrow> bool" where
  "flow_inv s \<longleftrightarrow> flow_ok s \<and> (\<exists>ds ns. flow_rel ds ns s)"

lemma flow_rel_failed [simp]: "flow_rel ds ns (s\<lparr>failed := x\<rparr>) = flow_rel ds ns s"
  by (simp add: flow_rel_def)

lemma flowStep_inv: "flowStep s t \<Longrightarrow> flow_inv s \<Longrightarrow> flow_inv t"
proof (induction rule: flowStep.induct)
  case (send ext data sp s sel w m now a ka)
  then show ?case using flow_send [OF _ _ send(1-6) refl] unfolding flow_inv_def by blast
next
  case (blocked sel sp s w)
  then show ?case using flow_blocked [OF _ _ blocked(1)] unfolding flow_inv_def by blast
next
  case (recv s p ps now pk ms b kb rm r)
  then obtain ds ns where i: "flow_ok s" "flow_rel ds ns s" by (auto simp: flow_inv_def)
  from flow_recv [OF i recv(1), of now pk ms] recv(2) i(1)
  show ?case by (fastforce simp: flow_inv_def flow_ok_def)
next
  case (recv_panic s p ps now pk ms x)
  then obtain ds ns where "flow_ok s" "flow_rel ds ns s" by (auto simp: flow_inv_def)
  from flow_recv [OF this recv_panic(1), of now pk ms] recv_panic(2) show ?case by auto
next
  case (read ext now len s b kb d st)
  then show ?case using flow_read [OF _ _ read(1,2) refl] unfolding flow_inv_def by blast
next
  case (update s p ps now pk ms a ka rm r)
  then obtain ds ns where i: "flow_ok s" "flow_rel ds ns s" by (auto simp: flow_inv_def)
  from flow_update [OF i update(1), of now pk ms] update(2) i(1)
  show ?case by (fastforce simp: flow_inv_def flow_ok_def)
next
  case (update_panic s p ps now pk ms x)
  then obtain ds ns where "flow_ok s" "flow_rel ds ns s" by (auto simp: flow_inv_def)
  from flow_update [OF this update_panic(1), of now pk ms] update_panic(2) show ?case by auto
qed

lemma flow_reach_inv:
  assumes "established s0" "flowStep\<^sup>*\<^sup>* s0 s"
  shows "flow_inv s"
  using assms(2)
proof (induction rule: rtranclp_induct)
  case base
  then show ?case using flow_init [OF assms(1)] by (auto simp: flow_inv_def)
next
  case (step s t)
  then show ?case by (blast intro: flowStep_inv)
qed

text \<open>A freshly established pair, for the witnesses.\<close>

definition freshEnd :: channel where
  "freshEnd = (case newChannel ''session'' ChannelInbound [] 0 of
     Ok c \<Rightarrow> c\<lparr>maxIncomingPayload := channelMaxPacket, maxRemotePayload := channelMaxPacket,
        remoteWin := snd (window_add channelWindowSize (remoteWin c)), decided := True\<rparr>)"

definition freshFlow :: flow where
  "freshFlow = \<lparr>sndr = freshEnd, data_way = \<lparr>sent = [], conn_err = None\<rparr>, rcvr = freshEnd,
     adj_way = \<lparr>sent = [], conn_err = None\<rparr>, wrote = (\<lambda>_. []), got = (\<lambda>_. []), failed = False\<rparr>"

lemma freshEnd_simps [simp]:
  "win (remoteWin freshEnd) = 2097152" "win_closed (remoteWin freshEnd) = False" "myWindow freshEnd = 2097152"
  "maxRemotePayload freshEnd = 32768" "maxIncomingPayload freshEnd = 32768" "sentClose freshEnd = False"
  "pending freshEnd = newBuffer" "extPending freshEnd = newBuffer" "sentEOF freshEnd = False" "remoteId freshEnd = 0"
  by (simp_all add: freshEnd_def newChannel_def NewIdleTimer_def AddTimeoutCallback_def window_add_def)

lemma established_fresh: "established freshFlow"
  by (simp add: established_def freshFlow_def)

text \<open>The sender can use up its window, one full packet at a time.\<close>

lemma fresh_fill:
  "n \<le> 64 \<Longrightarrow> \<exists>s. flowStep\<^sup>*\<^sup>* freshFlow s \<and>
     unat (win (remoteWin (sndr s))) = 2097152 - 32768 * n \<and> \<not> win_closed (remoteWin (sndr s))"
proof (induction n)
  case 0
  show ?case by (rule exI [of _ freshFlow]) (simp add: freshFlow_def)
next
  case (Suc n)
  then obtain s where s: "flowStep\<^sup>*\<^sup>* freshFlow s"
    "unat (win (remoteWin (sndr s))) = 2097152 - 32768 * n" "\<not> win_closed (remoteWin (sndr s))" by auto
  let ?w = "remoteWin (sndr s)" and ?d = "replicate 32768 (0 :: byte)"
  let ?w' = "?w\<lparr>win := win ?w - 32768\<rparr>"
  have ok: "flow_ok s" using flow_reach_inv [OF established_fresh s(1)] by (simp add: flow_inv_def)
  have ge: "32768 \<le> win ?w" using s(2) Suc.prems by (simp add: word_le_nat_alt)
  then have "win ?w \<noteq> 0" by (auto simp: word_le_nat_alt)
  then have r: "reserveStart (SelTimedOut []) 32768 ?w = (?w', Reserved 32768 None)"
    using ge s(3) by (auto simp: reserveStart_def reserveCheck_def reserveFinish_def Let_def)
  have "unat (32768 :: u32) \<le> 2 ^ 31" "\<not> sentClose ((sndr s)\<lparr>remoteWin := ?w'\<rparr>)" "conn_err (data_way s) = None"
    using ok by (simp_all add: flow_ok_def)
  from writeChunk_ok [OF this, of 0 0 ?d] obtain i ka where
    c: "writeChunk 0 0 32768 ?d ((sndr s)\<lparr>remoteWin := ?w'\<rparr>, data_way s) =
      Ok (((sndr s)\<lparr>remoteWin := ?w', idleW := i, sentClose := False\<rparr>, ka), None)" by auto
  have "flowStep s (s\<lparr>sndr := (sndr s)\<lparr>remoteWin := ?w', idleW := i, sentClose := False\<rparr>, data_way := ka,
      wrote := (wrote s)(0 := wrote s 0 @ take (unat (32768 :: u32)) ?d)\<rparr>)" (is "flowStep s ?t")
    by (rule flowStep.send [OF _ _ _ _ disjI1 [OF r] c])
      (use ok in \<open>simp_all add: streams_def goMin_def flow_ok_def\<close>)
  with s(1) have "flowStep\<^sup>*\<^sup>* freshFlow ?t" by (rule rtranclp.rtrancl_into_rtrancl)
  moreover have "unat (win ?w - 32768) = 2097152 - 32768 * Suc n" using ge s(2) by (simp add: unat_sub)
  ultimately show ?case using s(3) by (intro exI [of _ ?t]) simp
qed

section \<open>Properties\<close>

text \<open>C3: Flow control works end to end. However writes, packet deliveries, reads and window updates
  interleave, no handler ever reports an error, so the receiver never sees more data than its window
  and the sender's window never overflows; on each stream the bytes written are the bytes returned to
  the reader, then the bytes buffered, then the bytes under way, in order and without loss or
  duplication; and what is buffered or under way stays within the channel window.\<close>

theorem flow_control_sound:
  assumes "established s0" "flowStep\<^sup>*\<^sup>* s0 s"
  shows "\<not> failed s \<and>
    (\<exists>way. (\<forall>ext\<in>streams. wrote s ext = got s ext @ bufAbs (streamBuf ext (rcvr s)) @ wayData ext way) \<and>
       sent (data_way s) = map (\<lambda>(ext, d). dataPacket (remoteId (sndr s)) ext d) way \<and>
       length (bufAbs (streamBuf 0 (rcvr s))) + length (bufAbs (streamBuf 1 (rcvr s))) + wayBytes way
         + unat (win (remoteWin (sndr s))) \<le> unat channelWindowSize)"
proof -
  from flow_reach_inv [OF assms] obtain ds ns where "flow_ok s" "flow_rel ds ns s" by (auto simp: flow_inv_def)
  then show ?thesis by (intro conjI exI [of _ ds]) (auto simp: flow_ok_def flow_rel_def)
qed

theorem flow_control_sound_witness:
  "\<exists>s. flowStep\<^sup>*\<^sup>* freshFlow s \<and> wrote s 0 = [7] \<and> \<not> failed s"
proof -
  let ?c = "freshEnd\<lparr>remoteWin := (remoteWin freshEnd)\<lparr>win := 2097151\<rparr>\<rparr>"
  have w: "reserveStart (SelTimedOut []) 1 (remoteWin (sndr freshFlow)) =
      ((remoteWin freshEnd)\<lparr>win := 2097151\<rparr>, Reserved 1 None)"
    by (simp add: freshFlow_def reserveStart_def reserveCheck_def reserveFinish_def Let_def)
  have "unat (1 :: u32) \<le> 2 ^ 31" "\<not> sentClose ?c" "conn_err (data_way freshFlow) = None"
    by (simp_all add: freshFlow_def)
  from writeChunk_ok [OF this, of 0 0 "[7]"] obtain a ka where
    c: "writeChunk 0 0 1 [7] (?c, data_way freshFlow) = Ok ((a, ka), None)" by blast
  let ?t = "freshFlow\<lparr>sndr := a, data_way := ka,
     wrote := (wrote freshFlow)(0 := wrote freshFlow 0 @ take (unat (1 :: u32)) [7])\<rparr>"
  have "flowStep freshFlow ?t"
    using w c by (intro flowStep.send [of 0 "[7]" 1 freshFlow "SelTimedOut []" "(remoteWin freshEnd)\<lparr>win := 2097151\<rparr>" 1 0])
      (simp_all add: streams_def goMin_def freshFlow_def)
  then have r: "flowStep\<^sup>*\<^sup>* freshFlow ?t" by (rule r_into_rtranclp)
  from flow_control_sound [OF established_fresh r] have "\<not> failed ?t" ..
  with r show ?thesis by (intro exI [of _ ?t]) (simp add: freshFlow_def)
qed

text \<open>C19: Flow control does not deadlock: whenever the sender's window is used up, there is a data packet
  or a window update still to be handled, or there are bytes for the receiver to read, which
  will send the next window update.\<close>

theorem flow_control_no_deadlock:
  assumes "established s0" "flowStep\<^sup>*\<^sup>* s0 s" "win (remoteWin (sndr s)) = 0"
  shows "sent (data_way s) \<noteq> [] \<or> sent (adj_way s) \<noteq> [] \<or>
    bufAbs (streamBuf 0 (rcvr s)) \<noteq> [] \<or> bufAbs (streamBuf 1 (rcvr s)) \<noteq> []"
proof -
  from flow_reach_inv [OF assms(1,2)] obtain ds ns where "flow_rel ds ns s" by (auto simp: flow_inv_def)
  then show ?thesis using assms(3) by (cases ds; cases ns) (auto simp: flow_rel_def)
qed

theorem flow_control_no_deadlock_witness:
  "\<exists>s. flowStep\<^sup>*\<^sup>* freshFlow s \<and> win (remoteWin (sndr s)) = 0 \<and>
     (sent (data_way s) \<noteq> [] \<or> sent (adj_way s) \<noteq> [] \<or>
      bufAbs (streamBuf 0 (rcvr s)) \<noteq> [] \<or> bufAbs (streamBuf 1 (rcvr s)) \<noteq> [])"
proof -
  obtain s where s: "flowStep\<^sup>*\<^sup>* freshFlow s" "unat (win (remoteWin (sndr s))) = 0"
    using fresh_fill [of 64] by auto
  then have z: "win (remoteWin (sndr s)) = 0" by (simp add: unat_eq_0)
  from flow_control_no_deadlock [OF established_fresh s(1) z] s(1) z show ?thesis by blast
qed

text \<open>C20: A write is cut into data packets that the peer accepts: each carries between one byte and the
  peer's maximum packet size, in order they carry the data up to the returned count, a write
  without error has sent everything, and the loop ends or waits for window: as many iterations as
  there are bytes are always enough.\<close>

theorem WriteExtended_packets:
  assumes "\<not> sentEOF c" "length data < 2 ^ 32" "0 < maxRemotePayload c" "unat (maxRemotePayload c) \<le> 2 ^ 31"
  shows "\<exists>c' k' st ds. WriteExtended (length data) now sel data ext (c, k) = Ok ((c', k'), st) \<and>
     sent k' = sent k @ map (dataPacket (remoteId c) ext) ds \<and>
     (\<forall>d\<in>set ds. 0 < length d \<and> length d \<le> unat (maxRemotePayload c)) \<and>
     (case st of
        WReturn n e \<Rightarrow> concat ds = take n data \<and> n = length (concat ds) \<and> (e = None \<longrightarrow> concat ds = data)
      | WWait n rest sp \<Rightarrow> data = concat ds @ rest \<and> n = length (concat ds) \<and> rest \<noteq> []
      | WFuel \<Rightarrow> False)"
proof (cases "data = []")
  case True
  let ?c = "c\<lparr>idleW := AttemptOK (BeginAttempt (idleW c) now) now\<rparr>"
  show ?thesis using True assms(1)
    by (intro exI [of _ ?c] exI [of _ k] exI [of _ "WReturn 0 None"] exI [of _ "[]"])
      (simp add: WriteExtended_def Let_def writeEnd_def)
next
  case False
  let ?c1 = "c\<lparr>idleW := BeginAttempt (idleW c) now\<rparr>"
  let ?wr = "reserveStart (sel 0) (goMin (maxRemotePayload ?c1) (length data)) (remoteWin ?c1)"
  have g: "goodReserve (unat (maxRemotePayload ?c1)) (length data) (snd ?wr)"
    by (rule goodReserve_start) (use False assms in simp_all)
  have "0 < maxRemotePayload ?c1" "unat (maxRemotePayload ?c1) \<le> 2 ^ 31" using assms by simp_all
  from writeFrom_chunks [OF False assms(2) this g, of "length data" now sel ext 0 k]
  obtain c2 k2 st ds where w: "writeFrom (length data) now sel ext data 0 ?wr (?c1, k) = Ok ((c2, k2), st)"
    "sent k2 = sent k @ map (dataPacket (remoteId c) ext) ds"
    "chunksOK (length data) (unat (maxRemotePayload c)) 0 data ds st" by auto
  have "\<exists>c'. writeEnd now ((c2, k2), st) = ((c', k2), st)"
    by (cases "\<exists>n. st = WReturn n None") (auto simp: writeEnd_def split: writeStatus.splits option.splits)
  then obtain c' where e: "writeEnd now ((c2, k2), st) = ((c', k2), st)" ..
  have "WriteExtended (length data) now sel data ext (c, k) = Ok ((c', k2), st)"
    using False assms(1) w(1) e by (simp add: WriteExtended_def Let_def)
  then show ?thesis using w(2,3)
    by (intro exI [of _ c'] exI [of _ k2] exI [of _ st] exI [of _ ds])
      (auto simp: chunksOK_def split: writeStatus.splits)
qed

theorem WriteExtended_packets_witness:
  "\<exists>c' k' st ds. WriteExtended 2 0 (\<lambda>_. SelTimedOut []) [1, 2] 0 (freshEnd, \<lparr>sent = [], conn_err = None\<rparr>) =
     Ok ((c', k'), st) \<and> sent k' = map (dataPacket 0 0) ds \<and> (\<forall>d\<in>set ds. 0 < length d)"
proof -
  have "\<not> sentEOF freshEnd" "length [1, 2 :: byte] < 2 ^ 32" "0 < maxRemotePayload freshEnd"
    "unat (maxRemotePayload freshEnd) \<le> 2 ^ 31" by simp_all
  from WriteExtended_packets [OF this, of 0 "\<lambda>_. SelTimedOut []" 0 "\<lparr>sent = [], conn_err = None\<rparr>"]
  show ?thesis by (force simp: numeral_2_eq_2)
qed

end
