(* ===== verification/Mux.thy ===== *)
theory Mux
  imports FlowControl
begin

text \<open>
  The connection protocol multiplexer (\<open>src/mux.go\<close>). Channels are shared between the channel
  list, which the packet loop uses, and the users that hold them, so they live in a store indexed by
  their address. The packet loop is the only reader of the connection: \<open>onePacket\<close> is one of its
  iterations on a packet that was read. The locale \<open>id_table\<close> is the contract of a table that
  assigns its own keys; it is interpreted on the channel list.
\<close>

section \<open>The channel list\<close>

record 'c chanList =
  chans :: "'c option list"
  offset :: u32

fun firstFree :: "'c option list \<Rightarrow> nat option" where
  "firstFree [] = None"
| "firstFree (None # cs) = Some 0"
| "firstFree (Some c # cs) = map_option Suc (firstFree cs)"

definition cl_add :: "'c \<Rightarrow> 'c chanList \<Rightarrow> u32 \<times> 'c chanList" where
  "cl_add ch l =
     (case firstFree (chans l) of
        Some i \<Rightarrow> (word_of_nat i + offset l, l\<lparr>chans := (chans l)[i := Some ch]\<rparr>)
      | None \<Rightarrow> (word_of_nat (length (chans l)) + offset l, l\<lparr>chans := chans l @ [Some ch]\<rparr>))"

definition getChan :: "u32 \<Rightarrow> 'c chanList \<Rightarrow> 'c option" where
  "getChan i l =
     (let j = i - offset l in
      if j < word_of_nat (length (chans l)) then chans l ! unat j else None)"

definition cl_remove :: "u32 \<Rightarrow> 'c chanList \<Rightarrow> 'c chanList" where
  "cl_remove i l =
     (let j = i - offset l in
      if j < word_of_nat (length (chans l)) then l\<lparr>chans := (chans l)[unat j := None]\<rparr> else l)"

definition dropAll :: "'c chanList \<Rightarrow> 'c list \<times> 'c chanList" where
  "dropAll l = (map the (filter (\<lambda>c. c \<noteq> None) (chans l)), l\<lparr>chans := []\<rparr>)"

section \<open>A table that assigns its keys\<close>

text \<open>
  \<open>Inl c\<close> adds \<open>c\<close>, \<open>Inr k\<close> removes the key \<open>k\<close>; a run returns the keys that its
  additions were given. The reference is a map in which an addition takes the free key of least rank.
\<close>

fun tableRun :: "('c \<Rightarrow> 't \<Rightarrow> 'k \<times> 't) \<Rightarrow> ('k \<Rightarrow> 't \<Rightarrow> 't) \<Rightarrow> ('c + 'k) list \<Rightarrow> 't \<Rightarrow> 'k list \<times> 't" where
  "tableRun add rm [] t = ([], t)"
| "tableRun add rm (Inl c # ops) t =
     (let (k, t1) = add c t; (ks, t2) = tableRun add rm ops t1 in (k # ks, t2))"
| "tableRun add rm (Inr k # ops) t = tableRun add rm ops (rm k t)"

inductive mapRun :: "('k \<Rightarrow> nat) \<Rightarrow> ('c + 'k) list \<Rightarrow> ('k \<rightharpoonup> 'c) \<Rightarrow> 'k list \<Rightarrow> ('k \<rightharpoonup> 'c) \<Rightarrow> bool"
  for rank :: "'k \<Rightarrow> nat" where
  nil: "mapRun rank [] m [] m"
| add: "m k = None \<Longrightarrow> (\<And>j. m j = None \<Longrightarrow> rank k \<le> rank j) \<Longrightarrow> mapRun rank ops (m(k \<mapsto> c)) ks m' \<Longrightarrow>
    mapRun rank (Inl c # ops) m (k # ks) m'"
| rm: "mapRun rank ops (m(k := None)) ks m' \<Longrightarrow> mapRun rank (Inr k # ops) m ks m'"

locale id_table =
  fixes tadd :: "'c \<Rightarrow> 't \<Rightarrow> 'k \<times> 't" and tget :: "'k \<Rightarrow> 't \<Rightarrow> 'c option" and trm :: "'k \<Rightarrow> 't \<Rightarrow> 't"
    and room :: "'t \<Rightarrow> nat" and trank :: "'t \<Rightarrow> 'k \<Rightarrow> nat"
  assumes add_fresh: "0 < room t \<Longrightarrow> tadd c t = (k, t') \<Longrightarrow> tget k t = None"
    and add_least: "0 < room t \<Longrightarrow> tadd c t = (k, t') \<Longrightarrow> tget j t = None \<Longrightarrow> trank t k \<le> trank t j"
    and add_get: "0 < room t \<Longrightarrow> tadd c t = (k, t') \<Longrightarrow> tget j t' = (if j = k then Some c else tget j t)"
    and add_room: "0 < room t \<Longrightarrow> tadd c t = (k, t') \<Longrightarrow> room t \<le> Suc (room t')"
    and add_rank: "0 < room t \<Longrightarrow> tadd c t = (k, t') \<Longrightarrow> trank t' = trank t"
    and rm_get: "tget j (trm k t) = (if j = k then None else tget j t)"
    and rm_room: "room t \<le> room (trm k t)"
    and rm_rank: "trank (trm k t) = trank t"
begin

lemma run_refines:
  "length ops \<le> room t \<Longrightarrow> tableRun tadd trm ops t = (ks, t') \<Longrightarrow>
   mapRun (trank t) ops (\<lambda>k. tget k t) ks (\<lambda>k. tget k t') \<and> trank t' = trank t"
proof (induction ops arbitrary: t ks)
  case Nil
  then show ?case by (simp add: mapRun.nil)
next
  case (Cons op ops)
  show ?case
  proof (cases op)
    case (Inl c)
    obtain k t1 where a: "tadd c t = (k, t1)" by fastforce
    obtain ks1 where r1: "tableRun tadd trm ops t1 = (ks1, t')" "ks = k # ks1"
      using Cons.prems(2) by (auto simp: Inl a split: prod.splits)
    have r: "0 < room t" using Cons.prems by simp
    have "length ops \<le> room t1" using add_room [OF r a] Cons.prems by simp
    from Cons.IH [OF this r1(1)]
    have "mapRun (trank t) ops ((\<lambda>j. tget j t)(k \<mapsto> c)) ks1 (\<lambda>j. tget j t')" "trank t' = trank t"
      by (simp_all add: add_get [OF r a] add_rank [OF r a] fun_upd_def)
    with add_fresh [OF r a] add_least [OF r a] show ?thesis by (simp add: Inl r1(2) mapRun.add)
  next
    case (Inr k)
    have "length ops \<le> room (trm k t)" using rm_room [of t k] Cons.prems by simp
    from Cons.IH [OF this] Cons.prems(2)
    have "mapRun (trank t) ops ((\<lambda>j. tget j t)(k := None)) ks (\<lambda>j. tget j t')" "trank t' = trank t"
      by (simp_all add: Inr rm_get rm_rank fun_upd_def)
    then show ?thesis by (simp add: Inr mapRun.rm)
  qed
qed

end

text \<open>The list can grow while its length fits in 32 bits.\<close>

definition cl_room :: "'c chanList \<Rightarrow> nat" where
  "cl_room l = 2 ^ 32 - 1 - length (chans l)"

definition cl_rank :: "'c chanList \<Rightarrow> u32 \<Rightarrow> nat" where
  "cl_rank l i = unat (i - offset l)"

lemma firstFree_Some: "firstFree cs = Some i \<Longrightarrow> i < length cs \<and> cs ! i = None \<and> (\<forall>j < i. cs ! j \<noteq> None)"
proof (induction cs arbitrary: i rule: firstFree.induct)
  case (3 c cs)
  then show ?case by (auto simp: nth_Cons split: nat.splits)
qed auto

lemma firstFree_None: "firstFree cs = None \<Longrightarrow> j < length cs \<Longrightarrow> cs ! j \<noteq> None"
  by (induction cs arbitrary: j rule: firstFree.induct) (auto simp: nth_Cons split: nat.splits)

lemma unat_length_u32: "length cs < 2 ^ 32 \<Longrightarrow> unat (word_of_nat (length cs) :: u32) = length cs"
  by (simp add: unat_of_nat)

lemma getChan_nth:
  assumes "length (chans l) < 2 ^ 32"
  shows "getChan i l = (if unat (i - offset l) < length (chans l) then chans l ! unat (i - offset l) else None)"
  using unat_length_u32 [OF assms] by (simp add: getChan_def Let_def word_less_nat_alt)

lemma cl_remove_nth:
  assumes "length (chans l) < 2 ^ 32"
  shows "cl_remove i l = (if unat (i - offset l) < length (chans l)
     then l\<lparr>chans := (chans l)[unat (i - offset l) := None]\<rparr> else l)"
  using unat_length_u32 [OF assms] by (simp add: cl_remove_def Let_def word_less_nat_alt)

lemma cl_remove_chans [simp]:
  "length (chans (cl_remove i l)) = length (chans l)" "offset (cl_remove i l) = offset l"
  by (simp_all add: cl_remove_def Let_def)

lemma id_eq_iff:
  fixes i b :: u32
  assumes "n < 2 ^ 32"
  shows "i = word_of_nat n + b \<longleftrightarrow> unat (i - b) = n"
proof
  assume "i = word_of_nat n + b"
  then show "unat (i - b) = n" using assms by (simp add: unat_of_nat)
next
  assume "unat (i - b) = n"
  then have "i - b = word_of_nat n" by auto
  then show "i = word_of_nat n + b" by (simp add: diff_eq_eq)
qed

text \<open>Where \<open>add\<close> puts a channel.\<close>

lemma cl_add_cases:
  assumes "cl_add c l = (k, l')" "length (chans l) < 2 ^ 32 - 1"
  shows "\<exists>n. n \<le> length (chans l) \<and> k = word_of_nat n + offset l \<and> unat (k - offset l) = n \<and>
    (n < length (chans l) \<longrightarrow> chans l ! n = None) \<and> (\<forall>j < n. chans l ! j \<noteq> None) \<and> offset l' = offset l \<and>
    length (chans l') = (if n < length (chans l) then length (chans l) else Suc (length (chans l))) \<and>
    (\<forall>j < length (chans l'). chans l' ! j = (if j = n then Some c else chans l ! j))"
proof (cases "firstFree (chans l)")
  case None
  let ?n = "length (chans l)"
  have "k = word_of_nat ?n + offset l" "l' = l\<lparr>chans := chans l @ [Some c]\<rparr>"
    using assms None by (simp_all add: cl_add_def)
  then show ?thesis using assms(2) id_eq_iff [of ?n k "offset l"] firstFree_None [OF None]
    by (intro exI [of _ ?n]) (auto simp: nth_append)
next
  case (Some i)
  have "k = word_of_nat i + offset l" "l' = l\<lparr>chans := (chans l)[i := Some c]\<rparr>"
    using assms Some by (simp_all add: cl_add_def)
  then show ?thesis using assms(2) id_eq_iff [of i k "offset l"] firstFree_Some [OF Some]
    by (intro exI [of _ i]) (auto simp: nth_list_update)
qed

interpretation chtab: id_table cl_add getChan cl_remove cl_room cl_rank
proof
  fix l l' :: "'c chanList" and c k
  assume room: "0 < cl_room l" and a: "cl_add c l = (k, l')"
  from room have len: "length (chans l) < 2 ^ 32 - 1" by (simp add: cl_room_def)
  then have len32: "length (chans l) < 2 ^ 32" by simp
  from cl_add_cases [OF a len] obtain n where
    n: "n \<le> length (chans l)" "k = word_of_nat n + offset l" "unat (k - offset l) = n"
      "n < length (chans l) \<longrightarrow> chans l ! n = None" "offset l' = offset l"
      "length (chans l') = (if n < length (chans l) then length (chans l) else Suc (length (chans l)))"
      "\<forall>j < length (chans l'). chans l' ! j = (if j = n then Some c else chans l ! j)"
      "\<forall>j < n. chans l ! j \<noteq> None"
    by blast
  show "getChan k l = None" using n(3,4) by (simp add: getChan_nth [OF len32])
  show "cl_rank l' = cl_rank l" using n(5) by (simp add: cl_rank_def fun_eq_iff)
  show "cl_rank l k \<le> cl_rank l j" if "getChan j l = None" for j
    using that n(1,3,8) by (auto simp: cl_rank_def getChan_nth [OF len32] not_less [symmetric] split: if_splits)
  show "cl_room l \<le> Suc (cl_room l')" using n(6) by (auto simp: cl_room_def split: if_splits)
  fix j
  have len32': "length (chans l') < 2 ^ 32" using n(6) len by simp
  have "j = k \<longleftrightarrow> unat (j - offset l) = n" using id_eq_iff [of n j "offset l"] n(1,2) len32 by simp
  moreover have "unat (j - offset l) < length (chans l') \<Longrightarrow> unat (j - offset l) \<noteq> n \<Longrightarrow> unat (j - offset l) < length (chans l)"
    using n(1,6) by (simp split: if_splits)
  ultimately show "getChan j l' = (if j = k then Some c else getChan j l)"
    using n(1,5,6,7) by (auto simp: getChan_nth [OF len32] getChan_nth [OF len32'])
next
  fix j k and l :: "'c chanList"
  have "unat (word_of_nat (length (chans l)) :: u32) \<le> length (chans l)" by (simp add: unat_of_nat)
  moreover have "j = k \<longleftrightarrow> unat (j - offset l) = unat (k - offset l)"
    using word_unat_eq_iff [of "j - offset l" "k - offset l"] by simp
  ultimately show "getChan j (cl_remove k l) = (if j = k then None else getChan j l)"
    by (auto simp: getChan_def cl_remove_def Let_def word_less_nat_alt nth_list_update)
  show "cl_room l \<le> cl_room (cl_remove k l)" by (simp add: cl_room_def)
  show "cl_rank (cl_remove k l) = cl_rank l" by (simp add: cl_rank_def fun_eq_iff)
qed

lemma tableRun_length:
  "tableRun cl_add cl_remove ops l = (ids, l') \<Longrightarrow> length (chans l') \<le> length ops + length (chans l)"
proof (induction ops arbitrary: l ids)
  case (Cons op ops)
  have a: "length (chans (snd (cl_add c l))) \<le> Suc (length (chans l))" for c
    by (simp add: cl_add_def split: option.splits)
  show ?case
  proof (cases op)
    case (Inl c)
    then show ?thesis using Cons a [of c] by (fastforce split: prod.splits)
  next
    case (Inr k)
    then show ?thesis using Cons by fastforce
  qed
qed simp

text \<open>What \<open>dropAll\<close> returns, in the order of the identifiers.\<close>

lemma dropAll_slots:
  assumes "length (chans l) \<le> n" "n < 2 ^ 32"
  shows "fst (dropAll l) = List.map_filter (\<lambda>i. getChan (word_of_nat i + offset l) l) [0..<n]"
proof -
  have g: "getChan (word_of_nat i + offset l) l = (if i < length (chans l) then chans l ! i else None)" if "i < n" for i
    using that assms getChan_nth [of l "word_of_nat i + offset l"] by (simp add: unat_of_nat)
  have e: "List.map_filter (\<lambda>i. if i < length cs then cs ! i else None) [0..<length cs + k] = map the (filter (\<lambda>c. c \<noteq> None) cs)"
    for cs :: "'b option list" and k
  proof (induction k)
    case 0
    have "List.map_filter (\<lambda>i. if i < length cs then cs ! i else None) [0..<length cs] = List.map_filter id (map ((!) cs) [0..<length cs])"
      by (auto simp: map_filter_def filter_map o_def intro!: map_cong filter_cong)
    then show ?case by (simp only: map_nth) (simp add: map_filter_def)
  next
    case (Suc k)
    then show ?case by (simp add: map_filter_def)
  qed
  obtain k where k: "n = length (chans l) + k" using assms(1) le_Suc_ex by blast
  have "List.map_filter (\<lambda>i. getChan (word_of_nat i + offset l) l) [0..<n] =
      List.map_filter (\<lambda>i. if i < length (chans l) then chans l ! i else None) [0..<n]"
    unfolding map_filter_def by (intro map_cong filter_cong refl) (auto simp: g simp del: upt_Suc)
  then show ?thesis unfolding k e by (simp add: dropAll_def)
qed

section \<open>The mux\<close>

record mux =
  mconn :: conn
  conn_shut :: bool
  cstore :: "nat \<Rightarrow> channel"
  nextAddr :: nat
  clist :: "nat chanList"
  incoming :: "nat list"
  incoming_closed :: bool
  gresp :: "message list"
  gresp_closed :: bool
  mreqs :: "Request list"
  mreqs_closed :: bool
  mux_err :: "gerror option"
  mux_stop :: bool

definition newMux :: "conn \<Rightarrow> (nat \<Rightarrow> channel) \<Rightarrow> mux" where
  "newMux p st = \<lparr>mconn = p, conn_shut = False, cstore = st, nextAddr = 0,
     clist = \<lparr>chans = [], offset = 0\<rparr>, incoming = [], incoming_closed = False,
     gresp = [], gresp_closed = False, mreqs = [], mreqs_closed = False, mux_err = None, mux_stop = False\<rparr>"

definition mux_newChannel ::
    "string \<Rightarrow> channelDirection \<Rightarrow> bytes \<Rightarrow> mux \<Rightarrow> (nat \<times> mux) res" where
  "mux_newChannel ct dir extra m =
     (let a = nextAddr m; (lid, cl) = cl_add a (clist m) in
      res_bind (newChannel ct dir extra lid) (\<lambda>c.
        Ok (a, m\<lparr>cstore := (cstore m)(a := c), nextAddr := a + 1, clist := cl\<rparr>)))"

definition mux_sendMessage :: "message \<Rightarrow> mux \<Rightarrow> (mux \<times> gerror option) res" where
  "mux_sendMessage msg m =
     res_bind (MarshalMsg msg) (\<lambda>p. case connWrite p (mconn m) of (k, e) \<Rightarrow> Ok (m\<lparr>mconn := k\<rparr>, e))"

definition mux_ackRequest :: "bool \<Rightarrow> bytes \<Rightarrow> mux \<Rightarrow> (mux \<times> gerror option) res" where
  "mux_ackRequest ok data m =
     (if ok then mux_sendMessage (GlobalRequestSuccessMsg data) m
      else mux_sendMessage (GlobalRequestFailureMsg data) m)"

text \<open>
  A global request. The caller that wants a reply then takes a response, or gives up when the mux
  stops or its context is done; \<open>None\<close> is a caller that blocks.
\<close>

definition globalReply ::
    "bool \<Rightarrow> bool \<Rightarrow> mux \<Rightarrow> mux \<times> (bool \<times> bytes \<times> gerror option) option" where
  "globalReply takeResp ctxDone m =
     (if takeResp then
        (case gresp m of
           [] \<Rightarrow> (m, if gresp_closed m then Some (False, [], Some IoEOF) else None)
         | r # rs \<Rightarrow>
             (m\<lparr>gresp := rs\<rparr>,
              Some (case r of
                  GlobalRequestFailureMsg d \<Rightarrow> (False, d, None)
                | GlobalRequestSuccessMsg d \<Rightarrow> (True, d, None)
                | _ \<Rightarrow> (False, [], Some (Errorf ''ssh: unexpected response to request: %#v'' [] [])))))
      else (m, if mux_stop m \<or> ctxDone then Some (False, [], Some IoEOF) else None))"

definition mux_SendRequest ::
    "bool \<Rightarrow> bool \<Rightarrow> string \<Rightarrow> bool \<Rightarrow> bytes \<Rightarrow> mux \<Rightarrow>
       (mux \<times> (bool \<times> bytes \<times> gerror option) option) res" where
  "mux_SendRequest takeResp ctxDone name wantReply payload m =
     res_bind (mux_sendMessage (GlobalRequestMsg name wantReply payload) m) (\<lambda>(m1, e).
       case e of
         Some err \<Rightarrow> Ok (m1, Some (False, [], Some err))
       | None \<Rightarrow>
           if \<not> wantReply then Ok (m1, Some (False, [], None)) else Ok (globalReply takeResp ctxDone m1))"

section \<open>Handling packets\<close>

definition selSendCap :: "nat \<Rightarrow> bool \<Rightarrow> bool \<Rightarrow> nat \<Rightarrow> bool \<Rightarrow> selOut" where
  "selSendCap cap pick closed queued stop =
     (if pick then if closed then SoPanic else if queued < cap then SoSend else SoBlock
      else if stop then SoStop else SoBlock)"

text \<open>What a \<open>select\<close> on a send and the two stop channels does, with the update of the send.\<close>

definition mux_deliver :: "selOut \<Rightarrow> mux \<Rightarrow> mux \<Rightarrow> (mux \<times> hpResult) res" where
  "mux_deliver o' sentState m =
     (case o' of
        SoSend \<Rightarrow> Ok (sentState, HpNil)
      | SoStop \<Rightarrow> Ok (m, HpErr IoEOF)
      | SoBlock \<Rightarrow> Ok (m, HpBlocked)
      | SoPanic \<Rightarrow> Panic ''send on closed channel'')"

definition handleGlobalPacket :: "bool \<Rightarrow> bool \<Rightarrow> bytes \<Rightarrow> mux \<Rightarrow> (mux \<times> hpResult) res" where
  "handleGlobalPacket pick ctxDone packet m =
     (case decode packet of
        Panic s \<Rightarrow> Panic s
      | Err e \<Rightarrow> Ok (m, HpErr e)
      | Ok msg \<Rightarrow>
          (case msg of
             GlobalRequestMsg ty wantReply data \<Rightarrow>
               mux_deliver (selSendCap chanSize pick (mreqs_closed m) (length (mreqs m)) (mux_stop m \<or> ctxDone))
                 (m\<lparr>mreqs := mreqs m @ [\<lparr>rq_Type = ty, rq_WantReply = wantReply, rq_Payload = data\<rparr>]\<rparr>) m
           | GlobalRequestSuccessMsg data \<Rightarrow>
               mux_deliver (selSendCap 1 pick (gresp_closed m) (length (gresp m)) (mux_stop m \<or> ctxDone))
                 (m\<lparr>gresp := gresp m @ [msg]\<rparr>) m
           | GlobalRequestFailureMsg data \<Rightarrow>
               mux_deliver (selSendCap 1 pick (gresp_closed m) (length (gresp m)) (mux_stop m \<or> ctxDone))
                 (m\<lparr>gresp := gresp m @ [msg]\<rparr>) m
           | _ \<Rightarrow> Panic ''not a global message''))"

definition handleChannelOpen :: "bool \<Rightarrow> bool \<Rightarrow> bytes \<Rightarrow> mux \<Rightarrow> (mux \<times> hpResult) res" where
  "handleChannelOpen pick ctxDone packet m =
     (case UnmarshalMsg T_channelOpenMsg packet of
        Panic s \<Rightarrow> Panic s
      | Err e \<Rightarrow> Ok (m, HpErr e)
      | Ok msg \<Rightarrow>
          (case msg of
             ChannelOpenMsg ct peersId peersWindow maxPacket extra \<Rightarrow>
               if maxPacket < minPacketLength \<or> maxPacket > 2147483648 then
                 res_bind (mux_sendMessage
                     (ChannelOpenFailureMsg peersId 2 ''invalid request'' ''en_US.UTF-8'') m)
                   (\<lambda>(m1, e). Ok (m1, case e of None \<Rightarrow> HpNil | Some err \<Rightarrow> HpErr err))
               else
                 res_bind (mux_newChannel ct ChannelInbound extra m) (\<lambda>(a, m1).
                   let c = cstore m1 a;
                       m2 = m1\<lparr>cstore := (cstore m1)(a := c\<lparr>remoteId := peersId, maxRemotePayload := maxPacket,
                              remoteWin := snd (window_add peersWindow (remoteWin c))\<rparr>)\<rparr>
                   in mux_deliver (selSendCap chanSize pick (incoming_closed m2) (length (incoming m2))
                          (mux_stop m2 \<or> ctxDone))
                        (m2\<lparr>incoming := incoming m2 @ [a]\<rparr>) m2)
           | _ \<Rightarrow> wrongKind))"

definition onePacket :: "int \<Rightarrow> bool \<Rightarrow> bool \<Rightarrow> bytes \<Rightarrow> mux \<Rightarrow> (mux \<times> hpResult) res" where
  "onePacket now pick ctxDone packet m =
     (case packet of
        [] \<Rightarrow> Panic ''index out of range''
      | op # _ \<Rightarrow>
          if op = msgChannelOpen then handleChannelOpen pick ctxDone packet m
          else if op = msgGlobalRequest \<or> op = msgRequestSuccess \<or> op = msgRequestFailure then
            handleGlobalPacket pick ctxDone packet m
          else if length packet < 5 then Ok (m, HpErr (parseError op))
          else
            let i = beUint32 (drop 1 packet) in
            (case getChan i (clist m) of
               None \<Rightarrow> Ok (m, HpErr (Errorf ''ssh: invalid channel %d'' [unat i] []))
             | Some a \<Rightarrow>
                 res_bind (handlePacket now pick (mux_stop m) packet (cstore m a, mconn m)) (\<lambda>((c, k), rm, r).
                   Ok (m\<lparr>cstore := (cstore m)(a := c), mconn := k,
                          clist := fold cl_remove rm (clist m)\<rparr>, r))))"

section \<open>The loop\<close>

text \<open>Timeouts do not end the loop: they are the errors with \<open>Timeout()\<close> true.\<close>

definition isTimeout :: "gerror \<Rightarrow> bool" where
  "isTimeout e = (case e of ErrTimeout _ \<Rightarrow> True | _ \<Rightarrow> False)"

fun closeAll :: "nat list \<Rightarrow> (nat \<Rightarrow> channel) \<Rightarrow> (nat \<Rightarrow> channel) res" where
  "closeAll [] st = Ok st"
| "closeAll (a # as) st = res_bind (ch_close (st a)) (\<lambda>c. closeAll as (st(a := c)))"

definition loopExit :: "gerror \<Rightarrow> mux \<Rightarrow> mux res" where
  "loopExit err m =
     (case dropAll (clist m) of (as, cl) \<Rightarrow>
        res_bind (closeAll as (cstore m)) (\<lambda>st.
          if incoming_closed m \<or> mreqs_closed m \<or> gresp_closed m then Panic ''close of closed channel''
          else Ok (m\<lparr>clist := cl, cstore := st, incoming_closed := True, mreqs_closed := True,
                     gresp_closed := True, conn_shut := True, mux_err := Some err\<rparr>)))"

text \<open>
  The loop on the results of successive reads from the connection. The last component says whether
  it has ended; it has not when the reads are used up or a handler blocks.
\<close>

fun mux_loop :: "int \<Rightarrow> (bytes + gerror) list \<Rightarrow> mux \<Rightarrow> (mux \<times> bool) res" where
  "mux_loop now [] m = Ok (m, False)"
| "mux_loop now (Inr e # rs) m =
     (if isTimeout e then mux_loop now rs m else res_bind (loopExit e m) (\<lambda>m'. Ok (m', True)))"
| "mux_loop now (Inl p # rs) m =
     res_bind (onePacket now True False p m) (\<lambda>(m1, r).
       case r of
         HpNil \<Rightarrow> mux_loop now rs m1
       | HpBlocked \<Rightarrow> Ok (m1, False)
       | HpErr e \<Rightarrow>
           if isTimeout e then mux_loop now rs m1 else res_bind (loopExit e m1) (\<lambda>m'. Ok (m', True)))"

section \<open>Opening a channel\<close>

definition openChannel_send :: "string \<Rightarrow> bytes \<Rightarrow> mux \<Rightarrow> (mux \<times> nat \<times> gerror option) res" where
  "openChannel_send ct extra m =
     res_bind (mux_newChannel ct ChannelOutbound extra m) (\<lambda>(a, m1).
       let c = (cstore m1 a)\<lparr>maxIncomingPayload := channelMaxPacket\<rparr>;
           m2 = m1\<lparr>cstore := (cstore m1)(a := c)\<rparr>
       in res_bind (mux_sendMessage
              (ChannelOpenMsg ct (localId c) (myWindow c) (maxIncomingPayload c) extra) m2) (\<lambda>(m3, e).
            case e of
              None \<Rightarrow> Ok (m3, a, None)
            | Some err \<Rightarrow> Ok (m3\<lparr>cstore := (cstore m3)(a := stopTimers (cstore m3 a))\<rparr>, a, Some err)))"

text \<open>The rest of \<open>openChannel\<close>, once the peer's answer or a stop arrives; \<open>None\<close> blocks.\<close>

definition openChannel_recv :: "bool \<Rightarrow> bool \<Rightarrow> nat \<Rightarrow> mux \<Rightarrow> mux \<times> gerror option option" where
  "openChannel_recv takeMsg ctxDone a m =
     (let c = cstore m a in
      if takeMsg then
        (case msgs c of
           [] \<Rightarrow>
             if msgs_closed c then
               (m\<lparr>cstore := (cstore m)(a := stopTimers c)\<rparr>,
                Some (Some (Errorf ''ssh: unexpected packet in response to channel open: %T'' [] [])))
             else (m, None)
         | r # rs \<Rightarrow>
             let c1 = c\<lparr>msgs := rs\<rparr> in
             (case r of
                ChannelOpenConfirmMsg _ _ _ _ _ \<Rightarrow> (m\<lparr>cstore := (cstore m)(a := c1)\<rparr>, Some None)
              | ChannelOpenFailureMsg _ reason msg _ \<Rightarrow>
                  (m\<lparr>cstore := (cstore m)(a := stopTimers c1)\<rparr>, Some (Some (OpenChannelErr reason msg)))
              | _ \<Rightarrow> (m\<lparr>cstore := (cstore m)(a := stopTimers c1)\<rparr>,
                  Some (Some (Errorf ''ssh: unexpected packet in response to channel open: %T'' [] [])))))
      else (m, if mux_stop m \<or> ctxDone then Some (Some IoEOF) else None))"

section \<open>Lemmas\<close>

subsection \<open>What channel operations keep\<close>

definition keeps :: "channel \<Rightarrow> channel \<Rightarrow> bool" where
  "keeps c c' \<longleftrightarrow> msgs_closed c' = msgs_closed c \<and> requests_closed c' = requests_closed c \<and> localId c' = localId c"

lemma keeps_refl [simp]: "keeps c c"
  by (simp add: keeps_def)

lemma keeps_trans: "keeps a b \<Longrightarrow> keeps b c \<Longrightarrow> keeps a c"
  by (simp add: keeps_def)

lemma ch_writePacket_keeps: "ch_writePacket now p (c, k) = Ok ((c', k'), e) \<Longrightarrow> keeps c c'"
  by (auto simp: ch_writePacket_def keeps_def split: if_splits list.splits prod.splits option.splits)

lemma ch_sendMessage_keeps:
  "ch_sendMessage now m (c, k) = Ok ((c', k'), e) \<Longrightarrow> keeps c c'"
  by (auto simp: ch_sendMessage_def res_simps dest: ch_writePacket_keeps)

lemma writeChunk_keeps:
  assumes "writeChunk now ext sp d (c, k) = Ok ((c', k'), e)"
  shows "keeps c c'"
proof -
  let ?c1 = "c\<lparr>idleW := AttemptOK (idleW c) now\<rparr>"
  from assms obtain c2 k2 e2 where
    w: "ch_writePacket now (dataPacket (remoteId c) ext (take (unat sp) d)) (?c1, k) = Ok ((c2, k2), e2)"
    by (auto simp: writeChunk_def Let_def res_simps split: if_splits)
  have "keeps c2 c'" using assms w
    by (auto simp: writeChunk_def Let_def keeps_def split: if_splits option.splits)
  moreover have "keeps c c2" using ch_writePacket_keeps [OF w] by (simp add: keeps_def)
  ultimately show ?thesis by (blast intro: keeps_trans)
qed

lemma writeFrom_keeps: "writeFrom fuel now sel ext d n wr (c, k) = Ok ((c', k'), st) \<Longrightarrow> keeps c c'"
proof (induction fuel now sel ext d n wr "(c, k)" arbitrary: c k c' k' st rule: writeFrom.induct)
  case (3 fuel now sel ext data n w space c k)
  from "3.prems" obtain c1 k1 err where
    wc: "writeChunk now ext space data (c\<lparr>remoteWin := w\<rparr>, k) = Ok ((c1, k1), err)"
    by (auto simp: res_simps)
  then have s: "keeps c c1" by (auto dest!: writeChunk_keeps simp: keeps_def)
  show ?case
  proof (cases "err = None \<and> drop (unat space) data \<noteq> [] \<and> fuel \<noteq> 0")
    case True
    then obtain f where f: "fuel = Suc f" by (cases fuel) auto
    from "3.prems" wc True f have "writeFrom f now sel ext (drop (unat space) data) (n + unat space)
      (reserveStart (sel (n + unat space)) (goMin (maxRemotePayload c1) (length (drop (unat space) data)))
         (remoteWin c1)) (c1, k1) = Ok ((c', k'), st)"
      by (simp add: Let_def)
    then have "keeps c1 c'" using "3.hyps" [OF refl refl _ f] True by blast
    with s show ?thesis by (rule keeps_trans)
  next
    case False
    with "3.prems" wc have "c' = c1"
      by (cases fuel) (auto simp: Let_def split: option.splits if_splits)
    with s show ?thesis by simp
  qed
qed (auto simp: keeps_def)

lemma writeEnd_keeps: "writeEnd now ((c, k), st) = ((c', k'), st') \<Longrightarrow> keeps c c'"
  by (auto simp: writeEnd_def keeps_def split: writeStatus.splits option.splits)

lemma WriteExtended_keeps:
  assumes "WriteExtended fuel now sel d ext (c, k) = Ok ((c', k'), st)"
  shows "keeps c c'"
proof -
  let ?c1 = "c\<lparr>idleW := BeginAttempt (idleW c) now\<rparr>"
  have s: "keeps c ?c1" by (simp add: keeps_def)
  show ?thesis
  proof (cases "sentEOF c \<or> d = []")
    case True
    with assms show ?thesis by (auto simp: WriteExtended_def Let_def writeEnd_def keeps_def split: if_splits)
  next
    case False
    with assms obtain c2 k2 st2 where
      "writeFrom fuel now sel ext d 0 (reserveStart (sel 0) (goMin (maxRemotePayload ?c1) (length d))
         (remoteWin ?c1)) (?c1, k) = Ok ((c2, k2), st2)" "writeEnd now ((c2, k2), st2) = ((c', k'), st)"
      by (auto simp: WriteExtended_def Let_def res_simps)
    then show ?thesis using s by (blast intro: keeps_trans writeFrom_keeps writeEnd_keeps)
  qed
qed

lemma resumeWrite_keeps:
  assumes "resumeWrite fuel now sel ext n d sp (c, k) = Ok ((c', k'), st)"
  shows "keeps c c'"
proof -
  from assms obtain c2 k2 st2 where
    "writeFrom fuel now sel ext d n (reserveWake (sel n) sp (remoteWin c)) (c, k) = Ok ((c2, k2), st2)"
    "writeEnd now ((c2, k2), st2) = ((c', k'), st)"
    by (auto simp: resumeWrite_def res_simps)
  then show ?thesis by (blast intro: keeps_trans writeFrom_keeps writeEnd_keeps)
qed

lemma readFinish_keeps:
  assumes "readFinish now d st (c, k) = Ok ((c', k'), r)"
  shows "keeps c c'"
proof -
  let ?c1 = "if st = RdDone then c\<lparr>idleR := AttemptOK (idleR c) now\<rparr> else c"
  show ?thesis
  proof (cases "d = []")
    case True
    with assms show ?thesis by (auto simp: readFinish_def Let_def keeps_def split: if_splits)
  next
    case False
    with assms obtain e where
      "ch_sendMessage now (WindowAdjustMsg 0 (word_of_nat (length d)))
         (?c1\<lparr>myWindow := myWindow ?c1 + word_of_nat (length d)\<rparr>, k) = Ok ((c', k'), e)"
      by (auto simp: readFinish_def adjustWindow_def Let_def res_simps split: option.splits if_splits)
    from ch_sendMessage_keeps [OF this] show ?thesis by (auto simp: keeps_def split: if_splits)
  qed
qed

lemma ReadExtended_keeps:
  assumes "ReadExtended now len ext (c, k) = Ok ((c', k'), r)"
  shows "keeps c c'"
proof -
  obtain i b d st where e: "buf_Read (BeginAttempt (idleR c) now) (extPending c) len now now = (i, b, d, st)"
    by (metis prod_cases4)
  obtain i' b' d' st' where p: "buf_Read (BeginAttempt (idleR c) now) (pending c) len now now = (i', b', d', st')"
    by (metis prod_cases4)
  consider "ext = 1" | "ext = 0" | "ext \<noteq> 0" "ext \<noteq> 1" by blast
  then show ?thesis
  proof cases
    case 1
    with assms e have "readFinish now d st (c\<lparr>idleR := i, extPending := b\<rparr>, k) = Ok ((c', k'), r)"
      by (simp add: ReadExtended_def Let_def)
    from readFinish_keeps [OF this] show ?thesis by (simp add: keeps_def)
  next
    case 2
    with assms p have "readFinish now d' st' (c\<lparr>idleR := i', pending := b'\<rparr>, k) = Ok ((c', k'), r)"
      by (simp add: ReadExtended_def Let_def)
    from readFinish_keeps [OF this] show ?thesis by (simp add: keeps_def)
  next
    case 3
    with assms show ?thesis by (auto simp: ReadExtended_def Let_def keeps_def)
  qed
qed

lemma guarded_send_keeps:
  assumes "(if g then Ok ((c, k), e0) else ch_sendMessage now m (c1, k)) = Ok ((c', k'), e)" "keeps c c1"
  shows "keeps c c'"
  using assms by (auto split: if_splits intro: keeps_trans ch_sendMessage_keeps)

lemma user_ops_keep:
  "Accept now (c, k) = Ok ((c', k'), e) \<Longrightarrow> keeps c c'"
  "Reject now r m (c, k) = Ok ((c', k'), e) \<Longrightarrow> keeps c c'"
  "CloseWrite now (c, k) = Ok ((c', k'), e) \<Longrightarrow> keeps c c'"
  "ch_ackRequest now ok (c, k) = Ok ((c', k'), e) \<Longrightarrow> keeps c c'"
  unfolding Accept_def Reject_def CloseWrite_def ch_ackRequest_def Let_def case_prod_conv
  by (erule guarded_send_keeps, simp add: keeps_def stopTimers_def)+

lemma ch_Close_keeps:
  assumes "ch_Close now (c, k) = Ok ((c', k'), e)"
  shows "keeps c c'"
proof -
  let ?c1 = "stopTimers (c\<lparr>hasClosed := True\<rparr>)\<lparr>halt := haltDone (halt c)\<rparr>"
  have s: "keeps c ?c1" by (simp add: keeps_def stopTimers_def)
  consider "c' = c" | "c' = ?c1" | "ch_sendMessage now (ChannelCloseMsg (remoteId ?c1)) (?c1, k) = Ok ((c', k'), e)"
    using assms by (auto simp: ch_Close_def Let_def split: if_splits)
  then show ?thesis using s by cases (auto intro: keeps_trans ch_sendMessage_keeps)
qed

lemma ch_SendRequest_keeps:
  assumes "ch_SendRequest now cs ms name wr pl (c, k) = Ok ((c', k'), r)"
  shows "keeps c c'"
proof (cases "decided c")
  case True
  with assms obtain c1 k1 err where
    m: "ch_sendMessage now (ChannelRequestMsg (remoteId c) name wr pl) (c, k) = Ok ((c1, k1), err)"
    by (auto simp: ch_SendRequest_def res_simps)
  have "keeps c1 (fst (awaitReply cs ms c1))" by (simp add: awaitReply_def keeps_def split: list.splits)
  with assms m True have "keeps c1 c'"
    by (auto simp: ch_SendRequest_def split: option.splits if_splits prod.splits)
  with ch_sendMessage_keeps [OF m] show ?thesis by (rule keeps_trans)
qed (use assms in \<open>auto simp: ch_SendRequest_def\<close>)

definition isPacketOp :: "chanOp \<Rightarrow> bool" where
  "isPacketOp op = (case op of OpPacket _ _ _ \<Rightarrow> True | _ \<Rightarrow> False)"

lemma runOp_keeps: "runOp now op (c, k) = Ok (c', k') \<Longrightarrow> \<not> isPacketOp op \<Longrightarrow> keeps c c'"
  by (cases op)
    (auto simp: res_simps isPacketOp_def dest: user_ops_keep ch_Close_keeps ch_SendRequest_keeps ReadExtended_keeps
      WriteExtended_keeps resumeWrite_keeps)

section \<open>Properties\<close>

text \<open>C25: The channel list implements a map from identifiers to channels that picks its own keys. From the empty
  list, for every sequence of fewer than \<open>2 ^ 32\<close> additions and removals and every offset: looking
  identifiers up gives what the map gives; every addition returns the identifier under which the channel is then
  found, which is the least one that was free, counting from the offset; and \<open>dropAll\<close> then returns exactly the
  channels still in the map, in the order of their identifiers, and leaves none behind.\<close>

theorem chanList_refines_map:
  assumes "length ops < 2 ^ 32" "tableRun cl_add cl_remove ops \<lparr>chans = [], offset = off\<rparr> = (ids, l)"
  shows "mapRun (\<lambda>i. unat (i - off)) ops Map.empty ids (\<lambda>k. getChan k l) \<and>
    fst (dropAll l) = List.map_filter (\<lambda>i. getChan (word_of_nat i + off) l) [0..<length ops] \<and>
    (\<forall>k. getChan k (snd (dropAll l)) = None)"
proof -
  let ?e = "\<lparr>chans = [] :: 'a option list, offset = off\<rparr>"
  have e: "(\<lambda>k. getChan k ?e) = Map.empty" by (simp add: getChan_def fun_eq_iff)
  have "length ops \<le> cl_room ?e" using assms(1) by (simp add: cl_room_def)
  note r = chtab.run_refines [OF this assms(2), unfolded e]
  have "cl_rank l off = cl_rank ?e off" using r by simp
  then have off: "offset l = off" by (simp add: cl_rank_def unat_eq_0)
  have "length (chans l) \<le> length ops" using tableRun_length [OF assms(2)] by simp
  from dropAll_slots [OF this assms(1)]
  have "fst (dropAll l) = List.map_filter (\<lambda>i. getChan (word_of_nat i + off) l) [0..<length ops]" by (simp only: off)
  moreover have "cl_rank ?e = (\<lambda>i. unat (i - off))" by (simp add: cl_rank_def fun_eq_iff)
  moreover have "\<forall>k. getChan k (snd (dropAll l)) = None" by (simp add: dropAll_def getChan_def)
  ultimately show ?thesis using r by simp
qed

theorem chanList_refines_map_witness:
  "\<exists>l. tableRun cl_add cl_remove [Inl ''a'', Inl ''b'', Inr 7, Inl ''c''] \<lparr>chans = [], offset = 7\<rparr> = ([7, 8, 7], l) \<and>
     mapRun (\<lambda>i. unat (i - 7)) [Inl ''a'', Inl ''b'', Inr 7, Inl ''c''] Map.empty [7, 8, 7] (\<lambda>k. getChan k l) \<and>
     getChan 7 l = Some ''c'' \<and> getChan 8 l = Some ''b'' \<and> fst (dropAll l) = [''c'', ''b'']"
proof -
  let ?ops = "[Inl ''a'', Inl ''b'', Inr 7, Inl ''c''] :: (string + u32) list"
  let ?l = "\<lparr>chans = [Some ''c'', Some ''b''], offset = 7\<rparr>"
  have run: "tableRun cl_add cl_remove ?ops \<lparr>chans = [], offset = 7\<rparr> = ([7, 8, 7], ?l)"
    by (simp add: cl_add_def cl_remove_def Let_def)
  have g: "getChan 7 ?l = Some ''c''" "getChan 8 ?l = Some ''b''" by (simp_all add: getChan_def)
  have "length ?ops < 2 ^ 32" by simp
  from chanList_refines_map [OF this run] run g show ?thesis
    by (intro exI [of _ ?l]) (simp add: dropAll_def)
qed

end
