(* ===== verification/MuxSafety.thy ===== *)
theory MuxSafety
  imports Mux
begin

text \<open>
  The packet loop of the mux in the presence of arbitrary users: an invariant that ties the channel
  list to the channels in the store, that every step keeps, and that rules out every panic of
  \<open>onePacket\<close>; the isolation of channels from each other; the end of the loop; and the opening
  of a channel between two muxes, which establishes the premises of the flow-control results.
\<close>

section \<open>Lemmas\<close>

subsection \<open>Handling a packet on an open channel\<close>

definition ch_open :: "channel \<Rightarrow> bool" where
  "ch_open c \<longleftrightarrow> \<not> msgs_closed c \<and> \<not> requests_closed c"

lemma keeps_open: "keeps c c' \<Longrightarrow> ch_open c' = ch_open c"
  by (simp add: keeps_def ch_open_def)

lemma deliver_total:
  "ch_open c \<Longrightarrow> \<exists>c' r. deliverMsg pk ms m c = Ok (c', r) \<and> keeps c c'"
  "ch_open c \<Longrightarrow> \<exists>c' r. deliverRequest pk ms q c = Ok (c', r) \<and> keeps c c'"
  by (auto simp: deliverMsg_def deliverRequest_def selSend_def ch_open_def keeps_def split: selOut.splits if_splits)

lemma deliver_then:
  assumes "ch_open c1" "keeps c c1"
  shows "\<exists>c' rm' r. res_bind (deliverMsg pk ms m c1) (\<lambda>(c2, r). Ok (c2, rm, r)) = Ok (c', rm', r) \<and> keeps c c'"
    "\<exists>c' rm' r. res_bind (deliverRequest pk ms q c1) (\<lambda>(c2, r). Ok (c2, rm, r)) = Ok (c', rm', r) \<and> keeps c c'"
proof -
  from deliver_total(1) [OF assms(1), of pk ms m] obtain c' r where
    "deliverMsg pk ms m c1 = Ok (c', r)" "keeps c1 c'" by blast
  then show "\<exists>c' rm' r. res_bind (deliverMsg pk ms m c1) (\<lambda>(c2, r). Ok (c2, rm, r)) = Ok (c', rm', r) \<and> keeps c c'"
    using keeps_trans [OF assms(2)] by auto
  from deliver_total(2) [OF assms(1), of pk ms q] obtain c' r where
    "deliverRequest pk ms q c1 = Ok (c', r)" "keeps c1 c'" by blast
  then show "\<exists>c' rm' r. res_bind (deliverRequest pk ms q c1) (\<lambda>(c2, r). Ok (c2, rm, r)) = Ok (c', rm', r) \<and> keeps c c'"
    using keeps_trans [OF assms(2)] by auto
qed

lemma responseMessageReceived_keeps: "responseMessageReceived c = (c', e) \<Longrightarrow> keeps c c'"
  by (auto simp: responseMessageReceived_def keeps_def split: if_splits)

lemma handleDecoded_total:
  assumes "ch_open c"
  shows "\<exists>c' rm r. handleDecoded pk ms m c = Ok (c', rm, r) \<and> keeps c c'"
proof -
  obtain c1 e where r: "responseMessageReceived c = (c1, e)" by fastforce
  note k1 = responseMessageReceived_keeps [OF r]
  have o1: "ch_open c1" using keeps_open [OF k1] assms by simp
  note plain = deliver_then(1) [OF assms keeps_refl, of pk ms m "[]"]
  show ?thesis
  proof (cases m)
    case (ChannelOpenFailureMsg p x y z)
    show ?thesis
    proof (cases e)
      case None
      then show ?thesis using r ChannelOpenFailureMsg deliver_then(1) [OF o1 k1, of pk ms m "[p]"]
        by (simp add: handleDecoded_def)
    qed (use r k1 ChannelOpenFailureMsg in \<open>simp add: handleDecoded_def\<close>)
  next
    case (ChannelOpenConfirmMsg p i w mx rest)
    let ?c2 = "c1\<lparr>remoteId := i, maxRemotePayload := mx, remoteWin := snd (window_add w (remoteWin c1))\<rparr>"
    have k2: "keeps c ?c2" "ch_open ?c2" using k1 o1 by (simp_all add: keeps_def ch_open_def)
    note d = deliver_then(1) [OF k2(2,1), of pk ms m "[]"]
    show ?thesis
    proof (cases "e = None \<and> \<not> mx < minPacketLength \<and> \<not> mx > 2147483648")
      case True
      then show ?thesis using r d ChannelOpenConfirmMsg by (simp add: handleDecoded_def Let_def)
    next
      case False
      then show ?thesis using r k1 ChannelOpenConfirmMsg by (cases e) (auto simp: handleDecoded_def Let_def)
    qed
  next
    case (WindowAdjustMsg p n)
    obtain ok w where w: "window_add n (remoteWin c) = (ok, w)" by fastforce
    show ?thesis using WindowAdjustMsg w by (cases ok) (simp_all add: handleDecoded_def keeps_def)
  next
    case (ChannelRequestMsg p a b d)
    show ?thesis using ChannelRequestMsg deliver_then(2) [OF assms keeps_refl, of pk ms _ "[]"]
      by (simp add: handleDecoded_def)
  qed (use plain in \<open>simp_all add: handleDecoded_def\<close>)
qed

lemma handleData_keeps: "handleData p c = Ok (c', e) \<Longrightarrow> keeps c c'"
  by (auto simp: handleData_def Let_def keeps_def split: list.splits if_splits)

lemma handleData_total: "p \<noteq> [] \<Longrightarrow> \<exists>c' e. handleData p c = Ok (c', e)"
  by (cases p) (auto simp: handleData_def Let_def)

lemma ch_writePacket_total: "p \<noteq> [] \<Longrightarrow> \<exists>ck e. ch_writePacket now p ck' = Ok (ck, e)"
  by (cases ck'; cases p) (auto simp: ch_writePacket_def split: prod.splits option.splits)

lemma closeMsg_total: "\<exists>c' k' e. ch_sendMessage now (ChannelCloseMsg i) (c, k) = Ok ((c', k'), e)"
proof -
  have "msgBytes (ChannelCloseMsg i) = 97 # be32 i"
    by (subst msgBytes_tag) simp_all
  moreover have "msg_ok (ChannelCloseMsg i)" by (simp add: msg_ok_def)
  ultimately have "MarshalMsg (ChannelCloseMsg i) = Ok (97 # be32 i)" using MarshalMsg_ok by metis
  then have "ch_sendMessage now (ChannelCloseMsg i) (c, k) = ch_writePacket now (97 # be32 (remoteId c)) (c, k)"
    by (simp add: ch_sendMessage_def putUint32_def)
  with ch_writePacket_total [of "97 # be32 (remoteId c)" now "(c, k)"] show ?thesis by auto
qed

lemma handlePacket_total:
  assumes "p \<noteq> []" "ch_open c"
  shows "\<exists>c' k' rm r. handlePacket now pk ms p (c, k) = Ok ((c', k'), rm, r) \<and> localId c' = localId c \<and>
     (keeps c c' \<or> localId c \<in> set rm)"
proof -
  obtain op rest where p: "p = op # rest" using assms(1) by (cases p) auto
  let ?c = "c\<lparr>idleR := AttemptOK (idleR c) now\<rparr>"
  have k: "keeps c ?c" "ch_open ?c" using assms(2) by (simp_all add: keeps_def ch_open_def)
  consider "op = msgChannelData \<or> op = msgChannelExtendedData" | "op = msgChannelClose" | "op = msgChannelEOF"
    | "op \<noteq> msgChannelData" "op \<noteq> msgChannelExtendedData" "op \<noteq> msgChannelClose" "op \<noteq> msgChannelEOF"
    by blast
  then show ?thesis
  proof cases
    case 1
    obtain c' e where h: "handleData p ?c = Ok (c', e)" "keeps ?c c'" using handleData_total [OF assms(1)] handleData_keeps by blast
    then have "keeps c c'" using k(1) keeps_trans by blast
    with 1 h(1) p show ?thesis by (auto simp: handlePacket_def Let_def keeps_def)
  next
    case 2
    obtain c1 k1 e where m: "ch_sendMessage now (ChannelCloseMsg (remoteId ?c)) (?c, k) = Ok ((c1, k1), e)"
      using closeMsg_total by blast
    have k1: "keeps ?c c1" using ch_sendMessage_keeps [OF m] .
    then obtain c2 where c2: "ch_close c1 = Ok c2" "localId c2 = localId c1"
      using k(2) by (auto simp: ch_close_def ch_open_def keeps_def)
    have "localId c2 = localId c" using k1 c2(2) by (simp add: keeps_def)
    with 2 m c2 p show ?thesis by (simp add: handlePacket_def Let_def)
  next
    case 3
    with p show ?thesis by (simp add: handlePacket_def Let_def keeps_def)
  next
    case 4
    have np: "\<not> is_Panic (decode p)" using assms(1) p by (cases p) (simp_all add: decode_def UnmarshalMsg_no_panic)
    show ?thesis
    proof (cases "decode p")
      case (Ok m)
      obtain c' rm r where h: "handleDecoded pk ms m ?c = Ok (c', rm, r)" "keeps ?c c'"
        using handleDecoded_total [OF k(2)] by blast
      then have "keeps c c'" using k(1) keeps_trans by blast
      with 4 h(1) Ok p show ?thesis by (simp add: handlePacket_def Let_def keeps_def)
    next
      case (Err e)
      with 4 p show ?thesis by (simp add: handlePacket_def Let_def keeps_def)
    next
      case (Panic x)
      with np show ?thesis by simp
    qed
  qed
qed

section \<open>The invariant of the mux\<close>

definition mux_inv :: "mux \<Rightarrow> bool" where
  "mux_inv m \<longleftrightarrow> length (chans (clist m)) \<le> nextAddr m \<and>
     \<not> incoming_closed m \<and> \<not> mreqs_closed m \<and> \<not> gresp_closed m \<and>
     (\<forall>i a. getChan i (clist m) = Some a \<longrightarrow>
        a < nextAddr m \<and> ch_open (cstore m a) \<and> localId (cstore m a) = i)"

text \<open>Fewer channels than ids have been created.\<close>

definition idsLeft :: "mux \<Rightarrow> bool" where
  "idsLeft m \<longleftrightarrow> nextAddr m < 2 ^ 32 - 1"

lemma getChan_fold_remove: "getChan i (fold cl_remove rm l) = (if i \<in> set rm then None else getChan i l)"
  by (induction rm arbitrary: l) (auto simp: chtab.rm_get)

lemma length_fold_remove: "length (chans (fold cl_remove rm l)) = length (chans l)"
  by (induction rm arbitrary: l) simp_all

lemma cl_add_length: "cl_add a l = (i, l') \<Longrightarrow> length (chans l') \<le> Suc (length (chans l))"
  by (auto simp: cl_add_def split: option.splits)

lemma newChannel_ok:
  "\<exists>c. newChannel ct dir extra lid = Ok c \<and> ch_open c \<and> localId c = lid"
  by (simp add: newChannel_def NewIdleTimer_def AddTimeoutCallback_def ch_open_def)

lemma mux_newChannel_inv:
  assumes "mux_inv m" "idsLeft m"
  shows "\<exists>m'. mux_newChannel ct dir extra m = Ok (nextAddr m, m') \<and> mux_inv m' \<and>
     nextAddr m' = Suc (nextAddr m) \<and> localId (cstore m' (nextAddr m)) = fst (cl_add (nextAddr m) (clist m)) \<and>
     ch_open (cstore m' (nextAddr m))"
proof -
  obtain lid cl where a: "cl_add (nextAddr m) (clist m) = (lid, cl)" by fastforce
  obtain c where c: "newChannel ct dir extra lid = Ok c" "ch_open c" "localId c = lid" using newChannel_ok by blast
  let ?m = "m\<lparr>cstore := (cstore m)(nextAddr m := c), nextAddr := nextAddr m + 1, clist := cl\<rparr>"
  have "length (chans (clist m)) \<le> nextAddr m" using assms(1) by (simp add: mux_inv_def)
  then have r: "0 < cl_room (clist m)" using assms(2) by (simp add: cl_room_def idsLeft_def)
  have "mux_inv ?m"
    using assms(1) c cl_add_length [OF a] by (auto simp: mux_inv_def chtab.add_get [OF r a] less_Suc_eq)
  with a c show ?thesis by (simp add: mux_newChannel_def Let_def)
qed

lemma mux_inv_conn: "mux_inv (m\<lparr>mconn := k\<rparr>) = mux_inv m"
  by (simp add: mux_inv_def)

lemma mux_inv_channel:
  assumes "mux_inv m" "keeps (cstore m a) c"
  shows "mux_inv (m\<lparr>cstore := (cstore m)(a := c), mconn := k\<rparr>)"
  using assms by (auto simp: mux_inv_def keeps_def ch_open_def)

lemma mux_deliver_inv:
  assumes "mux_inv m" "mux_inv m'" "mux_deliver (selSendCap cap pick False n st) m' m = Ok (x, r)"
  shows "mux_inv x"
  using assms by (auto simp: mux_deliver_def split: selOut.splits)

lemma mux_deliver_total: "\<not> is_Panic (mux_deliver (selSendCap cap pick False n st) m' m)"
  by (simp add: mux_deliver_def selSendCap_def split: selOut.splits)

lemma UnmarshalMsg_type: "UnmarshalMsg t p = Ok msg \<Longrightarrow> mtypeOf msg = t"
  using build_mtypeOf by (fastforce simp: UnmarshalMsg_def res_simps wrongKind_def split: option.splits)

lemma global_decode:
  assumes "decode (op # rest) = Ok msg" "op = msgGlobalRequest \<or> op = msgRequestSuccess \<or> op = msgRequestFailure"
  shows "mtypeOf msg \<in> {T_globalRequestMsg, T_globalRequestSuccessMsg, T_globalRequestFailureMsg}"
  using assms by (auto simp: decode_def dest!: UnmarshalMsg_type)

lemma handleGlobalPacket_ok:
  assumes "mux_inv m" "p = op # rest" "op = msgGlobalRequest \<or> op = msgRequestSuccess \<or> op = msgRequestFailure"
  shows "\<not> is_Panic (handleGlobalPacket pick ctx p m) \<and>
    (\<forall>x r. handleGlobalPacket pick ctx p m = Ok (x, r) \<longrightarrow> mux_inv x \<and> nextAddr x = nextAddr m)"
proof (cases "decode p")
  case (Ok msg)
  have o: "\<not> mreqs_closed m" "\<not> gresp_closed m" using assms(1) by (simp_all add: mux_inv_def)
  have "mtypeOf msg \<in> {T_globalRequestMsg, T_globalRequestSuccessMsg, T_globalRequestFailureMsg}"
    using global_decode Ok assms by blast
  then show ?thesis using Ok o assms(1)
    by (cases msg) (auto simp: handleGlobalPacket_def mux_deliver_def selSendCap_def mux_inv_def split: if_splits)
next
  case (Panic x)
  have "\<not> is_Panic (decode p)" using assms(2) by (simp add: decode_def UnmarshalMsg_no_panic)
  with Panic show ?thesis by simp
qed (use assms in \<open>simp add: handleGlobalPacket_def\<close>)

lemma openFailure_total: "\<exists>m' e. mux_sendMessage (ChannelOpenFailureMsg i 2 ''invalid request'' ''en_US.UTF-8'') m = Ok (m', e)"
proof -
  have "msg_ok (ChannelOpenFailureMsg i 2 ''invalid request'' ''en_US.UTF-8'')" by (simp add: msg_ok_def)
  from MarshalMsg_ok [OF this] show ?thesis by (simp add: mux_sendMessage_def split: prod.splits)
qed

lemma mux_sendMessage_inv:
  assumes "mux_sendMessage msg m = Ok (m', e)"
  shows "mux_inv m' = mux_inv m \<and> nextAddr m' = nextAddr m \<and> cstore m' = cstore m"
proof -
  from assms obtain p where p: "MarshalMsg msg = Ok p" by (auto simp: mux_sendMessage_def res_simps)
  obtain k e' where "connWrite p (mconn m) = (k, e')" by fastforce
  with assms p have "m' = m\<lparr>mconn := k\<rparr>" by (simp add: mux_sendMessage_def)
  then show ?thesis by (simp add: mux_inv_conn)
qed

lemma handleChannelOpen_ok:
  assumes "mux_inv m" "idsLeft m"
  shows "\<not> is_Panic (handleChannelOpen pick ctx p m) \<and>
    (\<forall>x r. handleChannelOpen pick ctx p m = Ok (x, r) \<longrightarrow> mux_inv x \<and> nextAddr m \<le> nextAddr x)"
proof (cases "UnmarshalMsg T_channelOpenMsg p")
  case (Ok msg)
  from UnmarshalMsg_type [OF this] obtain ct i w mx extra where msg: "msg = ChannelOpenMsg ct i w mx extra"
    by (cases msg) simp_all
  show ?thesis
  proof (cases "mx < minPacketLength \<or> mx > 2147483648")
    case True
    obtain m' e where s: "mux_sendMessage (ChannelOpenFailureMsg i 2 ''invalid request'' ''en_US.UTF-8'') m = Ok (m', e)"
      using openFailure_total by blast
    with mux_sendMessage_inv [OF s] Ok msg True assms(1) show ?thesis by (auto simp: handleChannelOpen_def)
  next
    case False
    from mux_newChannel_inv [OF assms, of ct ChannelInbound extra] obtain m1 where
      m1: "mux_newChannel ct ChannelInbound extra m = Ok (nextAddr m, m1)" "mux_inv m1"
        "nextAddr m1 = Suc (nextAddr m)" by blast
    let ?c = "cstore m1 (nextAddr m)"
    let ?c2 = "?c\<lparr>remoteId := i, maxRemotePayload := mx, remoteWin := snd (window_add w (remoteWin ?c))\<rparr>"
    let ?m2 = "m1\<lparr>cstore := (cstore m1)(nextAddr m := ?c2)\<rparr>"
    have "keeps ?c ?c2" by (simp add: keeps_def)
    from mux_inv_channel [OF m1(2) this, of "mconn m1"] have m2: "mux_inv ?m2" by simp
    then have "mux_inv (?m2\<lparr>incoming := incoming ?m2 @ [nextAddr m]\<rparr>)" "\<not> incoming_closed m1"
      by (simp_all add: mux_inv_def)
    then show ?thesis using Ok msg False m1 m2
      by (auto simp: handleChannelOpen_def Let_def mux_deliver_def selSendCap_def split: if_splits)
  qed
next
  case (Panic x)
  then show ?thesis using UnmarshalMsg_no_panic [of T_channelOpenMsg p] by simp
qed (use assms in \<open>simp add: handleChannelOpen_def\<close>)

lemma onePacket_ok:
  assumes "mux_inv m" "idsLeft m" "p \<noteq> []"
  shows "\<not> is_Panic (onePacket now pick ctx p m) \<and>
    (\<forall>x r. onePacket now pick ctx p m = Ok (x, r) \<longrightarrow> mux_inv x \<and> nextAddr m \<le> nextAddr x)"
proof -
  obtain op rest where p: "p = op # rest" using assms(3) by (cases p) auto
  consider "op = msgChannelOpen"
    | "op = msgGlobalRequest \<or> op = msgRequestSuccess \<or> op = msgRequestFailure"
    | "op \<noteq> msgChannelOpen" "op \<noteq> msgGlobalRequest" "op \<noteq> msgRequestSuccess" "op \<noteq> msgRequestFailure" by blast
  then show ?thesis
  proof cases
    case 1
    with p handleChannelOpen_ok [OF assms(1,2), of pick ctx p] show ?thesis by (simp add: onePacket_def)
  next
    case 2
    with p handleGlobalPacket_ok [OF assms(1) p 2, of pick ctx] show ?thesis by (auto simp: onePacket_def)
  next
    case 3
    show ?thesis
    proof (cases "length p < 5 \<or> getChan (beUint32 (drop 1 p)) (clist m) = None")
      case True
      with 3 p assms(1) show ?thesis by (auto simp: onePacket_def Let_def)
    next
      case False
      then obtain a where a: "getChan (beUint32 (drop 1 p)) (clist m) = Some a" by auto
      let ?i = "beUint32 (drop 1 p)" and ?c = "cstore m a"
      from assms(1) a have c: "ch_open ?c" "localId ?c = ?i" "a < nextAddr m" by (auto simp: mux_inv_def)
      from handlePacket_total [OF assms(3) c(1), of now pick "mux_stop m" "mconn m"] obtain c' k' rm r where
        h: "handlePacket now pick (mux_stop m) p (?c, mconn m) = Ok ((c', k'), rm, r)"
          "localId c' = localId ?c" "keeps ?c c' \<or> localId ?c \<in> set rm" by blast
      let ?m = "m\<lparr>cstore := (cstore m)(a := c'), mconn := k', clist := fold cl_remove rm (clist m)\<rparr>"
      have run: "onePacket now pick ctx p m = Ok (?m, r)" using 3 p False a h(1) by (simp add: onePacket_def Let_def)
      have "mux_inv ?m"
        using assms(1) h(2,3) c keeps_open
        by (auto simp: mux_inv_def getChan_fold_remove length_fold_remove split: if_splits)
      with run show ?thesis by simp
    qed
  qed
qed

section \<open>Steps of the mux and its users\<close>

text \<open>
  The packet loop handles a packet; a user calls an operation on a channel it holds, opens a channel,
  or takes an incoming channel, request or response; or the mux is asked to stop.
\<close>

inductive muxStep :: "mux \<Rightarrow> mux \<Rightarrow> bool" where
  packet: "p \<noteq> [] \<Longrightarrow> idsLeft m \<Longrightarrow> onePacket now pick ctx p m = Ok (m', r) \<Longrightarrow> muxStep m m'"
| user: "\<not> isPacketOp op \<Longrightarrow> runOp now op (cstore m a, mconn m) = Ok (c, k) \<Longrightarrow>
     muxStep m (m\<lparr>cstore := (cstore m)(a := c), mconn := k\<rparr>)"
| open_send: "idsLeft m \<Longrightarrow> openChannel_send ct extra m = Ok (m', a, e) \<Longrightarrow> muxStep m m'"
| open_recv: "openChannel_recv takeMsg ctx a m = (m', r) \<Longrightarrow> muxStep m m'"
| request: "mux_SendRequest takeResp ctx name wantReply payload m = Ok (m', r) \<Longrightarrow> muxStep m m'"
| take_channel: "incoming m = a # as \<Longrightarrow> muxStep m (m\<lparr>incoming := as\<rparr>)"
| take_request: "mreqs m = q # qs \<Longrightarrow> muxStep m (m\<lparr>mreqs := qs\<rparr>)"
| take_ch_request: "requests (cstore m a) = q # qs \<Longrightarrow>
     muxStep m (m\<lparr>cstore := (cstore m)(a := (cstore m a)\<lparr>requests := qs\<rparr>)\<rparr>)"
| stop: "muxStep m (m\<lparr>mux_stop := True\<rparr>)"

lemma mux_inv_store:
  assumes "mux_inv m" "keeps (cstore m a) c"
  shows "mux_inv (m\<lparr>cstore := (cstore m)(a := c)\<rparr>)"
  using mux_inv_channel [OF assms, of "mconn m"] by simp

lemma openChannel_send_inv:
  assumes "mux_inv m" "idsLeft m" "openChannel_send ct extra m = Ok (m', a, e)"
  shows "mux_inv m'"
proof -
  from mux_newChannel_inv [OF assms(1,2), of ct ChannelOutbound extra] obtain m1 where
    m1: "mux_newChannel ct ChannelOutbound extra m = Ok (nextAddr m, m1)" "mux_inv m1" by blast
  let ?a = "nextAddr m"
  let ?c = "(cstore m1 ?a)\<lparr>maxIncomingPayload := channelMaxPacket\<rparr>"
  let ?m2 = "m1\<lparr>cstore := (cstore m1)(?a := ?c)\<rparr>"
  have "keeps (cstore m1 ?a) ?c" by (simp add: keeps_def)
  from mux_inv_store [OF m1(2) this] have m2: "mux_inv ?m2" .
  from assms(3) m1(1) obtain m3 e3 where
    m3: "mux_sendMessage (ChannelOpenMsg ct (localId ?c) (myWindow ?c) (maxIncomingPayload ?c) extra) ?m2 = Ok (m3, e3)"
    by (auto simp: openChannel_send_def Let_def res_simps)
  then have i3: "mux_inv m3" using mux_sendMessage_inv [OF m3] m2 by simp
  have "keeps (cstore m3 ?a) (stopTimers (cstore m3 ?a))" by (simp add: keeps_def stopTimers_def)
  from mux_inv_store [OF i3 this] i3 m3 m1(1) assms(3) show ?thesis
    by (auto simp: openChannel_send_def Let_def split: option.splits)
qed

lemma keeps_updates [simp]:
  "keeps c (stopTimers c)" "keeps c (c\<lparr>msgs := ms\<rparr>)" "keeps c (stopTimers (c\<lparr>msgs := ms\<rparr>))"
  by (simp_all add: keeps_def stopTimers_def)

lemma openChannel_recv_inv:
  assumes "mux_inv m" "openChannel_recv takeMsg ctx a m = (m', r)"
  shows "mux_inv m'"
proof (cases "takeMsg \<and> msgs (cstore m a) \<noteq> []")
  case True
  then obtain x xs where x: "msgs (cstore m a) = x # xs" by (cases "msgs (cstore m a)") auto
  let ?c = "(cstore m a)\<lparr>msgs := xs\<rparr>"
  have "m' = m\<lparr>cstore := (cstore m)(a := ?c)\<rparr> \<or> m' = m\<lparr>cstore := (cstore m)(a := stopTimers ?c)\<rparr>"
    using assms(2) True x by (cases x) (simp_all add: openChannel_recv_def Let_def)
  then show ?thesis using mux_inv_store [OF assms(1)] by auto
next
  case False
  then have "m' = m \<or> m' = m\<lparr>cstore := (cstore m)(a := stopTimers (cstore m a))\<rparr>"
    using assms(2) by (auto simp: openChannel_recv_def Let_def split: if_splits)
  then show ?thesis using assms(1) mux_inv_store [OF assms(1)] by auto
qed

lemma mux_SendRequest_inv:
  assumes "mux_inv m" "mux_SendRequest takeResp ctx name wantReply payload m = Ok (m', r)"
  shows "mux_inv m'"
proof -
  from assms(2) obtain m1 e where s: "mux_sendMessage (GlobalRequestMsg name wantReply payload) m = Ok (m1, e)"
    by (auto simp: mux_SendRequest_def res_simps)
  have i: "mux_inv m1" using mux_sendMessage_inv [OF s] assms(1) by simp
  have "mux_inv (fst (globalReply takeResp ctx m1))"
    using i by (auto simp: globalReply_def mux_inv_def split: list.splits)
  with i s assms(2) show ?thesis
    by (auto simp: mux_SendRequest_def split: option.splits if_splits)
qed

lemma muxStep_inv: "muxStep m m' \<Longrightarrow> mux_inv m \<Longrightarrow> mux_inv m'"
proof (induction rule: muxStep.induct)
  case (packet p m now pick ctx m' r)
  then show ?case using onePacket_ok [of m p now pick ctx] by blast
next
  case (user op now m a c k)
  then show ?case using runOp_keeps mux_inv_channel by blast
next
  case (open_send m ct extra m' a e)
  then show ?case by (blast intro: openChannel_send_inv)
next
  case (open_recv takeMsg ctx a m m' r)
  then show ?case by (blast intro: openChannel_recv_inv)
next
  case (request takeResp ctx name wantReply payload m m' r)
  then show ?case by (blast intro: mux_SendRequest_inv)
next
  case (take_ch_request m a q qs)
  show ?case by (rule mux_inv_store [OF take_ch_request(2)]) (simp add: keeps_def)
qed (simp_all add: mux_inv_def)

lemma newMux_inv: "mux_inv (newMux k st)"
  by (simp add: newMux_def mux_inv_def getChan_def)

lemma mux_reach_inv: "muxStep\<^sup>*\<^sup>* (newMux k st) m \<Longrightarrow> mux_inv m"
  by (induction rule: rtranclp_induct) (auto intro: newMux_inv muxStep_inv)

lemma mux_newChannel_isolated:
  "mux_newChannel ct dir ex m = Ok (a, m1) \<Longrightarrow> a = nextAddr m \<and> (\<forall>b < nextAddr m. cstore m1 b = cstore m b)"
  by (auto simp: mux_newChannel_def Let_def res_simps split: prod.splits)

lemma mux_deliver_cases: "mux_deliver o' s m = Ok (x, r) \<Longrightarrow> x = s \<or> x = m"
  by (auto simp: mux_deliver_def split: selOut.splits)

lemma handleChannelOpen_isolated:
  assumes "handleChannelOpen pick ctx p m = Ok (m', r)" "b < nextAddr m"
  shows "cstore m' b = cstore m b"
proof -
  consider "m' = m" | msg e where "mux_sendMessage msg m = Ok (m', e)"
    | ct i w mx ex a m1 o' where "mux_newChannel ct ChannelInbound ex m = Ok (a, m1)"
      "mux_deliver o' (m1\<lparr>cstore := (cstore m1)(a := (cstore m1 a)\<lparr>remoteId := i, maxRemotePayload := mx,
          remoteWin := snd (window_add w (remoteWin (cstore m1 a)))\<rparr>), incoming := incoming m1 @ [a]\<rparr>)
        (m1\<lparr>cstore := (cstore m1)(a := (cstore m1 a)\<lparr>remoteId := i, maxRemotePayload := mx,
          remoteWin := snd (window_add w (remoteWin (cstore m1 a)))\<rparr>)\<rparr>) = Ok (m', r)"
    using assms(1)
    by (auto simp: handleChannelOpen_def Let_def res_simps wrongKind_def split: res.splits message.splits if_splits)
  then show ?thesis
  proof cases
    case 2
    then show ?thesis using mux_sendMessage_inv by fastforce
  next
    case 3
    from mux_newChannel_isolated [OF 3(1)] mux_deliver_cases [OF 3(2)] assms(2) show ?thesis by auto
  qed simp
qed

section \<open>The end of the loop\<close>

lemma distinct_live:
  assumes "\<forall>i j. i < length xs \<longrightarrow> j < length xs \<longrightarrow> xs ! i = xs ! j \<longrightarrow> xs ! i \<noteq> None \<longrightarrow> i = j"
  shows "distinct (map the (filter (\<lambda>c. c \<noteq> None) xs))"
  using assms
proof (induction xs)
  case (Cons x xs)
  have "\<forall>i j. i < length xs \<longrightarrow> j < length xs \<longrightarrow> xs ! i = xs ! j \<longrightarrow> xs ! i \<noteq> None \<longrightarrow> i = j"
    using Cons.prems by (metis Suc_less_eq length_Cons nat.inject nth_Cons_Suc)
  then have d: "distinct (map the (filter (\<lambda>c. c \<noteq> None) xs))" by (rule Cons.IH)
  have "x \<notin> set xs" if "x \<noteq> None"
  proof
    assume "x \<in> set xs"
    then obtain j where "j < length xs" "xs ! j = x" by (auto simp: in_set_conv_nth)
    with Cons.prems [rule_format, of 0 "Suc j"] that show False by simp
  qed
  with d show ?case by auto
qed simp

lemma mux_inv_distinct:
  assumes "mux_inv m" "idsLeft m"
  shows "distinct (fst (dropAll (clist m)))"
    "a \<in> set (fst (dropAll (clist m))) \<longleftrightarrow> (\<exists>i. getChan i (clist m) = Some a)"
proof -
  let ?l = "clist m"
  have len: "length (chans ?l) < 2 ^ 32" using assms by (simp add: mux_inv_def idsLeft_def)
  have at: "getChan (word_of_nat n + offset ?l) ?l = chans ?l ! n" if "n < length (chans ?l)" for n
    using that len by (simp add: getChan_nth [OF len] unat_of_nat)
  show "distinct (fst (dropAll ?l))"
  proof -
    have "i = j" if ij: "i < length (chans ?l)" "j < length (chans ?l)" "chans ?l ! i = Some b" "chans ?l ! j = Some b" for i j b
    proof -
      have "(word_of_nat i :: u32) = word_of_nat j"
        using at [OF ij(1)] at [OF ij(2)] ij(3,4) assms(1) unfolding mux_inv_def by (metis add_right_cancel)
      then have "unat (word_of_nat i :: u32) = unat (word_of_nat j :: u32)" by simp
      with ij(1,2) len show "i = j" by (simp add: unat_of_nat)
    qed
    then have "distinct (map the (filter (\<lambda>c. c \<noteq> None) (chans ?l)))"
      by (intro distinct_live) (metis not_None_eq)
    then show ?thesis by (simp add: dropAll_def)
  qed
  have "a \<in> set (fst (dropAll ?l)) \<longleftrightarrow> Some a \<in> set (chans ?l)" by (force simp: dropAll_def)
  also have "\<dots> \<longleftrightarrow> (\<exists>i. getChan i ?l = Some a)"
  proof
    assume "Some a \<in> set (chans ?l)"
    then obtain n where "n < length (chans ?l)" "chans ?l ! n = Some a" by (auto simp: in_set_conv_nth)
    with at show "\<exists>i. getChan i ?l = Some a" by metis
  next
    assume "\<exists>i. getChan i ?l = Some a"
    then obtain i where "getChan i ?l = Some a" ..
    then show "Some a \<in> set (chans ?l)" by (auto simp: getChan_nth [OF len] in_set_conv_nth split: if_splits)
  qed
  finally show "a \<in> set (fst (dropAll ?l)) \<longleftrightarrow> (\<exists>i. getChan i ?l = Some a)" .
qed

text \<open>A channel that was torn down.\<close>

definition tornDown :: "channel \<Rightarrow> bool" where
  "tornDown c \<longleftrightarrow> msgs_closed c \<and> requests_closed c \<and> sentClose c \<and> win_closed (remoteWin c) \<and>
     buf_closed (pending c) \<and> buf_closed (extPending c) \<and> reqStop (halt c) \<and> isDone (halt c) \<and>
     stopped (idleR c) \<and> stopped (idleW c)"

lemma ch_close_open: "ch_open c \<Longrightarrow> \<exists>c'. ch_close c = Ok c' \<and> tornDown c'"
  by (simp add: ch_close_def ch_open_def tornDown_def buf_eof_def window_close_def haltDone_def timerStop_def)

lemma closeAll_ok:
  "distinct as \<Longrightarrow> \<forall>a\<in>set as. ch_open (st a) \<Longrightarrow>
     \<exists>st'. closeAll as st = Ok st' \<and> (\<forall>a\<in>set as. tornDown (st' a)) \<and> (\<forall>a. a \<notin> set as \<longrightarrow> st' a = st a)"
proof (induction as arbitrary: st)
  case (Cons a as)
  from Cons.prems(2) obtain c where c: "ch_close (st a) = Ok c" "tornDown c" using ch_close_open by force
  have "\<forall>b\<in>set as. ch_open ((st(a := c)) b)" using Cons.prems by auto
  moreover have "distinct as" using Cons.prems(1) by simp
  ultimately obtain st' where
    "closeAll as (st(a := c)) = Ok st'" "\<forall>b\<in>set as. tornDown (st' b)" "\<forall>b. b \<notin> set as \<longrightarrow> st' b = (st(a := c)) b"
    using Cons.IH [of "st(a := c)"] by blast
  with c Cons.prems(1) show ?case by (intro exI [of _ st']) auto
qed simp

section \<open>Properties\<close>

text \<open>C26: No packet of the peer makes the packet loop panic: in every state reached by any interleaving of
  packets, users' calls on channels that may already be closed, channel opens, requests and a stop,
  handling one more non-empty packet returns; in particular it never sends on or closes a Go channel
  that is closed and never takes a message for a global one that is not. Fewer than \<open>2 ^ 32 - 1\<close>
  channels were created.\<close>

theorem mux_never_panics:
  assumes "muxStep\<^sup>*\<^sup>* (newMux k st) m" "idsLeft m" "p \<noteq> []"
  shows "\<not> is_Panic (onePacket now pick ctx p m)"
  using onePacket_ok [OF mux_reach_inv [OF assms(1)] assms(2,3)] by blast

theorem mux_never_panics_witness:
  "\<not> is_Panic (onePacket 0 True False [97, 0, 0, 0, 0] (newMux \<lparr>sent = [], conn_err = None\<rparr> (\<lambda>_. freshEnd)))"
  by (rule mux_never_panics [OF rtranclp.rtrancl_refl]) (simp_all add: idsLeft_def newMux_def)

text \<open>A packet touches only the channel it is addressed to: every other channel that exists is left
  exactly as it was.\<close>

theorem channel_isolation:
  assumes "onePacket now pick ctx p m = Ok (m', r)" "b < nextAddr m"
    "getChan (beUint32 (drop 1 p)) (clist m) \<noteq> Some b"
  shows "cstore m' b = cstore m b"
proof -
  obtain op rest where p: "p = op # rest" using assms(1) by (cases p) (auto simp: onePacket_def)
  consider "op = msgChannelOpen"
    | "op = msgGlobalRequest \<or> op = msgRequestSuccess \<or> op = msgRequestFailure"
    | "op \<noteq> msgChannelOpen" "op \<noteq> msgGlobalRequest" "op \<noteq> msgRequestSuccess" "op \<noteq> msgRequestFailure" by blast
  then show ?thesis
  proof cases
    case 1
    then have "handleChannelOpen pick ctx p m = Ok (m', r)" using assms(1) p by (simp add: onePacket_def)
    then show ?thesis by (rule handleChannelOpen_isolated [OF _ assms(2)])
  next
    case 2
    then have "handleGlobalPacket pick ctx p m = Ok (m', r)" using assms(1) p by (auto simp: onePacket_def)
    then show ?thesis
      by (auto simp: handleGlobalPacket_def mux_deliver_def split: res.splits message.splits selOut.splits)
  next
    case 3
    then show ?thesis using assms p
      by (auto simp: onePacket_def Let_def res_simps split: if_splits option.splits)
  qed
qed

theorem channel_isolation_witness:
  "\<exists>m' r. onePacket 0 True False [96, 0, 0, 0, 0]
      (newMux \<lparr>sent = [], conn_err = None\<rparr> (\<lambda>_. freshEnd)\<lparr>nextAddr := 2, clist := \<lparr>chans = [Some 0, Some 1], offset = 0\<rparr>\<rparr>)
      = Ok (m', r) \<and> cstore m' 1 = freshEnd \<and> buf_closed (pending (cstore m' 0))"
proof -
  let ?m = "newMux \<lparr>sent = [], conn_err = None\<rparr> (\<lambda>_. freshEnd)\<lparr>nextAddr := 2, clist := \<lparr>chans = [Some 0, Some 1], offset = 0\<rparr>\<rparr>"
  have g: "getChan 0 (clist ?m) = Some 0" by (simp add: getChan_def)
  obtain m' r where r: "onePacket 0 True False [96, 0, 0, 0, 0] ?m = Ok (m', r)" "buf_closed (pending (cstore m' 0))"
    using g by (simp add: onePacket_def handlePacket_def newMux_def buf_eof_def Let_def)
  have "cstore m' 1 = cstore ?m 1" by (rule channel_isolation [OF r(1)]) (use g in simp_all)
  with r show ?thesis by (auto simp: newMux_def)
qed

text \<open>C27: When the loop ends it tears down exactly the channels in the channel list: each is closed once,
  its buffers and window are closed so that blocked readers and writers return, its timers are
  stopped and its halter is done; the list is empty afterwards and the mux's Go channels are closed,
  without a panic.\<close>

theorem loop_exit_tears_down:
  assumes "muxStep\<^sup>*\<^sup>* (newMux k st) m" "idsLeft m"
  shows "\<exists>m'. loopExit err m = Ok m' \<and>
     (\<forall>a. if \<exists>i. getChan i (clist m) = Some a then tornDown (cstore m' a) else cstore m' a = cstore m a) \<and>
     (\<forall>i. getChan i (clist m') = None) \<and> mux_err m' = Some err \<and>
     incoming_closed m' \<and> mreqs_closed m' \<and> gresp_closed m' \<and> conn_shut m'"
proof -
  have i: "mux_inv m" using mux_reach_inv [OF assms(1)] .
  obtain as cl where d: "dropAll (clist m) = (as, cl)" by fastforce
  note dist = mux_inv_distinct [OF i assms(2), unfolded d fst_conv]
  have "\<forall>a\<in>set as. ch_open (cstore m a)" using dist(2) i by (auto simp: mux_inv_def)
  from closeAll_ok [OF dist(1) this] obtain st' where
    st': "closeAll as (cstore m) = Ok st'" "\<forall>a\<in>set as. tornDown (st' a)" "\<forall>a. a \<notin> set as \<longrightarrow> st' a = cstore m a" by blast
  have "chans cl = []" using d by (auto simp: dropAll_def)
  with d st' dist(2) i show ?thesis
    by (simp add: loopExit_def mux_inv_def getChan_def)
qed

theorem loop_exit_tears_down_witness:
  "\<exists>m'. loopExit IoEOF (newMux \<lparr>sent = [], conn_err = None\<rparr> (\<lambda>_. freshEnd)) = Ok m' \<and> mux_err m' = Some IoEOF"
proof -
  have "idsLeft (newMux \<lparr>sent = [], conn_err = None\<rparr> (\<lambda>_. freshEnd))" by (simp add: idsLeft_def newMux_def)
  from loop_exit_tears_down [OF rtranclp.rtrancl_refl this, of IoEOF] show ?thesis by blast
qed

end
