(* ===== verification/OpenHandshake.thy ===== *)
theory OpenHandshake
  imports MuxSafety
begin

text \<open>
  Opening a channel between two muxes: \<open>openChannel\<close> on one side, the packet loop and
  \<open>Accept\<close> on the other, and the confirmation on the first side again, with the packets that
  travel between them. It ends with two channel ends that know each other's ids, windows and
  packet sizes, which is the premise of the flow-control results.
\<close>

lemma newChannel_fields:
  assumes "newChannel ct dir extra lid = Ok c"
  shows "localId c = lid" "direction c = dir" "myWindow c = channelWindowSize" "\<not> decided c" "msgs c = []"
    "\<not> msgs_closed c" "\<not> sentClose c" "pending c = newBuffer" "extPending c = newBuffer"
    "remoteWin c = \<lparr>win = 0, writeWaiters = 0, win_closed = False\<rparr>" "\<not> reqStop (halt c)"
  using assms by (auto simp: newChannel_def NewIdleTimer_def AddTimeoutCallback_def NewHalter_def)

lemma connWrite_sent: "conn_err k = None \<Longrightarrow> connWrite p k = (k\<lparr>sent := sent k @ [p]\<rparr>, None)"
  by (simp add: connWrite_def)

definition openMsg :: "string \<Rightarrow> u32 \<Rightarrow> bytes \<Rightarrow> message" where
  "openMsg ct lid extra = ChannelOpenMsg ct lid channelWindowSize channelMaxPacket extra"

definition confirmMsg :: "u32 \<Rightarrow> u32 \<Rightarrow> message" where
  "confirmMsg pid mid = ChannelOpenConfirmMsg pid mid channelWindowSize channelMaxPacket []"

lemma openMsg_bytes:
  assumes "length ct + length extra < 2 ^ 31"
  shows "MarshalMsg (openMsg ct lid extra) = Ok (msgBytes (openMsg ct lid extra))"
    "UnmarshalMsg T_channelOpenMsg (msgBytes (openMsg ct lid extra)) = Ok (openMsg ct lid extra)"
    "\<exists>r. msgBytes (openMsg ct lid extra) = 90 # r"
proof -
  have ok: "msg_ok (openMsg ct lid extra)" using assms by (simp add: msg_ok_def openMsg_def)
  then show "MarshalMsg (openMsg ct lid extra) = Ok (msgBytes (openMsg ct lid extra))" by (rule MarshalMsg_ok)
  have b: "msgBytes (openMsg ct lid extra) = 90 # writeString [] (bytes_of_string ct) @ be32 lid @
      be32 channelWindowSize @ be32 channelMaxPacket @ extra"
    by (subst msgBytes_tag) (simp_all add: openMsg_def)
  then show "\<exists>r. msgBytes (openMsg ct lid extra) = 90 # r" by simp
  have "length (msgBytes (openMsg ct lid extra)) < 2 ^ 32" using assms b by (simp add: writeString_def)
  from UnmarshalMsg_msgBytes [OF ok this]
  show "UnmarshalMsg T_channelOpenMsg (msgBytes (openMsg ct lid extra)) = Ok (openMsg ct lid extra)"
    by (simp add: openMsg_def)
qed

lemma confirmMsg_bytes:
  "MarshalMsg (confirmMsg p i) = Ok (91 # be32 p @ be32 i @ be32 channelWindowSize @ be32 channelMaxPacket)"
  "decode (91 # be32 p @ be32 i @ be32 channelWindowSize @ be32 channelMaxPacket) = Ok (confirmMsg p i)"
proof -
  have b: "msgBytes (confirmMsg p i) = 91 # be32 p @ be32 i @ be32 channelWindowSize @ be32 channelMaxPacket"
    by (subst msgBytes_tag) (simp_all add: confirmMsg_def)
  have ok: "msg_ok (confirmMsg p i)" "decodable (mtypeOf (confirmMsg p i))" "length (msgBytes (confirmMsg p i)) < 2 ^ 32"
    by (simp_all add: msg_ok_def confirmMsg_def decodable_def b [unfolded confirmMsg_def])
  show "MarshalMsg (confirmMsg p i) = Ok (91 # be32 p @ be32 i @ be32 channelWindowSize @ be32 channelMaxPacket)"
    using MarshalMsg_ok [OF ok(1)] by (simp only: b)
  show "decode (91 # be32 p @ be32 i @ be32 channelWindowSize @ be32 channelMaxPacket) = Ok (confirmMsg p i)"
    using decode_msgBytes [OF ok] by (simp only: b)
qed

section \<open>The four steps\<close>

lemma open_send_ok:
  assumes "conn_err (mconn m) = None" "length ct + length extra < 2 ^ 31" "cl_add (nextAddr m) (clist m) = (lid, cl)"
    "newChannel ct ChannelOutbound extra lid = Ok c"
  shows "openChannel_send ct extra m = Ok (m\<lparr>
      cstore := (cstore m)(nextAddr m := c\<lparr>maxIncomingPayload := channelMaxPacket\<rparr>),
      nextAddr := Suc (nextAddr m), clist := cl,
      mconn := (mconn m)\<lparr>sent := sent (mconn m) @ [msgBytes (openMsg ct lid extra)]\<rparr>\<rparr>, nextAddr m, None)"
  using assms newChannel_fields [OF assms(4)] openMsg_bytes(1) [OF assms(2), of lid]
  by (simp add: openChannel_send_def mux_newChannel_def mux_sendMessage_def openMsg_def connWrite_sent Let_def)

lemma peer_open_ok:
  assumes "length ct + length extra < 2 ^ 31" "cl_add (nextAddr m) (clist m) = (i, cl)"
    "newChannel ct ChannelInbound extra i = Ok c" "\<not> incoming_closed m" "length (incoming m) < chanSize"
  shows "onePacket now True False (msgBytes (openMsg ct lid extra)) m = Ok (m\<lparr>
      cstore := (cstore m)(nextAddr m := c\<lparr>remoteId := lid, maxRemotePayload := channelMaxPacket,
        remoteWin := (remoteWin c)\<lparr>win := channelWindowSize\<rparr>\<rparr>),
      nextAddr := Suc (nextAddr m), clist := cl, incoming := incoming m @ [nextAddr m]\<rparr>, HpNil)"
proof -
  obtain r where r: "msgBytes (openMsg ct lid extra) = 90 # r" using openMsg_bytes(3) [OF assms(1)] by blast
  have "snd (window_add channelWindowSize (remoteWin c)) = (remoteWin c)\<lparr>win := channelWindowSize\<rparr>"
    using newChannel_fields(10) [OF assms(3)] by (simp add: window_add_def)
  then show ?thesis using assms(2-5) openMsg_bytes(2) [OF assms(1), of lid] r
    by (simp add: onePacket_def handleChannelOpen_def openMsg_def mux_newChannel_def mux_deliver_def selSendCap_def Let_def)
qed

lemma accept_ok:
  assumes "conn_err k = None" "\<not> decided c" "\<not> sentClose c" "myWindow c = channelWindowSize"
  shows "\<exists>i. Accept now (c, k) = Ok ((c\<lparr>maxIncomingPayload := channelMaxPacket, decided := True, idleW := i, sentClose := False\<rparr>,
     k\<lparr>sent := sent k @ [91 # be32 (remoteId c) @ be32 (localId c) @ be32 channelWindowSize @ be32 channelMaxPacket]\<rparr>), None)"
  using assms confirmMsg_bytes(1) [of "remoteId c" "localId c"]
  by (simp add: Accept_def Let_def ch_sendMessage_def confirmMsg_def putUint32_def ch_writePacket_def connWrite_sent)
    (intro exI [of _ "AttemptOK (idleW c) now"], simp)

lemma confirm_ok:
  assumes "\<not> decided c" "direction c = ChannelOutbound" "msgs c = []" "\<not> msgs_closed c"
    "remoteWin c = \<lparr>win = 0, writeWaiters = 0, win_closed = False\<rparr>"
  shows "\<exists>i. handlePacket now True ms (91 # be32 p @ be32 rid @ be32 channelWindowSize @ be32 channelMaxPacket) (c, k) =
     Ok ((c\<lparr>idleR := i, decided := True, remoteId := rid, maxRemotePayload := channelMaxPacket,
       remoteWin := \<lparr>win = channelWindowSize, writeWaiters = 0, win_closed = False\<rparr>, msgs := [confirmMsg p rid]\<rparr>, k), [], HpNil)"
  using assms confirmMsg_bytes(2) [of p rid]
  by (simp add: handlePacket_def Let_def confirmMsg_def handleDecoded_def responseMessageReceived_def
      window_add_def deliverMsg_def selSend_def) (intro exI [of _ "AttemptOK (idleR c) now"], simp)

section \<open>Properties\<close>

text \<open>C28: Opening a channel works end to end. The opener's packet makes the other side's loop queue a new
  inbound channel; accepting it sends a confirmation; handling that makes the opener's call return
  without error; and the two ends then agree: each knows the other's id, each side's send window is the
  other's receive window, and each side's packet limit is the other's, so the flow-control results
  hold in both directions.\<close>

theorem open_channel_establishes:
  assumes A: "mux_inv A" "idsLeft A" "conn_err (mconn A) = None"
    and B: "mux_inv B" "idsLeft B" "conn_err (mconn B) = None" "length (incoming B) < chanSize"
    and len: "length ct + length extra < 2 ^ 31"
  shows "\<exists>A1 p B1 b k q A2 A3 a.
    openChannel_send ct extra A = Ok (A1, nextAddr A, None) \<and> sent (mconn A1) = sent (mconn A) @ [p] \<and>
    onePacket now True False p B = Ok (B1, HpNil) \<and> incoming B1 = incoming B @ [nextAddr B] \<and>
    chanType (cstore B1 (nextAddr B)) = ct \<and> extraData (cstore B1 (nextAddr B)) = extra \<and>
    Accept now (cstore B1 (nextAddr B), mconn B1) = Ok ((b, k), None) \<and> sent k = sent (mconn B1) @ [q] \<and>
    onePacket now True False q A1 = Ok (A2, HpNil) \<and>
    openChannel_recv True False (nextAddr A) A2 = (A3, Some None) \<and> a = cstore A3 (nextAddr A) \<and>
    remoteId a = localId b \<and> remoteId b = localId a \<and>
    established \<lparr>sndr = a, data_way = \<lparr>sent = [], conn_err = None\<rparr>, rcvr = b, adj_way = \<lparr>sent = [], conn_err = None\<rparr>,
       wrote = (\<lambda>_. []), got = (\<lambda>_. []), failed = False\<rparr> \<and>
    established \<lparr>sndr = b, data_way = \<lparr>sent = [], conn_err = None\<rparr>, rcvr = a, adj_way = \<lparr>sent = [], conn_err = None\<rparr>,
       wrote = (\<lambda>_. []), got = (\<lambda>_. []), failed = False\<rparr>"
proof -
  obtain lid cl where addA: "cl_add (nextAddr A) (clist A) = (lid, cl)" by fastforce
  obtain bid cl' where addB: "cl_add (nextAddr B) (clist B) = (bid, cl')" by fastforce
  obtain c where c: "newChannel ct ChannelOutbound extra lid = Ok c" using newChannel_ok by blast
  obtain d where d: "newChannel ct ChannelInbound extra bid = Ok d" using newChannel_ok by blast
  note cf = newChannel_fields [OF c] and df = newChannel_fields [OF d]
  have dt: "chanType d = ct" "extraData d = extra"
    using d by (auto simp: newChannel_def NewIdleTimer_def AddTimeoutCallback_def)
  let ?c1 = "c\<lparr>maxIncomingPayload := channelMaxPacket\<rparr>"
  let ?p = "msgBytes (openMsg ct lid extra)"
  define A1 where "A1 = A\<lparr>cstore := (cstore A)(nextAddr A := ?c1), nextAddr := Suc (nextAddr A), clist := cl,
      mconn := (mconn A)\<lparr>sent := sent (mconn A) @ [?p]\<rparr>\<rparr>"
  have 1: "openChannel_send ct extra A = Ok (A1, nextAddr A, None)"
    unfolding A1_def by (rule open_send_ok [OF A(3) len addA c])
  let ?d1 = "d\<lparr>remoteId := lid, maxRemotePayload := channelMaxPacket, remoteWin := (remoteWin d)\<lparr>win := channelWindowSize\<rparr>\<rparr>"
  define B1 where "B1 = B\<lparr>cstore := (cstore B)(nextAddr B := ?d1), nextAddr := Suc (nextAddr B), clist := cl',
      incoming := incoming B @ [nextAddr B]\<rparr>"
  have 2: "onePacket now True False ?p B = Ok (B1, HpNil)"
    unfolding B1_def by (rule peer_open_ok [OF len addB d]) (use B in \<open>simp_all add: mux_inv_def\<close>)
  let ?q = "91 # be32 lid @ be32 bid @ be32 channelWindowSize @ be32 channelMaxPacket"
  have "\<exists>i. Accept now (?d1, mconn B) = Ok ((?d1\<lparr>maxIncomingPayload := channelMaxPacket, decided := True, idleW := i,
      sentClose := False\<rparr>, (mconn B)\<lparr>sent := sent (mconn B) @ [?q]\<rparr>), None)"
    using accept_ok [OF B(3), of ?d1 now] df by simp
  then obtain i where 3: "Accept now (?d1, mconn B) = Ok ((?d1\<lparr>maxIncomingPayload := channelMaxPacket, decided := True,
      idleW := i, sentClose := False\<rparr>, (mconn B)\<lparr>sent := sent (mconn B) @ [?q]\<rparr>), None)"
    (is "_ = Ok ((?b, ?k), None)") ..
  have "\<exists>j. handlePacket now True (mux_stop A1) ?q (?c1, mconn A1) = Ok ((?c1\<lparr>idleR := j, decided := True,
      remoteId := bid, maxRemotePayload := channelMaxPacket,
      remoteWin := \<lparr>win = channelWindowSize, writeWaiters = 0, win_closed = False\<rparr>, msgs := [confirmMsg lid bid]\<rparr>,
      mconn A1), [], HpNil)"
    by (rule confirm_ok) (use cf in simp_all)
  then obtain j where h: "handlePacket now True (mux_stop A1) ?q (?c1, mconn A1) = Ok ((?c1\<lparr>idleR := j, decided := True,
      remoteId := bid, maxRemotePayload := channelMaxPacket,
      remoteWin := \<lparr>win = channelWindowSize, writeWaiters = 0, win_closed = False\<rparr>, msgs := [confirmMsg lid bid]\<rparr>,
      mconn A1), [], HpNil)" (is "_ = Ok ((?c2, _), _, _)") ..
  have "length (chans (clist A)) \<le> nextAddr A" using A(1) by (simp add: mux_inv_def)
  then have room: "0 < cl_room (clist A)" using A(2) by (simp add: cl_room_def idsLeft_def)
  have get: "getChan lid cl = Some (nextAddr A)" using chtab.add_get [OF room addA] by simp
  let ?A2 = "A1\<lparr>cstore := (cstore A1)(nextAddr A := ?c2)\<rparr>"
  have 4: "onePacket now True False ?q A1 = Ok (?A2, HpNil)"
    using h get by (simp add: onePacket_def A1_def Let_def)
  let ?A3 = "A1\<lparr>cstore := (cstore A1)(nextAddr A := ?c2\<lparr>msgs := []\<rparr>)\<rparr>"
  have 5: "openChannel_recv True False (nextAddr A) ?A2 = (?A3, Some None)"
    by (simp add: openChannel_recv_def Let_def confirmMsg_def)
  show ?thesis
    by (rule exI [of _ A1], rule exI [of _ ?p], rule exI [of _ B1], rule exI [of _ ?b], rule exI [of _ ?k],
        rule exI [of _ ?q], rule exI [of _ ?A2], rule exI [of _ ?A3], rule exI [of _ "?c2\<lparr>msgs := []\<rparr>"])
      (use 1 2 3 4 5 cf df dt in \<open>simp add: A1_def B1_def established_def\<close>)
qed

theorem open_channel_establishes_witness:
  "\<exists>A1 p B1. openChannel_send ''session'' [] (newMux \<lparr>sent = [], conn_err = None\<rparr> (\<lambda>_. freshEnd)) = Ok (A1, 0, None) \<and>
     sent (mconn A1) = [p] \<and>
     onePacket 0 True False p (newMux \<lparr>sent = [], conn_err = None\<rparr> (\<lambda>_. freshEnd)) = Ok (B1, HpNil) \<and>
     chanType (cstore B1 0) = ''session''"
proof -
  let ?m = "newMux \<lparr>sent = [], conn_err = None\<rparr> (\<lambda>_. freshEnd)"
  have m: "mux_inv ?m" "idsLeft ?m" "conn_err (mconn ?m) = None" "length (incoming ?m) < 16"
    by (simp_all add: newMux_inv idsLeft_def) (simp_all add: newMux_def)
  have "length ''session'' + length ([] :: bytes) < 2 ^ 31" by simp
  from open_channel_establishes [OF m(1-3) m this, of 0]
  show ?thesis by (auto simp: newMux_def)
qed

end
