(* ===== verification/Negotiation.thy ===== *)
theory Negotiation
  imports Messages
begin

text \<open>
  Algorithm negotiation and configuration (\<open>src/common.go\<close>, lines 20 to 273, and the table
  of ciphers of \<open>src/cipher.go\<close> it consults): the supported algorithm lists,
  \<open>findCommon\<close>, \<open>findAgreedAlgorithms\<close>, \<open>rekeyBytes\<close>,
  \<open>Config.SetDefaults\<close> and \<open>buildDataSignedForAuth\<close>. A nil slice is \<open>None\<close>.
\<close>

section \<open>Constants\<close>

abbreviation (input) kexAlgoDH1SHA1 :: string where "kexAlgoDH1SHA1 \<equiv> ''diffie-hellman-group1-sha1''"
abbreviation (input) kexAlgoDH14SHA1 :: string where "kexAlgoDH14SHA1 \<equiv> ''diffie-hellman-group14-sha1''"
abbreviation (input) kexAlgoECDH256 :: string where "kexAlgoECDH256 \<equiv> ''ecdh-sha2-nistp256''"
abbreviation (input) kexAlgoECDH384 :: string where "kexAlgoECDH384 \<equiv> ''ecdh-sha2-nistp384''"
abbreviation (input) kexAlgoECDH521 :: string where "kexAlgoECDH521 \<equiv> ''ecdh-sha2-nistp521''"
abbreviation (input) kexAlgoCurve25519SHA256 :: string where
  "kexAlgoCurve25519SHA256 \<equiv> ''curve25519-sha256@libssh.org''"
abbreviation (input) KeyAlgoRSA :: string where "KeyAlgoRSA \<equiv> ''ssh-rsa''"
abbreviation (input) KeyAlgoDSA :: string where "KeyAlgoDSA \<equiv> ''ssh-dss''"
abbreviation (input) KeyAlgoECDSA256 :: string where "KeyAlgoECDSA256 \<equiv> ''ecdsa-sha2-nistp256''"
abbreviation (input) KeyAlgoECDSA384 :: string where "KeyAlgoECDSA384 \<equiv> ''ecdsa-sha2-nistp384''"
abbreviation (input) KeyAlgoECDSA521 :: string where "KeyAlgoECDSA521 \<equiv> ''ecdsa-sha2-nistp521''"
abbreviation (input) KeyAlgoED25519 :: string where "KeyAlgoED25519 \<equiv> ''ssh-ed25519''"
abbreviation (input) CertAlgoRSAv01 :: string where "CertAlgoRSAv01 \<equiv> ''ssh-rsa-cert-v01@openssh.com''"
abbreviation (input) CertAlgoDSAv01 :: string where "CertAlgoDSAv01 \<equiv> ''ssh-dss-cert-v01@openssh.com''"
abbreviation (input) CertAlgoECDSA256v01 :: string where
  "CertAlgoECDSA256v01 \<equiv> ''ecdsa-sha2-nistp256-cert-v01@openssh.com''"
abbreviation (input) CertAlgoECDSA384v01 :: string where
  "CertAlgoECDSA384v01 \<equiv> ''ecdsa-sha2-nistp384-cert-v01@openssh.com''"
abbreviation (input) CertAlgoECDSA521v01 :: string where
  "CertAlgoECDSA521v01 \<equiv> ''ecdsa-sha2-nistp521-cert-v01@openssh.com''"
abbreviation (input) CertAlgoED25519v01 :: string where
  "CertAlgoED25519v01 \<equiv> ''ssh-ed25519-cert-v01@openssh.com''"
abbreviation (input) gcmCipherID :: string where "gcmCipherID \<equiv> ''aes128-gcm@openssh.com''"
abbreviation (input) aes128cbcID :: string where "aes128cbcID \<equiv> ''aes128-cbc''"
abbreviation (input) tripledescbcID :: string where "tripledescbcID \<equiv> ''3des-cbc''"
abbreviation (input) compressionNone :: string where "compressionNone \<equiv> ''none''"
abbreviation (input) serviceUserAuth :: string where "serviceUserAuth \<equiv> ''ssh-userauth''"
abbreviation (input) serviceSSH :: string where "serviceSSH \<equiv> ''ssh-connection''"

definition supportedCiphers :: "string list" where
  "supportedCiphers = [''aes128-ctr'', ''aes192-ctr'', ''aes256-ctr'', ''aes128-gcm@openssh.com'',
     ''arcfour256'', ''arcfour128'']"

definition supportedKexAlgos :: "string list" where
  "supportedKexAlgos = [kexAlgoCurve25519SHA256, kexAlgoECDH256, kexAlgoECDH384, kexAlgoECDH521,
     kexAlgoDH14SHA1, kexAlgoDH1SHA1]"

definition supportedHostKeyAlgos :: "string list" where
  "supportedHostKeyAlgos = [CertAlgoRSAv01, CertAlgoDSAv01, CertAlgoECDSA256v01,
     CertAlgoECDSA384v01, CertAlgoECDSA521v01, CertAlgoED25519v01,
     KeyAlgoECDSA256, KeyAlgoECDSA384, KeyAlgoECDSA521, KeyAlgoRSA, KeyAlgoDSA, KeyAlgoED25519]"

definition supportedMACs :: "string list" where
  "supportedMACs = [''hmac-sha2-256-etm@openssh.com'', ''hmac-sha2-256'', ''hmac-sha1'', ''hmac-sha1-96'']"

definition supportedCompressions :: "string list" where
  "supportedCompressions = [compressionNone]"

datatype cryptoHash = SHA1 | SHA256 | SHA384 | SHA512

definition hashFuncs :: "string \<rightharpoonup> cryptoHash" where
  "hashFuncs = map_of [(KeyAlgoRSA, SHA1), (KeyAlgoDSA, SHA1), (KeyAlgoECDSA256, SHA256),
     (KeyAlgoECDSA384, SHA384), (KeyAlgoECDSA521, SHA512), (CertAlgoRSAv01, SHA1),
     (CertAlgoDSAv01, SHA1), (CertAlgoECDSA256v01, SHA256), (CertAlgoECDSA384v01, SHA384),
     (CertAlgoECDSA521v01, SHA512)]"

text \<open>The cipher table of \<open>src/cipher.go\<close>; \<open>createFunc\<close> is nil for the special cases.\<close>

datatype createFunc = NewAESCTR | NewRC4 | NilFunc

record streamCipherMode =
  keySize :: nat
  ivSize :: nat
  skip :: nat
  createFn :: createFunc

definition cipherModes :: "string \<rightharpoonup> streamCipherMode" where
  "cipherModes = map_of
     [(''aes128-ctr'', \<lparr>keySize = 16, ivSize = 16, skip = 0, createFn = NewAESCTR\<rparr>),
      (''aes192-ctr'', \<lparr>keySize = 24, ivSize = 16, skip = 0, createFn = NewAESCTR\<rparr>),
      (''aes256-ctr'', \<lparr>keySize = 32, ivSize = 16, skip = 0, createFn = NewAESCTR\<rparr>),
      (''arcfour128'', \<lparr>keySize = 16, ivSize = 0, skip = 1536, createFn = NewRC4\<rparr>),
      (''arcfour256'', \<lparr>keySize = 32, ivSize = 0, skip = 1536, createFn = NewRC4\<rparr>),
      (''arcfour'', \<lparr>keySize = 16, ivSize = 0, skip = 0, createFn = NewRC4\<rparr>),
      (gcmCipherID, \<lparr>keySize = 16, ivSize = 12, skip = 0, createFn = NilFunc\<rparr>),
      (aes128cbcID, \<lparr>keySize = 16, ivSize = 16, skip = 0, createFn = NilFunc\<rparr>),
      (tripledescbcID, \<lparr>keySize = 24, ivSize = 8, skip = 0, createFn = NilFunc\<rparr>)]"

section \<open>Negotiation\<close>

fun inList :: "string \<Rightarrow> string list \<Rightarrow> bool" where
  "inList c [] = False"
| "inList c (s # ss) = (if c = s then True else inList c ss)"

fun findCommonLoop :: "string list \<Rightarrow> string list \<Rightarrow> string option" where
  "findCommonLoop [] server = None"
| "findCommonLoop (c # cs) server = (if inList c server then Some c else findCommonLoop cs server)"

definition findCommon :: "string \<Rightarrow> string list \<Rightarrow> string list \<Rightarrow> string res" where
  "findCommon what client server =
     (case findCommonLoop client server of Some c \<Rightarrow> Ok c
      | None \<Rightarrow> Err (Errorf
          ''ssh: no common algorithm for %s; client offered: %v, server offered: %v'' []
          (what # client @ server)))"

record directionAlgorithms =
  Cipher :: string
  MAC :: string
  Compression :: string

definition rekeyBytes :: "directionAlgorithms \<Rightarrow> int" where
  "rekeyBytes a =
     (if Cipher a \<in> {''aes128-ctr'', ''aes192-ctr'', ''aes256-ctr'', gcmCipherID, aes128cbcID}
      then 16 * (2 ^ 32) else 2 ^ 30)"

record algorithms =
  kex :: string
  hostKey :: string
  alg_w :: directionAlgorithms
  alg_r :: directionAlgorithms

text \<open>The struct \<open>kexInitMsg\<close>, and its place in the union of messages.\<close>

record kexInitMsg =
  Cookie :: bytes
  KexAlgos :: "string list"
  ServerHostKeyAlgos :: "string list"
  CiphersClientServer :: "string list"
  CiphersServerClient :: "string list"
  MACsClientServer :: "string list"
  MACsServerClient :: "string list"
  CompressionClientServer :: "string list"
  CompressionServerClient :: "string list"
  LanguagesClientServer :: "string list"
  LanguagesServerClient :: "string list"
  FirstKexFollows :: bool
  Reserved :: u32

definition kexInitMessage :: "kexInitMsg \<Rightarrow> message" where
  "kexInitMessage k = KexInitMsg (Cookie k) (KexAlgos k) (ServerHostKeyAlgos k)
     (CiphersClientServer k) (CiphersServerClient k) (MACsClientServer k) (MACsServerClient k)
     (CompressionClientServer k) (CompressionServerClient k) (LanguagesClientServer k)
     (LanguagesServerClient k) (FirstKexFollows k) (Reserved k)"

fun kexInitOf :: "message \<Rightarrow> kexInitMsg option" where
  "kexInitOf (KexInitMsg c ka hk ccs csc mcs msc pcs psc lcs lsc f r) =
     Some \<lparr>Cookie = c, KexAlgos = ka, ServerHostKeyAlgos = hk, CiphersClientServer = ccs,
       CiphersServerClient = csc, MACsClientServer = mcs, MACsServerClient = msc,
       CompressionClientServer = pcs, CompressionServerClient = psc,
       LanguagesClientServer = lcs, LanguagesServerClient = lsc, FirstKexFollows = f, Reserved = r\<rparr>"
| "kexInitOf _ = None"

definition findAgreedAlgorithms :: "kexInitMsg \<Rightarrow> kexInitMsg \<Rightarrow> algorithms res" where
  "findAgreedAlgorithms c s =
     res_bind (findCommon ''key exchange'' (KexAlgos c) (KexAlgos s)) (\<lambda>k.
     res_bind (findCommon ''host key'' (ServerHostKeyAlgos c) (ServerHostKeyAlgos s)) (\<lambda>hk.
     res_bind (findCommon ''client to server cipher'' (CiphersClientServer c) (CiphersClientServer s)) (\<lambda>wc.
     res_bind (findCommon ''server to client cipher'' (CiphersServerClient c) (CiphersServerClient s)) (\<lambda>rc.
     res_bind (findCommon ''client to server MAC'' (MACsClientServer c) (MACsClientServer s)) (\<lambda>wm.
     res_bind (findCommon ''server to client MAC'' (MACsServerClient c) (MACsServerClient s)) (\<lambda>rm.
     res_bind (findCommon ''client to server compression''
        (CompressionClientServer c) (CompressionClientServer s)) (\<lambda>wp.
     res_bind (findCommon ''server to client compression''
        (CompressionServerClient c) (CompressionServerClient s)) (\<lambda>rp.
       Ok \<lparr>kex = k, hostKey = hk,
           alg_w = \<lparr>Cipher = wc, MAC = wm, Compression = wp\<rparr>,
           alg_r = \<lparr>Cipher = rc, MAC = rm, Compression = rp\<rparr>\<rparr>))))))))"

section \<open>Configuration\<close>

text \<open>
  \<open>'r\<close> is the type of entropy sources and \<open>'h\<close> of halters; the allocated default
  source and halter are arguments of \<open>SetDefaults\<close>. Appending to a nil slice leaves it nil
  when nothing is appended, so an empty list of ciphers becomes \<open>None\<close>.
\<close>

record ('r, 'h) Config =
  Rand :: "'r option"
  RekeyThreshold :: u64
  KeyExchanges :: "string list option"
  Ciphers :: "string list option"
  MACs :: "string list option"
  Halt :: "'h option"

definition minRekeyThreshold :: u64 where
  "minRekeyThreshold = 256"

definition maxInt64 :: u64 where
  "maxInt64 = 0x7fffffffffffffff"

definition sliceOf :: "'a list \<Rightarrow> 'a list option" where
  "sliceOf xs = (if xs = [] then None else Some xs)"

definition SetDefaults :: "'r \<Rightarrow> 'h \<Rightarrow> ('r, 'h) Config \<Rightarrow> ('r, 'h) Config" where
  "SetDefaults randReader newHalter c =
     (let ciphers0 = (case Ciphers c of None \<Rightarrow> supportedCiphers | Some cs \<Rightarrow> cs);
          thr = RekeyThreshold c
      in c\<lparr>Rand := (case Rand c of None \<Rightarrow> Some randReader | r \<Rightarrow> r),
           Ciphers := sliceOf (filter (\<lambda>n. cipherModes n \<noteq> None) ciphers0),
           KeyExchanges := (case KeyExchanges c of None \<Rightarrow> Some supportedKexAlgos | k \<Rightarrow> k),
           MACs := (case MACs c of None \<Rightarrow> Some supportedMACs | m \<Rightarrow> m),
           RekeyThreshold := (if thr = 0 then thr
              else if thr < minRekeyThreshold then minRekeyThreshold
              else if thr \<ge> maxInt64 then maxInt64 else thr),
           Halt := (case Halt c of None \<Rightarrow> Some newHalter | h \<Rightarrow> h)\<rparr>)"

definition signedDataStruct :: structType where
  "signedDataStruct = \<lparr>sname = [], sshtype = [], sfields =
     [(''Session'', KBytes), (''Type'', KUint8), (''User'', KString), (''Service'', KString),
      (''Method'', KString), (''Sign'', KBool), (''Algo'', KBytes), (''PubKey'', KBytes)]\<rparr>"

definition buildDataSignedForAuth ::
    "bytes \<Rightarrow> string \<Rightarrow> string \<Rightarrow> string \<Rightarrow> bytes \<Rightarrow> bytes \<Rightarrow> bytes res" where
  "buildDataSignedForAuth sessionId user service method algo pubKey =
     Marshal signedDataStruct [VBytes sessionId, VU8 msgUserAuthRequest, VString user,
       VString service, VString method, VBool True, VBytes algo, VBytes pubKey]"

section \<open>Lemmas\<close>

lemma inList_iff [simp]: "inList c ss \<longleftrightarrow> c \<in> set ss"
  by (induction ss) auto

lemma findCommonLoop_find: "findCommonLoop cs ss = List.find (\<lambda>c. c \<in> set ss) cs"
  by (induction cs) auto

lemma findCommon_Ok_iff: "findCommon what cs ss = Ok c \<longleftrightarrow> List.find (\<lambda>c. c \<in> set ss) cs = Some c"
  by (auto simp: findCommon_def findCommonLoop_find split: option.splits)

lemma findCommon_first:
  assumes "findCommon what cs ss = Ok c"
  shows "c \<in> set ss \<and> (\<exists>us vs. cs = us @ c # vs \<and> set us \<inter> set ss = {})"
proof -
  from assms obtain i where i: "i < length cs" "cs ! i \<in> set ss" "c = cs ! i"
    "\<forall>j < i. cs ! j \<notin> set ss"
    by (auto simp: findCommon_Ok_iff find_Some_iff)
  then have "cs = take i cs @ c # drop (Suc i) cs"
    using id_take_nth_drop by blast
  moreover have "set (take i cs) \<inter> set ss = {}"
    using i by (auto simp: in_set_conv_nth)
  ultimately show ?thesis using i by blast
qed

lemma findCommon_complete:
  "is_Ok (findCommon what cs ss) \<longleftrightarrow> set cs \<inter> set ss \<noteq> {}"
proof -
  have "is_Ok (findCommon what cs ss) \<longleftrightarrow> List.find (\<lambda>c. c \<in> set ss) cs \<noteq> None"
    by (auto simp: is_Ok_iff findCommon_Ok_iff)
  then show ?thesis by (auto simp: find_None_iff)
qed

lemma findCommon_no_panic [simp]: "findCommon what cs ss \<noteq> Panic p"
  by (auto simp: findCommon_def split: option.splits)

lemma kexInitOf_kexInitMessage [simp]: "kexInitOf (kexInitMessage k) = Some k"
  by (simp add: kexInitMessage_def)

definition symmetricInit :: "kexInitMsg \<Rightarrow> bool" where
  "symmetricInit k \<longleftrightarrow> CiphersClientServer k = CiphersServerClient k \<and>
     MACsClientServer k = MACsServerClient k \<and>
     CompressionClientServer k = CompressionServerClient k"

lemma findCommon_what: "findCommon w cs ss = Ok c \<Longrightarrow> findCommon w' cs ss = Ok c"
  by (simp add: findCommon_Ok_iff)

lemma findAgreed_symmetric:
  assumes "symmetricInit c" "symmetricInit s" "findAgreedAlgorithms c s = Ok a"
  shows "alg_w a = alg_r a"
  using assms by (auto simp: findAgreedAlgorithms_def symmetricInit_def res_simps findCommon_Ok_iff)

lemma SetDefaults_threshold:
  "RekeyThreshold (SetDefaults r h c) = 0 \<or>
   (256 \<le> unat (RekeyThreshold (SetDefaults r h c)) \<and> unat (RekeyThreshold (SetDefaults r h c)) < 2 ^ 63)"
  by (auto simp: SetDefaults_def Let_def minRekeyThreshold_def maxInt64_def word_less_nat_alt word_le_nat_alt)

lemma SetDefaults_ciphers:
  "Ciphers (SetDefaults r h c) = Some cs \<Longrightarrow> n \<in> set cs \<Longrightarrow> cipherModes n \<noteq> None"
  by (auto simp: SetDefaults_def Let_def sliceOf_def split: if_splits)

lemma signedData_tags [simp]: "tagBytes signedDataStruct = []"
  by (simp add: signedDataStruct_def tag_eval)

lemma signedData_inj:
  assumes "buildDataSignedForAuth s u sv m a p = Ok b" "buildDataSignedForAuth s' u' sv' m' a' p' = Ok b"
    "length b < 2 ^ 32"
  shows "s = s' \<and> u = u' \<and> sv = sv' \<and> m = m' \<and> a = a' \<and> p = p'"
proof -
  have rt: "Unmarshal signedDataStruct b = Ok [VBytes s, VU8 50, VString u, VString sv, VString m,
      VBool True, VBytes a, VBytes p]"
    if "buildDataSignedForAuth s u sv m a p = Ok b" for s u sv m a p
  proof -
    let ?vs = "[VBytes s, VU8 50, VString u, VString sv, VString m, VBool True, VBytes a, VBytes p]"
    have v: "vals_ok (sfields signedDataStruct) ?vs" by (simp add: signedDataStruct_def)
    have "b = structBytes signedDataStruct ?vs"
      using that Marshal_ok [OF v] by (simp add: buildDataSignedForAuth_def)
    moreover have "structBytes signedDataStruct ?vs \<noteq> []"
      unfolding structBytes_def signedData_tags by (simp add: signedDataStruct_def writeString_def be32_def)
    moreover have "struct_ok signedDataStruct"
      unfolding struct_ok_def signedData_tags by (simp add: signedDataStruct_def)
    ultimately show ?thesis using Unmarshal_structBytes [OF _ v] assms(3) by simp
  qed
  from rt [OF assms(1)] rt [OF assms(2)] show ?thesis by simp
qed

section \<open>Properties\<close>

text \<open>Negotiation picks the client's most preferred algorithm that the server offers too: the
  chosen name is in the server's list, and every name the client lists before it is not.
  It fails exactly when the two lists have no name in common.\<close>

theorem findCommon_client_preference:
  "(\<forall>c. findCommon what client server = Ok c \<longrightarrow>
      c \<in> set server \<and> (\<exists>us vs. client = us @ c # vs \<and> set us \<inter> set server = {})) \<and>
   (is_Ok (findCommon what client server) \<longleftrightarrow> set client \<inter> set server \<noteq> {})"
  using findCommon_first findCommon_complete by blast

theorem findCommon_client_preference_witness:
  "findCommon ''host key'' [''a'', ''b'', ''c''] [''c'', ''b''] = Ok ''b'' \<and>
   ''b'' \<in> set [''c'', ''b''] \<and>
   (\<exists>us vs. [''a'', ''b'', ''c''] = us @ ''b'' # vs \<and> set us \<inter> set [''c'', ''b''] = {})"
proof -
  have f: "findCommon ''host key'' [''a'', ''b'', ''c''] [''c'', ''b''] = Ok ''b''"
    by (simp add: findCommon_def)
  with findCommon_client_preference [of "''host key''" "[''a'', ''b'', ''c'']" "[''c'', ''b'']"]
  show ?thesis by blast
qed

text \<open>C18: The string an authenticating client signs determines the session, the user, the service,
  the method, the algorithm and the public key: no two different requests share their signed data, as long as
  it is shorter than 4 GiB, so that every length fits its 32-bit prefix.\<close>

theorem buildDataSignedForAuth_injective:
  assumes "buildDataSignedForAuth s u sv m a p = Ok b" "buildDataSignedForAuth s' u' sv' m' a' p' = Ok b"
    "length b < 2 ^ 32"
  shows "(s, u, sv, m, a, p) = (s', u', sv', m', a', p')"
  using signedData_inj [OF assms] by simp

theorem buildDataSignedForAuth_injective_witness:
  "\<exists>b b'. buildDataSignedForAuth [1] ''ab'' ''c'' ''publickey'' [2] [3] = Ok b \<and>
     buildDataSignedForAuth [1] ''a'' ''bc'' ''publickey'' [2] [3] = Ok b' \<and> length b = length b' \<and> b \<noteq> b'"
proof -
  have "\<exists>b. buildDataSignedForAuth [1] u sv ''publickey'' [2] [3] = Ok b \<and> length b = 38 + length u + length sv" for u sv
    unfolding buildDataSignedForAuth_def
    by (subst Marshal_ok) (simp_all add: structBytes_def signedDataStruct_def tag_eval writeString_def)
  from this [of "''ab''" "''c''"] this [of "''a''" "''bc''"] obtain b b' where
    b: "buildDataSignedForAuth [1] ''ab'' ''c'' ''publickey'' [2] [3] = Ok b" "length b = 41"
    and b': "buildDataSignedForAuth [1] ''a'' ''bc'' ''publickey'' [2] [3] = Ok b'" "length b' = 41"
    by auto
  have "b \<noteq> b'"
    using buildDataSignedForAuth_injective [OF b(1), of "[1]" "''a''" "''bc''" "''publickey''" "[2]" "[3]"] b(2) b'(1) by auto
  with b b' show ?thesis by (intro exI conjI) simp_all
qed

text \<open>After \<open>SetDefaults\<close> every configured cipher has an implementation and the rekey
  threshold is either unset or between 256 and the largest \<open>int64\<close>, so converting it to
  \<open>int64\<close> never makes it negative.\<close>

theorem SetDefaults_valid:
  "(\<forall>cs n. Ciphers (SetDefaults r h c) = Some cs \<longrightarrow> n \<in> set cs \<longrightarrow> cipherModes n \<noteq> None) \<and>
   (RekeyThreshold (SetDefaults r h c) \<noteq> 0 \<longrightarrow>
      256 \<le> unat (RekeyThreshold (SetDefaults r h c)) \<and> sint (RekeyThreshold (SetDefaults r h c)) > 0)"
proof -
  have "sint t > 0" if "t \<noteq> 0" "unat t < 2 ^ 63" for t :: u64
  proof -
    have "uint t < 2 ^ 63"
      using that(2) by (metis of_nat_less_numeral_power_cancel_iff uint_nat)
    moreover have "- (2 ^ 63) \<le> uint t" by (rule order_trans [OF _ uint_ge_0]) simp
    ultimately have "sint t = int (unat t)"
      using signed_take_bit_int_eq_self [of 63 "uint t"] by (simp add: sint_uint)
    moreover have "0 < unat t" using that by (simp add: unat_gt_0)
    ultimately show ?thesis by (metis of_nat_0_less_iff)
  qed
  then show ?thesis using SetDefaults_threshold [of r h c] SetDefaults_ciphers [of r h c] by blast
qed

theorem SetDefaults_valid_witness:
  "RekeyThreshold (SetDefaults () () \<lparr>Rand = None, RekeyThreshold = - 1, KeyExchanges = None,
      Ciphers = Some [''nope'', ''aes128-ctr''], MACs = None, Halt = None\<rparr>) \<noteq> 0 \<and>
   sint (RekeyThreshold (SetDefaults () () \<lparr>Rand = None, RekeyThreshold = - 1, KeyExchanges = None,
      Ciphers = Some [''nope'', ''aes128-ctr''], MACs = None, Halt = None\<rparr>)) > 0"
proof -
  let ?c = "SetDefaults () () \<lparr>Rand = None, RekeyThreshold = - 1, KeyExchanges = None,
      Ciphers = Some [''nope'', ''aes128-ctr''], MACs = None, Halt = None\<rparr>"
  have "RekeyThreshold ?c \<noteq> 0"
    by (simp add: SetDefaults_def Let_def maxInt64_def minRekeyThreshold_def)
  then show ?thesis using SetDefaults_valid [of "()" "()"] by blast
qed

end
