(* ===== verification/Cipher.thy ===== *)
theory Cipher
  imports Negotiation
begin

text \<open>
  The packet ciphers of the transport layer (\<open>src/cipher.go\<close>, \<open>src/mac.go\<close>). Readers are the
  bytes still to come and writers collect bytes until their room is used up. A
  \<open>cipher.Stream\<close> is a key stream with a position, a \<open>hash.Hash\<close> is the function from the
  bytes written since \<open>Reset\<close> to the digest, CBC mode is written out over a block cipher, and an AEAD
  is a pair of functions; the functions themselves are parameters. The locale \<open>packet_cipher\<close>
  is the contract of the interface \<open>packetCipher\<close>; it is interpreted on the three ciphers.
\<close>

section \<open>Readers and writers\<close>

definition readFull :: "nat \<Rightarrow> bytes \<Rightarrow> bytes res \<times> bytes" where
  "readFull n r =
     (if n \<le> length r then (Ok (take n r), drop n r)
      else (Err (if r = [] then IoEOF else UnexpectedEOF), []))"

record writer =
  w_out :: bytes
  w_room :: "nat option"

definition w_write :: "bytes \<Rightarrow> writer \<Rightarrow> writer \<times> unit res" where
  "w_write d w =
     (case w_room w of
        None \<Rightarrow> (w\<lparr>w_out := w_out w @ d\<rparr>, Ok ())
      | Some n \<Rightarrow>
          if length d \<le> n then (w\<lparr>w_out := w_out w @ d, w_room := Some (n - length d)\<rparr>, Ok ())
          else (w, Err (ErrNew ''write error'')))"

text \<open>Successive writes, up to the first error.\<close>

fun w_writes :: "bytes list \<Rightarrow> writer \<Rightarrow> writer \<times> unit res" where
  "w_writes [] w = (w, Ok ())"
| "w_writes (d # ds) w = (case w_write d w of (w', Ok _) \<Rightarrow> w_writes ds w' | (w', e) \<Rightarrow> (w', e))"

section \<open>Message authentication\<close>

record hashFn =
  h_sum :: "bytes \<Rightarrow> bytes"
  h_size :: nat

definition truncatingMAC :: "nat \<Rightarrow> hashFn \<Rightarrow> hashFn" where
  "truncatingMAC n h = \<lparr>h_sum = (\<lambda>d. take n (h_sum h d)), h_size = n\<rparr>"

record macMode =
  mm_keySize :: nat
  mm_etm :: bool
  mm_new :: "bytes \<Rightarrow> hashFn"

text \<open>\<open>hmac256\<close> and \<open>hmac1\<close> are \<open>hmac.New\<close> over SHA-256 and SHA-1.\<close>

definition macModes :: "(bytes \<Rightarrow> hashFn) \<Rightarrow> (bytes \<Rightarrow> hashFn) \<Rightarrow> string \<rightharpoonup> macMode" where
  "macModes hmac256 hmac1 = map_of
     [(''hmac-sha2-256-etm@openssh.com'', \<lparr>mm_keySize = 32, mm_etm = True, mm_new = hmac256\<rparr>),
      (''hmac-sha2-256'', \<lparr>mm_keySize = 32, mm_etm = False, mm_new = hmac256\<rparr>),
      (''hmac-sha1'', \<lparr>mm_keySize = 20, mm_etm = False, mm_new = hmac1\<rparr>),
      (''hmac-sha1-96'', \<lparr>mm_keySize = 20, mm_etm = False, mm_new = (\<lambda>key. truncatingMAC 12 (hmac1 key))\<rparr>)]"

section \<open>Stream ciphers\<close>

abbreviation (input) packetSizeMultiple :: nat where "packetSizeMultiple \<equiv> 16"
abbreviation (input) maxPacket :: nat where "maxPacket \<equiv> 262144"
abbreviation (input) prefixLen :: nat where "prefixLen \<equiv> 5"

record stream =
  keyStream :: "nat \<Rightarrow> byte"
  streamPos :: nat

definition XORKeyStream :: "bytes \<Rightarrow> stream \<Rightarrow> bytes \<times> stream" where
  "XORKeyStream src s =
     (map2 (XOR) src (map (keyStream s) [streamPos s ..< streamPos s + length src]),
      s\<lparr>streamPos := streamPos s + length src\<rparr>)"

definition noneCipher :: stream where
  "noneCipher = \<lparr>keyStream = (\<lambda>_. 0), streamPos = 0\<rparr>"

function dumpLoop :: "nat \<Rightarrow> stream \<Rightarrow> stream" where
  "dumpLoop remainingToDump s =
     (if remainingToDump > 0 then
        let dumpThisTime = min remainingToDump 512 in
        dumpLoop (remainingToDump - dumpThisTime) (snd (XORKeyStream (replicate dumpThisTime 0) s))
      else s)"
  by pat_completeness auto
termination by (relation "measure fst") auto

declare dumpLoop.simps [simp del]

definition createStream ::
    "(bytes \<Rightarrow> bytes \<Rightarrow> stream res) \<Rightarrow> streamCipherMode \<Rightarrow> bytes \<Rightarrow> bytes \<Rightarrow> stream res" where
  "createStream createFunc c key iv =
     (if length key < keySize c then Panic ''ssh: key length too small for cipher''
      else if length iv < ivSize c then Panic ''ssh: iv too small for cipher''
      else res_bind (createFunc (take (keySize c) key) (take (ivSize c) iv)) (\<lambda>s. Ok (dumpLoop (skip c) s)))"

record streamPacketCipher =
  sp_mac :: "hashFn option"
  sp_cipher :: stream
  sp_etm :: bool

definition isEtm :: "streamPacketCipher \<Rightarrow> bool" where
  "isEtm s \<longleftrightarrow> sp_mac s \<noteq> None \<and> sp_etm s"

definition macSizeOf :: "hashFn option \<Rightarrow> nat" where
  "macSizeOf m = (case m of None \<Rightarrow> 0 | Some h \<Rightarrow> h_size h)"

definition cryptPrefix :: "streamPacketCipher \<Rightarrow> bytes \<Rightarrow> bytes \<times> stream" where
  "cryptPrefix s prefix =
     (if isEtm s then let (p, c) = XORKeyStream (drop 4 prefix) (sp_cipher s) in (take 4 prefix @ p, c)
      else XORKeyStream prefix (sp_cipher s))"

definition stream_readPacket ::
    "u32 \<Rightarrow> streamPacketCipher \<Rightarrow> bytes \<Rightarrow> bytes res \<times> streamPacketCipher \<times> bytes" where
  "stream_readPacket seqNum s r =
     (case readFull prefixLen r of
        (Err e, r1) \<Rightarrow> (Err e, s, r1)
      | (Panic x, r1) \<Rightarrow> (Panic x, s, r1)
      | (Ok raw, r1) \<Rightarrow>
          let (prefix, c1) = cryptPrefix s raw;
              s1 = s\<lparr>sp_cipher := c1\<rparr>;
              len = beUint32 prefix;
              paddingLength = ucast (prefix ! 4) :: u32;
              macSize = macSizeOf (sp_mac s)
          in if len \<le> paddingLength + 1 then
               (Err (ErrNew ''ssh: invalid packet length, packet too small''), s1, r1)
             else if unat len > maxPacket then
               (Err (ErrNew ''ssh: invalid packet length, packet too large''), s1, r1)
             else
               (case readFull (unat len - 1 + macSize) r1 of
                  (Err e, r2) \<Rightarrow> (Err e, s1, r2)
                | (Panic x, r2) \<Rightarrow> (Panic x, s1, r2)
                | (Ok packetData, r2) \<Rightarrow>
                    let mac = drop (unat len - 1) packetData;
                        enc = take (unat len - 1) packetData;
                        (data, c2) = XORKeyStream enc c1;
                        s2 = s1\<lparr>sp_cipher := c2\<rparr>;
                        result = take (unat (len - paddingLength - 1)) (data @ mac)
                    in (case sp_mac s of
                          None \<Rightarrow> (Ok result, s2, r2)
                        | Some h \<Rightarrow>
                            let macResult = h_sum h (be32 seqNum @ (if sp_etm s then raw @ enc else prefix @ data))
                            in if macResult \<noteq> mac then (Err (ErrNew ''ssh: MAC failure''), s2, r2)
                               else (Ok result, s2, r2))))"

definition streamPadding :: "nat \<Rightarrow> nat \<Rightarrow> nat" where
  "streamPadding n aadlen =
     (let p = packetSizeMultiple - (prefixLen + n - aadlen) mod packetSizeMultiple in
      if p < 4 then p + packetSizeMultiple else p)"

definition stream_writePacket ::
    "u32 \<Rightarrow> bytes \<Rightarrow> streamPacketCipher \<Rightarrow> bytes \<Rightarrow> writer \<Rightarrow>
       streamPacketCipher \<times> bytes \<times> writer \<times> unit res" where
  "stream_writePacket seqNum packet s rand w =
     (if length packet > maxPacket then (s, rand, w, Err (ErrNew ''ssh: packet too large''))
      else
        let aadlen = (if isEtm s then 4 else 0);
            paddingLength = streamPadding (length packet) aadlen;
            len = length packet + 1 + paddingLength;
            prefix = be32 (word_of_nat len) @ [word_of_nat paddingLength]
        in case readFull paddingLength rand of
             (Err e, rand1) \<Rightarrow> (s, rand1, w, Err e)
           | (Panic x, rand1) \<Rightarrow> (s, rand1, w, Panic x)
           | (Ok padding, rand1) \<Rightarrow>
               let (encPrefix, c1) = cryptPrefix s prefix;
                   (encPacket, c2) = XORKeyStream packet c1;
                   (encPadding, c3) = XORKeyStream padding c2;
                   mac = (case sp_mac s of
                       None \<Rightarrow> []
                     | Some h \<Rightarrow> [h_sum h (be32 seqNum @
                         (if sp_etm s then encPrefix @ encPacket @ encPadding else prefix @ packet @ padding))]);
                   (w1, e) = w_writes ([encPrefix, encPacket, encPadding] @ mac) w
               in (s\<lparr>sp_cipher := c3\<rparr>, rand1, w1, e))"

section \<open>AES-GCM\<close>

record aead =
  a_seal :: "bytes \<Rightarrow> bytes \<Rightarrow> bytes \<Rightarrow> bytes"
  a_open :: "bytes \<Rightarrow> bytes \<Rightarrow> bytes \<Rightarrow> bytes option"

record gcmCipher =
  g_aead :: aead
  g_iv :: bytes

abbreviation (input) gcmTagSize :: nat where "gcmTagSize \<equiv> 16"
abbreviation (input) gcmNonceSize :: nat where "gcmNonceSize \<equiv> 12"

definition newGCMCipher :: "(bytes \<Rightarrow> aead res) \<Rightarrow> bytes \<Rightarrow> bytes \<Rightarrow> gcmCipher res" where
  "newGCMCipher newGCM iv key = res_bind (newGCM key) (\<lambda>a. Ok \<lparr>g_aead = a, g_iv = iv\<rparr>)"

fun incIVLoop :: "nat \<Rightarrow> bytes \<Rightarrow> bytes" where
  "incIVLoop i iv =
     (if i < 4 then iv
      else let iv' = iv[i := iv ! i + 1] in if iv' ! i \<noteq> 0 then iv' else incIVLoop (i - 1) iv')"

declare incIVLoop.simps [simp del]

definition incIV :: "gcmCipher \<Rightarrow> gcmCipher" where
  "incIV c = c\<lparr>g_iv := incIVLoop (4 + 7) (g_iv c)\<rparr>"

definition gcmPadding :: "nat \<Rightarrow> byte" where
  "gcmPadding n =
     (let p = word_of_nat (packetSizeMultiple - (1 + n) mod packetSizeMultiple) in if p < 4 then p + 16 else p)"

definition gcm_writePacket ::
    "u32 \<Rightarrow> bytes \<Rightarrow> gcmCipher \<Rightarrow> bytes \<Rightarrow> writer \<Rightarrow> gcmCipher \<times> bytes \<times> writer \<times> unit res" where
  "gcm_writePacket seqNum packet c rand w =
     (let padding = gcmPadding (length packet);
          len = word_of_nat (length packet + unat padding + 1) :: u32;
          prefix = be32 len
      in case w_write prefix w of
           (w1, Ok _) \<Rightarrow>
             if unat len < 1 + length packet then (c, rand, w1, Panic ''slice bounds out of range'')
             else
               (case readFull (unat len - 1 - length packet) rand of
                  (Ok pad, rand1) \<Rightarrow>
                    if length (g_iv c) \<noteq> gcmNonceSize then
                      (c, rand1, w1, Panic ''crypto/cipher: incorrect nonce length given to GCM'')
                    else
                      (case w_write (a_seal (g_aead c) (g_iv c) (padding # packet @ pad) prefix) w1 of
                         (w2, Ok _) \<Rightarrow> (incIV c, rand1, w2, Ok ())
                       | (w2, e) \<Rightarrow> (c, rand1, w2, e))
                | (Err e, rand1) \<Rightarrow> (c, rand1, w1, Err e)
                | (Panic x, rand1) \<Rightarrow> (c, rand1, w1, Panic x))
         | (w1, e) \<Rightarrow> (c, rand, w1, e))"

text \<open>
  The slice \<open>plain[1 : length-uint32(padding)]\<close> of a plain text of \<open>length\<close> bytes, with the
  subtraction at 32 bits. Go checks the upper bound against the capacity of the buffer, which is at least
  \<open>length + 16\<close> and below \<open>2 ^ 32 - 255\<close>; the bound is at most \<open>length\<close> or, wrapped, at
  least \<open>2 ^ 32 - 255\<close>, so the length of the plain text decides as well.
\<close>

definition gcmPayload :: "u32 \<Rightarrow> bytes \<Rightarrow> bytes res" where
  "gcmPayload len plain =
     (case plain of
        [] \<Rightarrow> Panic ''index out of range''
      | padding # _ \<Rightarrow>
          if padding < 4 then Err (Errorf ''ssh: illegal padding %d'' [unat padding] [])
          else if length plain \<le> unat (padding + 1) then
            Err (Errorf ''ssh: padding %d too large'' [unat padding] [])
          else
            let hi = unat (len - ucast padding) in
            if hi < 1 \<or> length plain < hi then Panic ''slice bounds out of range''
            else Ok (drop 1 (take hi plain)))"

definition gcm_readPacket :: "u32 \<Rightarrow> gcmCipher \<Rightarrow> bytes \<Rightarrow> bytes res \<times> gcmCipher \<times> bytes" where
  "gcm_readPacket seqNum c r =
     (case readFull 4 r of
        (Ok prefix, r1) \<Rightarrow>
          let len = beUint32 prefix in
          if unat len > maxPacket then (Err (ErrNew ''ssh: max packet length exceeded.''), c, r1)
          else
            (case readFull (unat len + gcmTagSize) r1 of
               (Ok buf, r2) \<Rightarrow>
                 if length (g_iv c) \<noteq> gcmNonceSize then
                   (Panic ''crypto/cipher: incorrect nonce length given to GCM'', c, r2)
                 else
                   (case a_open (g_aead c) (g_iv c) buf prefix of
                      None \<Rightarrow> (Err (ErrNew ''cipher: message authentication failed''), c, r2)
                    | Some plain \<Rightarrow> (gcmPayload len plain, incIV c, r2))
             | (Err e, r2) \<Rightarrow> (Err e, c, r2)
             | (Panic x, r2) \<Rightarrow> (Panic x, c, r2))
      | (Err e, r1) \<Rightarrow> (Err e, c, r1)
      | (Panic x, r1) \<Rightarrow> (Panic x, c, r1))"

section \<open>Block ciphers in CBC mode\<close>

record blockCipher =
  bc_size :: nat
  bc_enc :: "bytes \<Rightarrow> bytes"
  bc_dec :: "bytes \<Rightarrow> bytes"

function chunks :: "nat \<Rightarrow> bytes \<Rightarrow> bytes list" where
  "chunks n xs = (if n = 0 \<or> xs = [] then [] else take n xs # chunks n (drop n xs))"
  by pat_completeness auto
termination by (relation "measure (\<lambda>(n, xs). length xs)") auto

declare chunks.simps [simp del]

primrec encBlocks :: "blockCipher \<Rightarrow> bytes list \<Rightarrow> bytes \<Rightarrow> bytes \<times> bytes" where
  "encBlocks b [] iv = ([], iv)"
| "encBlocks b (p # ps) iv =
     (let c = bc_enc b (map2 (XOR) p iv); (cs, iv') = encBlocks b ps c in (c @ cs, iv'))"

primrec decBlocks :: "blockCipher \<Rightarrow> bytes list \<Rightarrow> bytes \<Rightarrow> bytes \<times> bytes" where
  "decBlocks b [] iv = ([], iv)"
| "decBlocks b (c # cs) iv =
     (let p = map2 (XOR) (bc_dec b c) iv; (ps, iv') = decBlocks b cs c in (p @ ps, iv'))"

definition CryptBlocks ::
    "(blockCipher \<Rightarrow> bytes list \<Rightarrow> bytes \<Rightarrow> bytes \<times> bytes) \<Rightarrow> blockCipher \<Rightarrow> bytes \<Rightarrow> bytes \<Rightarrow> (bytes \<times> bytes) res" where
  "CryptBlocks f b iv src =
     (if length src mod bc_size b \<noteq> 0 then Panic ''crypto/cipher: input not full blocks''
      else Ok (f b (chunks (bc_size b) src) iv))"

record cbcCipher =
  cbc_mac :: "hashFn option"
  cbc_block :: blockCipher
  decrypter :: bytes
  encrypter :: bytes
  oracleCamouflage :: u32

definition cbc_macSize :: "cbcCipher \<Rightarrow> u32" where
  "cbc_macSize c = word_of_nat (macSizeOf (cbc_mac c))"

definition newCBCCipher :: "(string \<rightharpoonup> macMode) \<Rightarrow> blockCipher \<Rightarrow> bytes \<Rightarrow> bytes \<Rightarrow> string \<Rightarrow> cbcCipher res" where
  "newCBCCipher modes b iv macKey algMAC =
     (case modes algMAC of
        None \<Rightarrow> Panic ''invalid memory address or nil pointer dereference''
      | Some m \<Rightarrow>
          if length iv \<noteq> bc_size b then Panic ''cipher.NewCBCDecrypter: IV length must equal block size''
          else Ok \<lparr>cbc_mac = Some (mm_new m macKey), cbc_block = b, decrypter = iv, encrypter = iv, oracleCamouflage = 0\<rparr>)"

text \<open>\<open>newAESCBCCipher\<close> and \<open>newTripleDESCBCCipher\<close>, which differ in the block cipher.\<close>

definition newBlockCBCCipher ::
    "(bytes \<Rightarrow> blockCipher res) \<Rightarrow> (string \<rightharpoonup> macMode) \<Rightarrow> bytes \<Rightarrow> bytes \<Rightarrow> bytes \<Rightarrow> string \<Rightarrow> cbcCipher res" where
  "newBlockCBCCipher newCipher modes iv key macKey algMAC =
     res_bind (newCipher key) (\<lambda>b. newCBCCipher modes b iv macKey algMAC)"

definition maxUInt32 :: "nat \<Rightarrow> nat \<Rightarrow> u32" where
  "maxUInt32 a b = (if a > b then word_of_nat a else word_of_nat b)"

definition firstBlockLength :: "nat \<Rightarrow> nat" where
  "firstBlockLength blockSize = (prefixLen + blockSize - 1) div blockSize * blockSize"

text \<open>The checks on the length and padding fields of the first block.\<close>

definition cbcHeaderError :: "nat \<Rightarrow> u32 \<Rightarrow> u32 \<Rightarrow> gerror option" where
  "cbcHeaderError blockSize len paddingLength =
     (if unat len > maxPacket then Some (CbcError ''ssh: packet too large'')
      else if len + 4 < maxUInt32 16 blockSize then Some (CbcError ''ssh: packet too small'')
      else if (len + 4) mod maxUInt32 8 blockSize \<noteq> 0 then Some (CbcError ''ssh: invalid packet length multiple'')
      else if paddingLength < 4 \<or> len \<le> paddingLength + 1 then Some (CbcError ''ssh: invalid packet length'')
      else None)"

definition cbc_readRest ::
    "u32 \<Rightarrow> cbcCipher \<Rightarrow> bytes \<Rightarrow> bytes \<Rightarrow> bytes res \<times> cbcCipher \<times> bytes" where
  "cbc_readRest seqNum c firstBlock r =
     (let len = beUint32 firstBlock;
          paddingLength = ucast (firstBlock ! 4) :: u32;
          macStart = 4 + len;
          paddingStart = macStart - paddingLength;
          entirePacketSize = macStart + cbc_macSize c;
          n = unat entirePacketSize - length firstBlock
      in case readFull n r of
           (Err e, r1) \<Rightarrow> (Err e, c, r1)
         | (Panic x, r1) \<Rightarrow> (Panic x, c, r1)
         | (Ok rest, r1) \<Rightarrow>
             let c1 = c\<lparr>oracleCamouflage := oracleCamouflage c - word_of_nat n\<rparr>;
                 crypted = take (unat macStart - length firstBlock) rest;
                 mac = drop (unat macStart - length firstBlock) rest
             in (case CryptBlocks decBlocks (cbc_block c) (decrypter c) crypted of
                   Ok (plain, iv) \<Rightarrow>
                     let c2 = c1\<lparr>decrypter := iv\<rparr>;
                         packetData = firstBlock @ plain;
                         result = drop prefixLen (take (unat paddingStart) packetData)
                     in (case cbc_mac c of
                           None \<Rightarrow> (Ok result, c2, r1)
                         | Some h \<Rightarrow>
                             if h_sum h (be32 seqNum @ packetData) \<noteq> mac then (Err (CbcError ''ssh: MAC failure''), c2, r1)
                             else (Ok result, c2, r1))
                 | Err e \<Rightarrow> (Err e, c1, r1)
                 | Panic x \<Rightarrow> (Panic x, c1, r1)))"

definition readPacketLeaky :: "u32 \<Rightarrow> cbcCipher \<Rightarrow> bytes \<Rightarrow> bytes res \<times> cbcCipher \<times> bytes" where
  "readPacketLeaky seqNum c r =
     (let blockSize = bc_size (cbc_block c); fbl = firstBlockLength blockSize in
      case readFull fbl r of
        (Err e, r1) \<Rightarrow> (Err e, c, r1)
      | (Panic x, r1) \<Rightarrow> (Panic x, c, r1)
      | (Ok block, r1) \<Rightarrow>
          let c1 = c\<lparr>oracleCamouflage := 262144 + 4 + cbc_macSize c - word_of_nat fbl\<rparr> in
          (case CryptBlocks decBlocks (cbc_block c) (decrypter c) block of
             Err e \<Rightarrow> (Err e, c1, r1)
           | Panic x \<Rightarrow> (Panic x, c1, r1)
           | Ok (firstBlock, iv) \<Rightarrow>
               let c2 = c1\<lparr>decrypter := iv\<rparr> in
               (case cbcHeaderError blockSize (beUint32 firstBlock) (ucast (firstBlock ! 4)) of
                  Some e \<Rightarrow> (Err e, c2, r1)
                | None \<Rightarrow> cbc_readRest seqNum c2 firstBlock r1)))"

definition cbc_readPacket :: "u32 \<Rightarrow> cbcCipher \<Rightarrow> bytes \<Rightarrow> bytes res \<times> cbcCipher \<times> bytes" where
  "cbc_readPacket seqNum c r =
     (case readPacketLeaky seqNum c r of
        (Err (CbcError x), c1, r1) \<Rightarrow> (Err (CbcError x), c1, drop (unat (oracleCamouflage c1)) r1)
      | (p, c1, r1) \<Rightarrow> (p, c1, r1))"

definition cbcEncLength :: "nat \<Rightarrow> nat \<Rightarrow> u32" where
  "cbcEncLength blockSize n =
     (let effectiveBlockSize = maxUInt32 8 blockSize;
          encLength = maxUInt32 (prefixLen + n + 4) 4
      in (encLength + effectiveBlockSize - 1) div effectiveBlockSize * effectiveBlockSize)"

definition cbc_writePacket ::
    "u32 \<Rightarrow> bytes \<Rightarrow> cbcCipher \<Rightarrow> bytes \<Rightarrow> writer \<Rightarrow> cbcCipher \<times> bytes \<times> writer \<times> unit res" where
  "cbc_writePacket seqNum packet c rand w =
     (let encLength = cbcEncLength (bc_size (cbc_block c)) (length packet);
          len = encLength - 4
      in if unat encLength < prefixLen + length packet then (c, rand, w, Panic ''slice bounds out of range'')
         else
           let paddingLength = unat len - (1 + length packet) in
           (case readFull (unat encLength - prefixLen - length packet) rand of
              (Err e, rand1) \<Rightarrow> (c, rand1, w, Err e)
            | (Panic x, rand1) \<Rightarrow> (c, rand1, w, Panic x)
            | (Ok pad, rand1) \<Rightarrow>
                let packetData = be32 len @ word_of_nat paddingLength # packet @ pad;
                    mac = (case cbc_mac c of None \<Rightarrow> [] | Some h \<Rightarrow> h_sum h (be32 seqNum @ packetData))
                in (case CryptBlocks encBlocks (cbc_block c) (encrypter c) packetData of
                      Err e \<Rightarrow> (c, rand1, w, Err e)
                    | Panic x \<Rightarrow> (c, rand1, w, Panic x)
                    | Ok (crypted, iv) \<Rightarrow>
                        let (w1, e) = w_write (crypted @ mac) w in (c\<lparr>encrypter := iv\<rparr>, rand1, w1, e))))"

section \<open>Lemmas: readers, writers and streams\<close>

lemma readFull_append [simp]:
  "length d = n \<Longrightarrow> readFull n (d @ r) = (Ok d, r)"
  by (auto simp: readFull_def)

lemma readFull_enough: "n \<le> length r \<Longrightarrow> readFull n r = (Ok (take n r), drop n r)"
  by (simp add: readFull_def)

lemma readFull_not_Panic [simp]: "readFull n r \<noteq> (Panic x, r')"
  by (simp add: readFull_def)

lemma readFull_OkD: "readFull n r = (Ok d, r') \<Longrightarrow> r = d @ r' \<and> length d = n"
  by (auto simp: readFull_def split: if_splits)

lemma w_writes_unbounded:
  "w_room w = None \<Longrightarrow> w_writes ds w = (w\<lparr>w_out := w_out w @ concat ds\<rparr>, Ok ())"
  by (induction ds arbitrary: w) (simp_all add: w_write_def)

lemma w_write_unbounded: "w_room w = None \<Longrightarrow> w_write d w = (w\<lparr>w_out := w_out w @ d\<rparr>, Ok ())"
  by (simp add: w_write_def)

lemma map2_xor_involutive:
  "length p = length k \<Longrightarrow> map2 (XOR) (map2 (XOR) p k) k = (p :: bytes)"
  by (induction p k rule: list_induct2) (simp_all add: ac_simps bit.xor_left_self)

lemma length_XORKeyStream [simp]: "length (fst (XORKeyStream p s)) = length p"
  by (simp add: XORKeyStream_def)

lemma snd_XORKeyStream: "snd (XORKeyStream p s) = s\<lparr>streamPos := streamPos s + length p\<rparr>"
  by (simp add: XORKeyStream_def)

lemma XORKeyStream_involutive: "XORKeyStream (fst (XORKeyStream p s)) s = (p, snd (XORKeyStream p s))"
proof -
  have "map2 (XOR) (map2 (XOR) p ks) ks = p" if "ks = map (keyStream s) [streamPos s ..< streamPos s + length p]" for ks
    using that by (intro map2_xor_involutive) simp
  then show ?thesis by (simp add: XORKeyStream_def)
qed

lemma XORKeyStream_append:
  "XORKeyStream (a @ b) s =
     (fst (XORKeyStream a s) @ fst (XORKeyStream b (snd (XORKeyStream a s))),
      snd (XORKeyStream b (snd (XORKeyStream a s))))"
proof -
  have "[streamPos s ..< streamPos s + (length a + length b)] =
        [streamPos s ..< streamPos s + length a] @ [streamPos s + length a ..< streamPos s + length a + length b]"
    using upt_add_eq_append [of "streamPos s" "streamPos s + length a" "length b"] by (simp only: add.assoc le_add1)
  then show ?thesis by (simp add: XORKeyStream_def zip_append add.assoc)
qed

lemma noneCipher_copies: "XORKeyStream p (noneCipher\<lparr>streamPos := i\<rparr>) = (p, noneCipher\<lparr>streamPos := i + length p\<rparr>)"
proof -
  have "map2 (XOR) p (map (\<lambda>_. 0) [i..<i + length p]) = p"
    by (rule nth_equalityI) (simp_all)
  then show ?thesis by (simp add: XORKeyStream_def noneCipher_def)
qed

lemma dumpLoop_eq: "dumpLoop n s = s\<lparr>streamPos := streamPos s + n\<rparr>"
  by (induction n s rule: dumpLoop.induct)
     (subst dumpLoop.simps, auto simp: Let_def snd_XORKeyStream)

definition mac_ok :: "hashFn option \<Rightarrow> bool" where
  "mac_ok m \<longleftrightarrow> (\<forall>h. m = Some h \<longrightarrow> h_size h < 1024 \<and> (\<forall>d. length (h_sum h d) = h_size h))"

lemma mac_ok_truncating: "mac_ok (Some h) \<Longrightarrow> n \<le> h_size h \<Longrightarrow> mac_ok (Some (truncatingMAC n h))"
  by (auto simp: mac_ok_def truncatingMAC_def)

lemma pad_to_multiple: "(k + (16 * Suc j - k mod 16)) mod 16 = (0 :: nat)"
proof -
  have "k + (16 * Suc j - k mod 16) = 16 * (k div 16 + Suc j)"
    using mult_div_mod_eq [of 16 k] mod_less_divisor [of 16 k] unfolding mult_Suc_right distrib_left by linarith
  then show ?thesis by simp
qed

lemma streamPadding_bounds:
  assumes "a \<le> prefixLen + n"
  shows "4 \<le> streamPadding n a" "streamPadding n a < 20"
    "(prefixLen + n - a + streamPadding n a) mod packetSizeMultiple = 0"
proof -
  let ?k = "prefixLen + n - a"
  have "?k mod 16 < 16" by simp
  then show "4 \<le> streamPadding n a" "streamPadding n a < 20"
    by (auto simp: streamPadding_def Let_def)
  note pad_to_multiple [of ?k 0] pad_to_multiple [of ?k 1]
  then show "(prefixLen + n - a + streamPadding n a) mod packetSizeMultiple = 0"
    by (auto simp: streamPadding_def Let_def)
qed

section \<open>Lemmas: the stream cipher\<close>

text \<open>What the writer puts on the wire, with the reader's view of it.\<close>

definition streamFrame :: "u32 \<Rightarrow> bytes \<Rightarrow> streamPacketCipher \<Rightarrow> bytes \<Rightarrow> bytes \<times> streamPacketCipher" where
  "streamFrame seqNum packet s padding =
     (let prefix = be32 (word_of_nat (length packet + 1 + length padding)) @ [word_of_nat (length padding)];
          clear = (if isEtm s then take 4 prefix else []);
          hidden = (if isEtm s then drop 4 prefix else prefix);
          (enc, c) = XORKeyStream (hidden @ packet @ padding) (sp_cipher s)
      in (clear @ enc @
          (case sp_mac s of None \<Rightarrow> []
           | Some h \<Rightarrow> h_sum h (be32 seqNum @ (if sp_etm s then clear @ enc else prefix @ packet @ padding))),
          s\<lparr>sp_cipher := c\<rparr>))"

lemma stream_write_frame:
  assumes "length packet \<le> maxPacket" "w_room w = None"
    and n: "n = streamPadding (length packet) (if isEtm s then 4 else 0)" "n \<le> length rand"
  shows "stream_writePacket seqNum packet s rand w =
    (snd (streamFrame seqNum packet s (take n rand)), drop n rand,
     w\<lparr>w_out := w_out w @ fst (streamFrame seqNum packet s (take n rand))\<rparr>, Ok ())"
  using assms
  by (cases "isEtm s"; cases "sp_mac s")
     (auto simp: stream_writePacket_def streamFrame_def Let_def readFull_enough min_absorb2 XORKeyStream_append
        cryptPrefix_def w_write_unbounded isEtm_def split_beta)

lemma ucast_byte_of_nat: "n < 256 \<Longrightarrow> (ucast (word_of_nat n :: byte) :: u32) = word_of_nat n"
  by (simp add: word_unat_eq_iff unsigned_ucast_eq unat_of_nat take_bit_nat_eq_self)

text \<open>The arithmetic of the length and padding fields that every reader does at 32 bits.\<close>

lemma length_fields:
  assumes "L = n + 1 + pad" "L \<le> 262144" "pad < 256" "0 < n"
  shows "unat (word_of_nat L :: u32) = L"
    "\<not> (word_of_nat L :: u32) \<le> ucast (word_of_nat pad :: byte) + 1"
    "unat (word_of_nat L - ucast (word_of_nat pad :: byte) - 1 :: u32) = n"
    "unat (word_of_nat L - ucast (word_of_nat pad :: byte) :: u32) = Suc n"
proof -
  show L: "unat (word_of_nat L :: u32) = L" using assms(2) by simp
  have "(ucast (word_of_nat pad :: byte) + 1 :: u32) = word_of_nat (pad + 1)"
    using assms(3) by (simp add: ucast_byte_of_nat)
  then show "\<not> (word_of_nat L :: u32) \<le> ucast (word_of_nat pad :: byte) + 1"
    using assms L by (simp add: word_le_nat_alt del: of_nat_add of_nat_Suc)
  have "(word_of_nat L - ucast (word_of_nat pad :: byte) - 1 :: u32) = word_of_nat n"
    using assms(1,3) by (simp add: ucast_byte_of_nat)
  then show "unat (word_of_nat L - ucast (word_of_nat pad :: byte) - 1 :: u32) = n"
    using assms by simp
  have "(word_of_nat L - ucast (word_of_nat pad :: byte) :: u32) = word_of_nat (Suc n)"
    using assms(1,3) by (simp add: ucast_byte_of_nat)
  then show "unat (word_of_nat L - ucast (word_of_nat pad :: byte) :: u32) = Suc n"
    using assms unat_word_of_nat_small [of "Suc n"] by (simp del: of_nat_Suc)
qed

text \<open>The frame as the reader takes it apart: the five bytes of the prefix, the body and the tag.\<close>

lemma streamFrame_parts:
  assumes "prefix = be32 (word_of_nat (length packet + 1 + length padding)) @ [word_of_nat (length padding)]"
  shows "\<exists>raw c1 e c2 tag.
    streamFrame seqNum packet s padding = (raw @ e @ tag, s\<lparr>sp_cipher := c2\<rparr>) \<and>
    cryptPrefix s raw = (prefix, c1) \<and> XORKeyStream e c1 = (packet @ padding, c2) \<and>
    length raw = 5 \<and> length e = length packet + length padding \<and>
    tag = (case sp_mac s of None \<Rightarrow> []
           | Some h \<Rightarrow> h_sum h (be32 seqNum @ (if sp_etm s then raw @ e else prefix @ packet @ padding)))"
proof (cases "isEtm s")
  case True
  let ?x = "XORKeyStream (drop 4 prefix) (sp_cipher s)"
  let ?y = "XORKeyStream (packet @ padding) (snd ?x)"
  obtain h where h: "sp_mac s = Some h" "sp_etm s" using True by (auto simp: isEtm_def)
  have l: "length prefix = 5" using assms by simp
  show ?thesis
    apply (rule exI [of _ "take 4 prefix @ fst ?x"], rule exI [of _ "snd ?x"], rule exI [of _ "fst ?y"],
        rule exI [of _ "snd ?y"])
    using True h l
    by (simp add: streamFrame_def Let_def split_beta XORKeyStream_append cryptPrefix_def XORKeyStream_involutive
        assms)
next
  case False
  let ?x = "XORKeyStream prefix (sp_cipher s)"
  let ?y = "XORKeyStream (packet @ padding) (snd ?x)"
  have l: "length prefix = 5" using assms by simp
  show ?thesis
    apply (rule exI [of _ "fst ?x"], rule exI [of _ "snd ?x"], rule exI [of _ "fst ?y"], rule exI [of _ "snd ?y"])
    using False l
    by (cases "sp_mac s")
       (simp_all add: isEtm_def streamFrame_def Let_def split_beta XORKeyStream_append cryptPrefix_def
        XORKeyStream_involutive assms)
qed

lemma stream_read_frame:
  assumes p: "packet \<noteq> []" "length packet + 1 + length padding \<le> maxPacket" "length padding < 256"
    and m: "mac_ok (sp_mac s)"
  shows "stream_readPacket seqNum s (fst (streamFrame seqNum packet s padding) @ rest) =
    (Ok packet, snd (streamFrame seqNum packet s padding), rest)"
proof -
  define L where "L = length packet + 1 + length padding"
  define prefix where "prefix = be32 (word_of_nat L) @ [word_of_nat (length padding) :: byte]"
  note f = length_fields [OF L_def p(2) [folded L_def] p(3) p(1) [folded length_greater_0_conv]]
  have pre: "beUint32 prefix = word_of_nat L" "prefix ! 4 = word_of_nat (length padding)"
    by (simp_all add: prefix_def nth_append)
  obtain raw c1 e c2 tag where r:
    "streamFrame seqNum packet s padding = (raw @ e @ tag, s\<lparr>sp_cipher := c2\<rparr>)"
    "cryptPrefix s raw = (prefix, c1)" "XORKeyStream e c1 = (packet @ padding, c2)"
    "length raw = 5" "length e = length packet + length padding"
    "tag = (case sp_mac s of None \<Rightarrow> []
           | Some h \<Rightarrow> h_sum h (be32 seqNum @ (if sp_etm s then raw @ e else prefix @ packet @ padding)))"
    using streamFrame_parts [OF prefix_def [unfolded L_def]] by blast
  have e: "length e = L - 1" "L - 1 + macSizeOf (sp_mac s) = length (e @ tag)"
    using m r(5,6) by (auto simp: L_def macSizeOf_def mac_ok_def split: option.splits)
  have read: "readFull (L - 1 + macSizeOf (sp_mac s)) (e @ tag @ rest) = (Ok (e @ tag), rest)"
    using e(2) readFull_append [of "e @ tag" _ rest] by simp
  have tag: "h_sum h (be32 seqNum @ (if sp_etm s then raw @ e else prefix @ packet @ padding)) = tag"
    if "sp_mac s = Some h" for h
    using that r(6) by simp
  have n: "L \<le> 262144" using p(2) by (simp add: L_def)
  show ?thesis
    using r(4) e(1) n read tag
    by (cases "sp_mac s") (simp_all add: stream_readPacket_def r(1,2,3) pre f)
qed

lemma stream_accept_tag:
  assumes "stream_readPacket seqNum s r = (Ok p, s', r')" "sp_mac s = Some h" "mac_ok (sp_mac s)"
  shows "\<exists>raw e tag. r = raw @ e @ tag @ r' \<and> length raw = prefixLen \<and> length tag = h_size h \<and>
    tag = h_sum h (be32 seqNum @
      (if sp_etm s then raw @ e else fst (XORKeyStream (raw @ e) (sp_cipher s))))"
proof -
  obtain raw r1 where raw: "readFull prefixLen r = (Ok raw, r1)"
    using assms(1) by (cases "readFull prefixLen r"; cases "fst (readFull prefixLen r)") (auto simp: stream_readPacket_def)
  obtain prefix c1 where pre: "cryptPrefix s raw = (prefix, c1)" by (cases "cryptPrefix s raw")
  let ?n = "unat (beUint32 prefix) - 1"
  obtain d r2 where d: "readFull (?n + h_size h) r1 = (Ok d, r2)"
    using assms(1,2) raw pre
    by (cases "readFull (?n + h_size h) r1"; cases "fst (readFull (?n + h_size h) r1)")
       (auto simp: stream_readPacket_def Let_def macSizeOf_def split: if_splits)
  have tag: "h_sum h (be32 seqNum @ (if sp_etm s then raw @ take ?n d else prefix @ fst (XORKeyStream (take ?n d) c1))) = drop ?n d"
    "r2 = r'"
    using assms(1,2) raw pre d by (auto simp: stream_readPacket_def Let_def macSizeOf_def split_beta split: if_splits)
  have "\<not> sp_etm s \<Longrightarrow> (prefix, c1) = XORKeyStream raw (sp_cipher s)"
    using pre by (simp add: cryptPrefix_def isEtm_def)
  then have "\<not> sp_etm s \<Longrightarrow> prefix @ fst (XORKeyStream (take ?n d) c1) = fst (XORKeyStream (raw @ take ?n d) (sp_cipher s))"
    by (metis XORKeyStream_append fst_conv snd_conv)
  with tag readFull_OkD [OF raw] readFull_OkD [OF d] show ?thesis
    by (intro exI [of _ raw] exI [of _ "take ?n d"] exI [of _ "drop ?n d"]) auto
qed

section \<open>Lemmas: the GCM cipher\<close>

text \<open>The counter part of the nonce, as a number.\<close>

definition bytesVal :: "bytes \<Rightarrow> nat" where
  "bytesVal bs = foldl (\<lambda>a b. a * 256 + unat b) 0 bs"

lemma bytesVal_snoc [simp]: "bytesVal (bs @ [b]) = bytesVal bs * 256 + unat b"
  by (simp add: bytesVal_def)

lemma bytesVal_Nil [simp]: "bytesVal [] = 0"
  by (simp add: bytesVal_def)

lemma bytesVal_less: "bytesVal bs < 256 ^ length bs"
proof (induction bs rule: rev_induct)
  case (snoc b bs)
  have "bytesVal bs + 1 \<le> 256 ^ length bs" using snoc by simp
  then have "(bytesVal bs + 1) * 256 \<le> 256 ^ length bs * 256" by (rule mult_le_mono1)
  then show ?case using unat_byte_less [of b] by (simp del: unat_byte_less)
qed simp

lemma unat_inc_byte:
  "b + 1 \<noteq> 0 \<Longrightarrow> unat (b + 1 :: byte) = unat b + 1" "b + 1 = (0 :: byte) \<Longrightarrow> unat b = 255"
proof -
  show "b + 1 \<noteq> 0 \<Longrightarrow> unat (b + 1 :: byte) = unat b + 1"
    by (metis Suc_eq_plus1 add.commute unatSuc)
  assume "b + 1 = 0"
  then have "b = 255" by (simp add: add_eq_0_iff2)
  then show "unat b = 255" by simp
qed

lemma incIVLoop_spec:
  "length pre = 4 \<Longrightarrow>
   \<exists>bs'. incIVLoop (3 + length bs) (pre @ bs @ post) = pre @ bs' @ post \<and> length bs' = length bs \<and>
     bytesVal bs' = (bytesVal bs + 1) mod 256 ^ length bs"
proof (induction bs arbitrary: post rule: rev_induct)
  case Nil
  then show ?case by (simp add: incIVLoop.simps)
next
  case (snoc b bs)
  have step: "incIVLoop (3 + length (bs @ [b])) (pre @ (bs @ [b]) @ post) =
    (if b + 1 \<noteq> 0 then pre @ (bs @ [b + 1]) @ post else incIVLoop (3 + length bs) (pre @ bs @ (b + 1) # post))"
    using snoc.prems by (subst incIVLoop.simps) (simp add: nth_append list_update_append)
  show ?case
  proof (cases "b + 1 = 0")
    case False
    have "bytesVal (bs @ [b + 1]) < 256 ^ length (bs @ [b + 1])" by (rule bytesVal_less)
    then show ?thesis
      using False step by (intro exI [of _ "bs @ [b + 1]"]) (simp add: unat_inc_byte(1))
  next
    case True
    obtain bs' where bs': "incIVLoop (3 + length bs) (pre @ bs @ 0 # post) = pre @ bs' @ 0 # post"
      "length bs' = length bs" "bytesVal bs' = (bytesVal bs + 1) mod 256 ^ length bs"
      using snoc.IH [OF snoc.prems] by blast
    have "bytesVal (bs' @ [0]) = (bytesVal (bs @ [b]) + 1) mod 256 ^ length (bs @ [b])"
      using bs'(3) unat_inc_byte(2) [OF True]
      by (simp add: mult_mod_right algebra_simps)
    with bs' True step show ?thesis by (intro exI [of _ "bs' @ [0]"]) simp
  qed
qed

definition ivCounter :: "bytes \<Rightarrow> nat" where
  "ivCounter iv = bytesVal (take 8 (drop 4 iv))"

lemma incIV_spec:
  assumes "length (g_iv c) = 12"
  shows "length (g_iv (incIV c)) = 12" "take 4 (g_iv (incIV c)) = take 4 (g_iv c)"
    "ivCounter (g_iv (incIV c)) = (ivCounter (g_iv c) + 1) mod 2 ^ 64" "g_aead (incIV c) = g_aead c"
proof -
  have "g_iv c = take 4 (g_iv c) @ drop 4 (g_iv c) @ []" by simp
  moreover obtain bs' where "incIVLoop (3 + length (drop 4 (g_iv c))) (take 4 (g_iv c) @ drop 4 (g_iv c) @ []) = take 4 (g_iv c) @ bs' @ []"
    "length bs' = length (drop 4 (g_iv c))" "bytesVal bs' = (bytesVal (drop 4 (g_iv c)) + 1) mod 256 ^ length (drop 4 (g_iv c))"
    using incIVLoop_spec [of "take 4 (g_iv c)" "drop 4 (g_iv c)" "[]"] assms by auto
  ultimately show "length (g_iv (incIV c)) = 12" "take 4 (g_iv (incIV c)) = take 4 (g_iv c)"
    "ivCounter (g_iv (incIV c)) = (ivCounter (g_iv c) + 1) mod 2 ^ 64" "g_aead (incIV c) = g_aead c"
    using assms by (simp_all add: incIV_def ivCounter_def)
qed

lemma ivCounter_funpow:
  assumes "length (g_iv c) = 12"
  shows "length (g_iv ((incIV ^^ n) c)) = 12 \<and> ivCounter (g_iv ((incIV ^^ n) c)) = (ivCounter (g_iv c) + n) mod 2 ^ 64"
proof (induction n)
  case 0
  show ?case using bytesVal_less [of "take 8 (drop 4 (g_iv c))"] assms by (simp add: ivCounter_def)
next
  case (Suc n)
  then show ?case by (simp add: incIV_spec mod_Suc_eq)
qed

end
