(* ===== verification/PacketCipher.thy ===== *)
theory PacketCipher
  imports Cipher
begin

text \<open>
  The contract of the interface \<open>packetCipher\<close> of \<open>src/transport.go\<close>, as the locale
  \<open>packet_cipher\<close>: a packet that one end writes is what the other end reads, byte for byte, and both
  ends stay in step. It is interpreted on the stream, GCM and CBC ciphers of \<open>src/cipher.go\<close>, each
  under the documented behaviour of the primitive it is built on.
\<close>

section \<open>The contract\<close>

locale packet_cipher =
  fixes wr :: "u32 \<Rightarrow> bytes \<Rightarrow> 's \<Rightarrow> bytes \<Rightarrow> writer \<Rightarrow> 's \<times> bytes \<times> writer \<times> unit res"
    and rd :: "u32 \<Rightarrow> 's \<Rightarrow> bytes \<Rightarrow> bytes res \<times> 's \<times> bytes"
    and sync :: "'s \<Rightarrow> 's \<Rightarrow> bool"
    and padMax :: nat
  assumes carries:
    "sync ws rs \<Longrightarrow> packet \<noteq> [] \<Longrightarrow> length packet + 1 + padMax \<le> maxPacket \<Longrightarrow> w_room w = None \<Longrightarrow> padMax \<le> length rand \<Longrightarrow>
     \<exists>out ws' rs' n. wr seqNum packet ws rand w = (ws', drop n rand, w\<lparr>w_out := w_out w @ out\<rparr>, Ok ()) \<and>
       n \<le> padMax \<and> sync ws' rs' \<and> (\<forall>rest. rd seqNum rs (out @ rest) = (Ok packet, rs', rest))"
begin

text \<open>Two packets in a row: where the first one ends is where the second one is read.\<close>

lemma carries_two:
  assumes "sync ws rs" "p \<noteq> []" "q \<noteq> []" "length p + 1 + padMax \<le> maxPacket" "length q + 1 + padMax \<le> maxPacket"
    "w_room w = None" "2 * padMax \<le> length rand"
  shows "\<exists>out ws1 rand1 w1 ws2 rand2 w2 rs1 rs2.
    wr n p ws rand w = (ws1, rand1, w1, Ok ()) \<and> wr (n + 1) q ws1 rand1 w1 = (ws2, rand2, w2, Ok ()) \<and>
    w_out w2 = w_out w @ out \<and> sync ws2 rs2 \<and>
    (\<forall>rest. \<exists>r. rd n rs (out @ rest) = (Ok p, rs1, r) \<and> rd (n + 1) rs1 r = (Ok q, rs2, rest))"
proof -
  have "padMax \<le> length rand" using assms(7) by simp
  from carries [OF assms(1,2,4,6) this, of n] obtain out1 ws1 rs1 k1 where 1: "wr n p ws rand w = (ws1, drop k1 rand, w\<lparr>w_out := w_out w @ out1\<rparr>, Ok ())"
    "k1 \<le> padMax" "sync ws1 rs1" "\<forall>rest. rd n rs (out1 @ rest) = (Ok p, rs1, rest)"
    by blast
  have "w_room (w\<lparr>w_out := w_out w @ out1\<rparr>) = None" "padMax \<le> length (drop k1 rand)" using assms(6,7) 1(2) by simp_all
  from carries [OF 1(3) assms(3,5) this, of "n + 1"] obtain out2 ws2 rs2 k2 where
    "wr (n + 1) q ws1 (drop k1 rand) (w\<lparr>w_out := w_out w @ out1\<rparr>) =
       (ws2, drop k2 (drop k1 rand), w\<lparr>w_out := (w_out w @ out1) @ out2\<rparr>, Ok ())"
    "sync ws2 rs2" "\<forall>rest. rd (n + 1) rs1 (out2 @ rest) = (Ok q, rs2, rest)"
    by auto
  with 1 show ?thesis
    by (intro exI [of _ "out1 @ out2"] exI [of _ ws1] exI [of _ "drop k1 rand"] exI [of _ "w\<lparr>w_out := w_out w @ out1\<rparr>"]
        exI [of _ ws2] exI [of _ "drop k2 (drop k1 rand)"] exI [of _ "w\<lparr>w_out := (w_out w @ out1) @ out2\<rparr>"]
        exI [of _ rs1] exI [of _ rs2]) simp
qed

end

section \<open>The stream cipher\<close>

definition streamSync :: "streamPacketCipher \<Rightarrow> streamPacketCipher \<Rightarrow> bool" where
  "streamSync ws rs \<longleftrightarrow> ws = rs \<and> mac_ok (sp_mac ws)"

interpretation streamc: packet_cipher stream_writePacket stream_readPacket streamSync 19
proof
  fix ws rs :: streamPacketCipher and packet rand :: bytes and w :: writer and seqNum :: u32
  assume a: "streamSync ws rs" "packet \<noteq> []" "length packet + 1 + 19 \<le> maxPacket" "w_room w = None" "19 \<le> length rand"
  define n where "n = streamPadding (length packet) (if isEtm ws then 4 else 0)"
  have n: "n < 20" unfolding n_def by (rule streamPadding_bounds(2)) simp
  let ?f = "streamFrame seqNum packet ws (take n rand)"
  have m: "mac_ok (sp_mac ws)" and eq: "ws = rs" using a(1) by (auto simp: streamSync_def)
  have "stream_writePacket seqNum packet ws rand w = (snd ?f, drop n rand, w\<lparr>w_out := w_out w @ fst ?f\<rparr>, Ok ())"
    using a n by (intro stream_write_frame n_def) auto
  moreover have "stream_readPacket seqNum ws (fst ?f @ rest) = (Ok packet, snd ?f, rest)" for rest
    using a n m by (intro stream_read_frame) auto
  moreover have "sp_mac (snd ?f) = sp_mac ws" by (simp add: streamFrame_def Let_def split_beta)
  ultimately show "\<exists>out ws' rs' n. stream_writePacket seqNum packet ws rand w =
      (ws', drop n rand, w\<lparr>w_out := w_out w @ out\<rparr>, Ok ()) \<and> n \<le> 19 \<and> streamSync ws' rs' \<and>
      (\<forall>rest. stream_readPacket seqNum rs (out @ rest) = (Ok packet, rs', rest))"
    using n m eq
    by (intro exI [of _ "fst ?f"] exI [of _ "snd ?f"] exI [of _ n]) (simp add: streamSync_def)
qed

section \<open>AES-GCM\<close>

definition aead_ok :: "aead \<Rightarrow> bool" where
  "aead_ok a \<longleftrightarrow> (\<forall>iv p ad. length iv = gcmNonceSize \<longrightarrow>
     length (a_seal a iv p ad) = length p + gcmTagSize \<and> a_open a iv (a_seal a iv p ad) ad = Some p)"

lemma gcmPadding_stream: "gcmPadding n = word_of_nat (streamPadding n 4)"
proof -
  have "unat (word_of_nat k :: byte) = k" if "k \<le> 16" for k
    using that by (simp add: unat_of_nat)
  from this [of "16 - Suc n mod 16"] show ?thesis
    by (auto simp: gcmPadding_def streamPadding_def Let_def word_less_nat_alt)
qed

lemma beUint32_be32_only [simp]: "beUint32 (be32 n) = n"
  using beUint32_be32 [of n "[]"] by simp

lemma gcm_roundtrip:
  assumes "aead_ok (g_aead c)" "length (g_iv c) = gcmNonceSize" "packet \<noteq> []" "length packet + 20 \<le> maxPacket"
    "w_room w = None" and n: "n = streamPadding (length packet) 4" "n \<le> length rand"
  shows "\<exists>out. gcm_writePacket seqNum packet c rand w = (incIV c, drop n rand, w\<lparr>w_out := w_out w @ out\<rparr>, Ok ()) \<and>
    (\<forall>seqNum' rest. gcm_readPacket seqNum' c (out @ rest) = (Ok packet, incIV c, rest))"
proof -
  have b: "4 \<le> n" "n < 20" using streamPadding_bounds [of 4 "length packet"] n by simp_all
  define L where "L = length packet + 1 + n"
  note f = length_fields [OF L_def, unfolded length_greater_0_conv]
  have pad: "unat (word_of_nat n :: byte) = n" "unat (word_of_nat n + 1 :: byte) = n + 1"
    using b unat_of_nat [of "n + 1", where ?'a = 8] by (simp_all add: unat_of_nat add.commute)
  have L: "L \<le> 262144" "length packet + n + 1 = L" "L - Suc (length packet) = n" using assms(4) b by (simp_all add: L_def)
  let ?plain = "word_of_nat n # packet @ take n rand"
  let ?out = "be32 (word_of_nat L) @ a_seal (g_aead c) (g_iv c) ?plain (be32 (word_of_nat L))"
  have "gcm_writePacket seqNum packet c rand w = (incIV c, drop n rand, w\<lparr>w_out := w_out w @ ?out\<rparr>, Ok ())"
    using assms L f(1) b
    by (simp add: gcm_writePacket_def Let_def gcmPadding_stream n(1) [symmetric] pad w_write_unbounded readFull_enough L(2)
      del: of_nat_add of_nat_Suc)
  moreover have "gcm_readPacket seqNum' c (?out @ rest) = (Ok packet, incIV c, rest)" for rest seqNum'
  proof -
    have "Suc n < L" using assms(3) by (cases packet) (simp_all add: L_def)
    then have "gcmPayload (word_of_nat L) ?plain = Ok packet"
      using assms(3) L f b n(2) by (simp add: gcmPayload_def Let_def pad word_less_nat_alt del: of_nat_add of_nat_Suc)
    then show ?thesis
      using assms(1,2) L b n(2) f(1) by (simp add: gcm_readPacket_def Let_def aead_ok_def)
  qed
  ultimately show ?thesis by blast
qed

definition gcmSync :: "gcmCipher \<Rightarrow> gcmCipher \<Rightarrow> bool" where
  "gcmSync ws rs \<longleftrightarrow> ws = rs \<and> aead_ok (g_aead ws) \<and> length (g_iv ws) = gcmNonceSize"

interpretation gcmc: packet_cipher gcm_writePacket gcm_readPacket gcmSync 19
proof
  fix ws rs :: gcmCipher and packet rand :: bytes and w :: writer and seqNum :: u32
  assume a: "gcmSync ws rs" "packet \<noteq> []" "length packet + 1 + 19 \<le> maxPacket" "w_room w = None" "19 \<le> length rand"
  define n where "n = streamPadding (length packet) 4"
  have n: "n < 20" unfolding n_def by (rule streamPadding_bounds(2)) simp
  have s: "aead_ok (g_aead ws)" "length (g_iv ws) = gcmNonceSize" "ws = rs" using a(1) by (auto simp: gcmSync_def)
  then obtain out where "gcm_writePacket seqNum packet ws rand w = (incIV ws, drop n rand, w\<lparr>w_out := w_out w @ out\<rparr>, Ok ())"
    "\<forall>seqNum' rest. gcm_readPacket seqNum' ws (out @ rest) = (Ok packet, incIV ws, rest)"
    using gcm_roundtrip [of ws packet w n rand seqNum] a n by (auto simp: n_def)
  then show "\<exists>out ws' rs' n. gcm_writePacket seqNum packet ws rand w =
      (ws', drop n rand, w\<lparr>w_out := w_out w @ out\<rparr>, Ok ()) \<and> n \<le> 19 \<and> gcmSync ws' rs' \<and>
      (\<forall>rest. gcm_readPacket seqNum rs (out @ rest) = (Ok packet, rs', rest))"
    using n s by (intro exI [of _ out] exI [of _ "incIV ws"] exI [of _ n]) (simp add: gcmSync_def incIV_spec)
qed

section \<open>Block ciphers in CBC mode\<close>

definition block_ok :: "blockCipher \<Rightarrow> bool" where
  "block_ok b \<longleftrightarrow> (bc_size b = 8 \<or> bc_size b = 16) \<and>
     (\<forall>x. length x = bc_size b \<longrightarrow>
        length (bc_enc b x) = bc_size b \<and> length (bc_dec b x) = bc_size b \<and> bc_dec b (bc_enc b x) = x)"

lemma chunks_Nil [simp]: "chunks n [] = []"
  by (simp add: chunks.simps)

lemma chunks_step: "0 < n \<Longrightarrow> xs \<noteq> [] \<Longrightarrow> chunks n xs = take n xs # chunks n (drop n xs)"
  by (subst chunks.simps) simp

lemma chunks_Cons: "0 < n \<Longrightarrow> length a = n \<Longrightarrow> chunks n (a @ b) = a # chunks n b"
  by (subst chunks.simps) auto

lemma whole_blocks_step:
  "xs \<noteq> [] \<Longrightarrow> 0 < n \<Longrightarrow> length xs mod n = 0 \<Longrightarrow> n \<le> length xs \<and> length (drop n xs) mod n = 0"
  by (cases "length xs < n") (simp_all add: le_mod_geq)

lemma chunks_props:
  "0 < n \<Longrightarrow> length xs mod n = 0 \<Longrightarrow> concat (chunks n xs) = xs \<and> (\<forall>c \<in> set (chunks n xs). length c = n)"
proof (induction n xs rule: chunks.induct)
  case (1 n xs)
  show ?case
  proof (cases "xs = []")
    case False
    note w = whole_blocks_step [OF False 1(2,3)]
    have IH: "concat (chunks n (drop n xs)) = drop n xs \<and> (\<forall>c \<in> set (chunks n (drop n xs)). length c = n)"
      by (rule 1(1)) (use 1(2) False w in simp_all)
    have "length (take n xs) = n" using w by simp
    with IH show ?thesis
      unfolding chunks_step [OF 1(2) False] concat.simps list.set ball_simps by (metis append_take_drop_id)
  qed simp
qed

lemma length_concat_blocks: "\<forall>c \<in> set cs. length c = n \<Longrightarrow> length (concat cs) = length cs * n"
  by (induction cs) simp_all

lemma chunks_append: "0 < n \<Longrightarrow> length a mod n = 0 \<Longrightarrow> chunks n (a @ b) = chunks n a @ chunks n b"
proof (induction n a rule: chunks.induct)
  case (1 n xs)
  show ?case
  proof (cases "xs = []")
    case False
    note w = whole_blocks_step [OF False 1(2,3)]
    have "chunks n (drop n xs @ b) = chunks n (drop n xs) @ chunks n b"
      by (rule 1(1)) (use 1(2) False w in simp_all)
    moreover have "chunks n (xs @ b) = take n xs # chunks n (drop n xs @ b)"
      using False conjunct1 [OF w] by (subst chunks_step [OF 1(2)]) simp_all
    ultimately show ?thesis unfolding chunks_step [OF 1(2) False] by simp
  qed simp
qed

lemma decBlocks_append:
  "decBlocks b (xs @ ys) iv =
     (fst (decBlocks b xs iv) @ fst (decBlocks b ys (snd (decBlocks b xs iv))), snd (decBlocks b ys (snd (decBlocks b xs iv))))"
  by (induction xs arbitrary: iv) (simp_all add: Let_def split_beta)

lemma decBlocks_length:
  "block_ok b \<Longrightarrow> \<forall>c \<in> set cs. length c = bc_size b \<Longrightarrow> length iv = bc_size b \<Longrightarrow>
   length (fst (decBlocks b cs iv)) = length cs * bc_size b \<and> length (snd (decBlocks b cs iv)) = bc_size b"
  by (induction cs arbitrary: iv) (simp_all add: Let_def split_beta block_ok_def)

lemma cbc_blocks_roundtrip:
  "block_ok b \<Longrightarrow> \<forall>p \<in> set ps. length p = bc_size b \<Longrightarrow> length iv = bc_size b \<Longrightarrow>
   length (fst (encBlocks b ps iv)) = length ps * bc_size b \<and> length (snd (encBlocks b ps iv)) = bc_size b \<and>
   decBlocks b (chunks (bc_size b) (fst (encBlocks b ps iv))) iv = (concat ps, snd (encBlocks b ps iv))"
proof (induction ps arbitrary: iv)
  case (Cons p ps)
  let ?c = "bc_enc b (map2 (XOR) p iv)"
  have c: "length ?c = bc_size b" "bc_dec b ?c = map2 (XOR) p iv" "0 < bc_size b"
    using Cons.prems by (auto simp: block_ok_def)
  have "map2 (XOR) (map2 (XOR) p iv) iv = p" using Cons.prems by (intro map2_xor_involutive) simp
  with Cons.IH [of ?c] Cons.prems c show ?case
    by (simp add: Let_def split_beta chunks_Cons)
qed simp

lemma round_up_bounds:
  assumes "0 < m" and "E = (k + m - 1) div m * (m :: nat)"
  shows "k \<le> E" "E < k + m" "E mod m = 0"
proof -
  have "(k + m - 1) = E + (k + m - 1) mod m" using assms by (simp add: div_mult_mod_eq)
  moreover have "(k + m - 1) mod m < m" using assms by simp
  ultimately show "k \<le> E" "E < k + m" using assms(1) by linarith+
  show "E mod m = 0" using assms by simp
qed

lemma cbcEncLength_eq:
  assumes bs: "bs = 8 \<or> bs = 16" and n: "n \<le> 262144" and E: "E = (9 + n + bs - 1) div bs * bs"
  shows "cbcEncLength bs n = word_of_nat E"
proof -
  have m: "maxUInt32 8 bs = word_of_nat bs" "maxUInt32 (9 + n) 4 = word_of_nat (9 + n)"
    using bs by (auto simp: maxUInt32_def)
  have s: "word_of_nat (9 + n) + word_of_nat bs - 1 = (word_of_nat (9 + n + bs - 1) :: u32)"
    using bs by auto
  have d: "word_of_nat k div word_of_nat bs = (word_of_nat (k div bs) :: u32)" if "k < 2 ^ 32" for k
    using bs that by (intro word_unat_eq_iff [THEN iffD2]) (auto simp: unat_div unat_of_nat)
  show ?thesis
    unfolding cbcEncLength_def Let_def using m s d [of "9 + n + bs - 1"] bs n by (simp only: E) auto
qed

definition cbcSync :: "cbcCipher \<Rightarrow> cbcCipher \<Rightarrow> bool" where
  "cbcSync ws rs \<longleftrightarrow> cbc_mac ws = cbc_mac rs \<and> cbc_block ws = cbc_block rs \<and> encrypter ws = decrypter rs \<and>
     length (encrypter ws) = bc_size (cbc_block ws) \<and> block_ok (cbc_block ws) \<and> mac_ok (cbc_mac ws)"

lemma firstBlockLength_eq: "bs = 8 \<or> bs = 16 \<Longrightarrow> firstBlockLength bs = bs"
  by (auto simp: firstBlockLength_def)

lemma dec_split:
  assumes b: "block_ok b" "length iv = bc_size b" "bc_size b \<le> length C" "length C mod bc_size b = 0"
    and dec: "decBlocks b (chunks (bc_size b) C) iv = (D, iv')"
  shows "\<exists>iv1. CryptBlocks decBlocks b iv (take (bc_size b) C) = Ok (take (bc_size b) D, iv1) \<and>
    CryptBlocks decBlocks b iv1 (drop (bc_size b) C) = Ok (drop (bc_size b) D, iv')"
proof -
  let ?n = "bc_size b" and ?a = "take (bc_size b) C" and ?z = "drop (bc_size b) C"
  let ?da = "decBlocks b (chunks ?n ?a) iv"
  have n: "0 < ?n" using b(1) by (auto simp: block_ok_def)
  have a: "length ?a = ?n" "length ?z mod ?n = 0" using b(3,4) by (simp_all add: le_mod_geq)
  have one: "chunks ?n ?a = [?a]" using chunks_Cons [OF n a(1), of "[]"] by simp
  have "length (fst ?da) = ?n" using decBlocks_length [OF b(1), of "[?a]" iv] b(2) a(1) one by simp
  moreover have "chunks ?n C = chunks ?n ?a @ chunks ?n ?z" using chunks_append [OF n, of ?a ?z] a(1) by simp
  then have "D = fst ?da @ fst (decBlocks b (chunks ?n ?z) (snd ?da))" "iv' = snd (decBlocks b (chunks ?n ?z) (snd ?da))"
    using dec by (simp_all add: decBlocks_append)
  ultimately have "?da = (take ?n D, snd ?da)" "decBlocks b (chunks ?n ?z) (snd ?da) = (drop ?n D, iv')"
    by (simp_all add: prod_eq_iff)
  then show ?thesis using a by (intro exI [of _ "snd ?da"]) (simp add: CryptBlocks_def)
qed

lemma cbc_header_ok:
  assumes bs: "bs = 8 \<or> bs = 16" and E: "E = n + 5 + pad" "E mod bs = 0" "16 \<le> E" "4 \<le> pad" "pad < 256" "0 < n" "E \<le> 262144"
  shows "cbcHeaderError bs (word_of_nat (E - 4)) (ucast (word_of_nat pad :: byte)) = None"
proof -
  have L: "E - 4 = n + 1 + pad" "E - 4 \<le> 262144" using E by simp_all
  note f = length_fields [OF L E(5,6)]
  have m: "maxUInt32 8 bs = word_of_nat bs" "maxUInt32 16 bs = 16" using bs by (auto simp: maxUInt32_def)
  have e: "word_of_nat (E - 4) + 4 = (word_of_nat E :: u32)" using E(3) by simp
  have "unat ((word_of_nat E :: u32) mod word_of_nat bs) = E mod bs"
    using bs E(7) by (auto simp: unat_mod)
  then have "(word_of_nat E :: u32) mod word_of_nat bs = 0" using E(2) by (simp add: word_unat_eq_iff)
  moreover have "\<not> (word_of_nat E :: u32) < 16" using E(3,7) by (simp add: word_less_nat_alt)
  moreover have "\<not> (ucast (word_of_nat pad :: byte) :: u32) < 4"
    using E(4,5) by (simp add: ucast_byte_of_nat word_less_nat_alt)
  ultimately show ?thesis using f(1,2) L(2) by (simp add: cbcHeaderError_def e m del: of_nat_diff)
qed

text \<open>The clear text of a CBC packet, before it is encrypted.\<close>

definition cbcClear :: "bytes \<Rightarrow> bytes \<Rightarrow> bytes" where
  "cbcClear packet pad = be32 (word_of_nat (length packet + 1 + length pad)) @ word_of_nat (length pad) # packet @ pad"

lemma cbc_write_frame:
  assumes bs: "bc_size (cbc_block c) = bs" "block_ok (cbc_block c)" and n: "length packet \<le> 262144"
    and E: "E = (9 + length packet + bs - 1) div bs * bs" "k = E - 5 - length packet" "k \<le> length rand"
    and w: "w_room w = None" and D: "D = cbcClear packet (take k rand)"
    and C: "encBlocks (cbc_block c) (chunks bs D) (encrypter c) = (C, iv)"
  shows "cbc_writePacket seqNum packet c rand w =
    (c\<lparr>encrypter := iv\<rparr>, drop k rand,
     w\<lparr>w_out := w_out w @ C @ (case cbc_mac c of None \<Rightarrow> [] | Some h \<Rightarrow> h_sum h (be32 seqNum @ D))\<rparr>, Ok ())"
proof -
  have b: "bs = 8 \<or> bs = 16" using bs by (auto simp: block_ok_def)
  note r = round_up_bounds [OF _ E(1)]
  have len: "cbcEncLength bs (length packet) = word_of_nat E" using b n E(1) by (rule cbcEncLength_eq)
  have u: "unat (word_of_nat E :: u32) = E" using r(2) b n by auto
  have E9: "9 + length packet \<le> E" using r(1) b by auto
  then have l: "word_of_nat E - 4 = (word_of_nat (E - 4) :: u32)" by simp
  have l2: "unat (word_of_nat (E - 4) :: u32) = E - 4" using r(2) b n by (intro unat_word_of_nat_small) auto
  have k: "9 + length packet \<le> E" "E - 4 = length packet + 1 + k" using E9 E(2) by simp_all
  have D': "D = be32 (word_of_nat (E - 4)) @ word_of_nat k # packet @ take k rand"
    using E(3) k by (simp add: D cbcClear_def)
  then have "length D = E" using E(3) k by simp
  then have "length D mod bs = 0" using r(3) b by auto
  then show ?thesis
    using u k l l2 E(2,3) w C D' bs(1)
    by (cases "cbc_mac c")
       (simp_all add: cbc_writePacket_def len Let_def readFull_enough CryptBlocks_def w_write_unbounded del: of_nat_diff)
qed

lemma cbc_read_frame:
  assumes bs: "bc_size (cbc_block c) = bs" "block_ok (cbc_block c)" "mac_ok (cbc_mac c)" "length (decrypter c) = bs"
    and D: "D = cbcClear packet pad" "packet \<noteq> []" "4 \<le> length pad" "length pad < 256" "length D mod bs = 0"
      "16 \<le> length D" "length D \<le> 262144"
    and C: "length C = length D" "decBlocks (cbc_block c) (chunks bs C) (decrypter c) = (D, iv)"
    and tag: "tag = (case cbc_mac c of None \<Rightarrow> [] | Some h \<Rightarrow> h_sum h (be32 seqNum @ D))"
  shows "\<exists>c'. cbc_mac c' = cbc_mac c \<and> cbc_block c' = cbc_block c \<and> decrypter c' = iv \<and>
    (\<forall>rest. cbc_readPacket seqNum c (C @ tag @ rest) = (Ok packet, c', rest))"
proof -
  have b: "bs = 8 \<or> bs = 16" using bs by (auto simp: block_ok_def)
  define E where "E = length D"
  have E: "E = length packet + 5 + length pad" by (simp add: E_def D(1) cbcClear_def)
  have blk: "bs \<le> length C" using b D(6) C(1) by auto
  obtain iv1 where d: "CryptBlocks decBlocks (cbc_block c) (decrypter c) (take bs C) = Ok (take bs D, iv1)"
    "CryptBlocks decBlocks (cbc_block c) iv1 (drop bs C) = Ok (drop bs D, iv)"
    using dec_split [OF bs(2), of "decrypter c" C D iv] bs(1,4) blk C D(5) by auto
  have hd: "beUint32 (take bs D) = word_of_nat (E - 4)" "take bs D ! 4 = word_of_nat (length pad)" "length (take bs D) = bs"
    using b blk C(1) by (auto simp: D(1) cbcClear_def E nth_append)
  have ok: "cbcHeaderError bs (word_of_nat (E - 4)) (ucast (word_of_nat (length pad) :: byte)) = None"
    using D(2-7) by (intro cbc_header_ok [OF b E]) (simp_all add: E_def)
  have ms: "unat (cbc_macSize c) = length tag" "length tag < 1024"
    using bs(3) tag by (auto simp: cbc_macSize_def macSizeOf_def mac_ok_def split: option.splits)
  have u: "4 + word_of_nat (E - 4) = (word_of_nat E :: u32)" "unat (word_of_nat E :: u32) = E"
    using D(6,7) by (simp_all add: E_def)
  have p: "unat (word_of_nat E - ucast (word_of_nat (length pad) :: byte) :: u32) = 5 + length packet"
  proof -
    have "(word_of_nat E - ucast (word_of_nat (length pad) :: byte) :: u32) = word_of_nat (5 + length packet)"
      using D(4) by (simp add: ucast_byte_of_nat E)
    then show ?thesis using E D(7) by (simp add: E_def del: of_nat_add)
  qed
  have e: "unat (word_of_nat E + cbc_macSize c) = E + length tag"
    using u(2) ms D(7) by (subst unat_add_lem [THEN iffD1]) (simp_all add: E_def)
  have res: "drop 5 (take (5 + length packet) D) = packet" by (simp add: D(1) cbcClear_def)
  have t: "h_sum h (be32 seqNum @ D) = tag" if "cbc_mac c = Some h" for h using that tag by simp
  have rd: "readFull (E + length tag - bs) ((drop bs C @ tag) @ rest) = (Ok (drop bs C @ tag), rest)" for rest
    using C(1) blk by (intro readFull_append) (simp add: E_def)
  have parts: "take (E - bs) (drop bs C @ tag) = drop bs C" "drop (E - bs) (drop bs C @ tag) = tag"
    using C(1) blk by (simp_all add: E_def)
  define cam where "cam = 262144 + 4 + cbc_macSize c - word_of_nat bs"
  define c2 where "c2 = c\<lparr>oracleCamouflage := cam, decrypter := iv1\<rparr>"
  let ?c' = "c2\<lparr>oracleCamouflage := cam - word_of_nat (E + length tag - bs), decrypter := iv\<rparr>"
  have "cbc_readRest seqNum c2 (take bs D) (drop bs C @ tag @ rest) = (Ok packet, ?c', rest)" for rest
    using t e rd [of rest] d(2) parts hd(3)
    by (cases "cbc_mac c")
       (simp_all add: cbc_readRest_def Let_def hd u p res c2_def cbc_macSize_def del: take_append drop_append length_take)
  moreover have "readFull bs (C @ tag @ rest) = (Ok (take bs C), drop bs C @ tag @ rest)" for rest
    using blk by (simp add: readFull_enough)
  ultimately have "cbc_readPacket seqNum c (C @ tag @ rest) = (Ok packet, ?c', rest)" for rest
    using bs(1) b d(1) ok
    by (simp add: cbc_readPacket_def readPacketLeaky_def Let_def firstBlockLength_eq hd(1,2) c2_def cam_def)
  then show ?thesis by (intro exI [of _ ?c']) (simp add: c2_def)
qed

interpretation cbcc: packet_cipher cbc_writePacket cbc_readPacket cbcSync 19
proof
  fix ws rs :: cbcCipher and packet rand :: bytes and w :: writer and seqNum :: u32
  assume a: "cbcSync ws rs" "packet \<noteq> []" "length packet + 1 + 19 \<le> maxPacket" "w_room w = None" "19 \<le> length rand"
  define bs where "bs = bc_size (cbc_block ws)"
  have s: "block_ok (cbc_block ws)" "mac_ok (cbc_mac ws)" "length (encrypter ws) = bs"
    "cbc_mac rs = cbc_mac ws" "cbc_block rs = cbc_block ws" "decrypter rs = encrypter ws"
    using a(1) by (auto simp: cbcSync_def bs_def)
  have b: "bs = 8 \<or> bs = 16" "0 < bs" using s(1) by (auto simp: block_ok_def bs_def)
  define E where "E = (9 + length packet + bs - 1) div bs * bs"
  note E = round_up_bounds [OF b(2) E_def]
  define k where "k = E - 5 - length packet"
  have k: "4 \<le> k" "k \<le> 19" "k \<le> length rand" "E = length packet + 5 + k" using E(1,2) b(1) a(5) by (auto simp: k_def)
  define D where "D = cbcClear packet (take k rand)"
  have lD: "length D = E" using k by (simp add: D_def cbcClear_def)
  have E16: "16 \<le> E" "E \<le> 262144"
  proof -
    have "E mod 8 = 0" using E(3) b(1) by auto
    moreover have "9 \<le> E" "E \<le> 262148" using E(1) k a(3) by linarith+
    ultimately show "16 \<le> E" "E \<le> 262144" by presburger+
  qed
  obtain C iv where C: "encBlocks (cbc_block ws) (chunks bs D) (encrypter ws) = (C, iv)"
    by (cases "encBlocks (cbc_block ws) (chunks bs D) (encrypter ws)")
  have ch: "concat (chunks bs D) = D" "\<forall>c \<in> set (chunks bs D). length c = bs"
    using chunks_props [OF b(2), of D] lD E(3) by auto
  note rt = cbc_blocks_roundtrip [OF s(1), of "chunks bs D" "encrypter ws", folded bs_def, OF ch(2) s(3)]
  have lC: "length C = length D"
  proof -
    have "length D = length (chunks bs D) * bs" using length_concat_blocks [OF ch(2)] ch(1) by simp
    then show ?thesis using rt C by simp
  qed
  define tag where "tag = (case cbc_mac rs of None \<Rightarrow> [] | Some h \<Rightarrow> h_sum h (be32 seqNum @ D))"
  have "cbc_writePacket seqNum packet ws rand w = (ws\<lparr>encrypter := iv\<rparr>, drop k rand, w\<lparr>w_out := w_out w @ C @ tag\<rparr>, Ok ())"
    using cbc_write_frame [OF bs_def [symmetric] s(1) _ E_def k_def k(3) a(4) D_def C] a(3) s(4)
    by (simp add: tag_def)
  moreover have "decBlocks (cbc_block rs) (chunks bs C) (decrypter rs) = (D, iv)" using rt C ch s(5,6) by simp
  from cbc_read_frame [OF _ _ _ _ D_def a(2) _ _ _ _ _ lC this tag_def] s k lD E16 E(3)
  obtain rs' where "cbc_mac rs' = cbc_mac rs" "cbc_block rs' = cbc_block rs" "decrypter rs' = iv"
    "\<forall>rest. cbc_readPacket seqNum rs (C @ tag @ rest) = (Ok packet, rs', rest)"
    by (auto simp: bs_def)
  moreover have "length iv = bs" using rt C by simp
  ultimately show "\<exists>out ws' rs' n. cbc_writePacket seqNum packet ws rand w =
      (ws', drop n rand, w\<lparr>w_out := w_out w @ out\<rparr>, Ok ()) \<and> n \<le> 19 \<and> cbcSync ws' rs' \<and>
      (\<forall>rest. cbc_readPacket seqNum rs (out @ rest) = (Ok packet, rs', rest))"
    using k(2) s bs_def
    by (intro exI [of _ "C @ tag"] exI [of _ "ws\<lparr>encrypter := iv\<rparr>"] exI [of _ rs'] exI [of _ k]) (simp add: cbcSync_def)
qed

section \<open>Camouflage of CBC verification errors\<close>

definition cbc_ok :: "cbcCipher \<Rightarrow> bool" where
  "cbc_ok c \<longleftrightarrow> block_ok (cbc_block c) \<and> mac_ok (cbc_mac c) \<and> length (decrypter c) = bc_size (cbc_block c)"

abbreviation (input) cbcWindow :: "cbcCipher \<Rightarrow> nat" where
  "cbcWindow c \<equiv> maxPacket + 4 + macSizeOf (cbc_mac c)"

lemma cbcHeaderError_None:
  assumes "cbcHeaderError bs len pad = None" "bs = 8 \<or> bs = 16"
  shows "unat len \<le> maxPacket" "16 \<le> unat len + 4" "(unat len + 4) mod bs = 0"
proof -
  have c: "unat len \<le> maxPacket" "\<not> len + 4 < maxUInt32 16 bs" "(len + 4) mod maxUInt32 8 bs = 0"
    using assms(1) by (auto simp: cbcHeaderError_def split: if_splits)
  have u: "unat (len + 4) = unat len + 4" using c(1) by (subst unat_add_lem [THEN iffD1]) simp_all
  have m: "maxUInt32 8 bs = word_of_nat bs" "maxUInt32 16 bs = 16" "unat (word_of_nat bs :: u32) = bs"
    using assms(2) by (auto simp: maxUInt32_def)
  show "unat len \<le> maxPacket" by (rule c(1))
  show "16 \<le> unat len + 4" using c(2) u m by (simp add: word_less_nat_alt)
  show "(unat len + 4) mod bs = 0" using c(3) u m by (simp add: word_unat_eq_iff unat_mod)
qed

lemma cbc_readRest_consumes:
  assumes c: "block_ok (cbc_block c)" "mac_ok (cbc_mac c)" "length first = bc_size (cbc_block c)"
    and h: "cbcHeaderError (bc_size (cbc_block c)) (beUint32 first) pad = None"
    and r: "cbcWindow c - length first \<le> length r"
    and cam: "oracleCamouflage c = word_of_nat (cbcWindow c - length first)"
  shows "\<exists>p c' k. cbc_readRest seqNum c first r = (p, c', drop k r) \<and> (\<forall>x. p \<noteq> Panic x) \<and>
    unat (oracleCamouflage c') = cbcWindow c - length first - k \<and> k \<le> cbcWindow c - length first"
proof -
  let ?bs = "bc_size (cbc_block c)" and ?len = "beUint32 first"
  have bs: "?bs = 8 \<or> ?bs = 16" using c(1) by (auto simp: block_ok_def)
  note hd = cbcHeaderError_None [OF h bs]
  have ms: "unat (cbc_macSize c) = macSizeOf (cbc_mac c)" "macSizeOf (cbc_mac c) < 1024"
    using c(2) by (auto simp: cbc_macSize_def macSizeOf_def mac_ok_def split: option.splits)
  have u: "unat (4 + ?len) = unat ?len + 4" using hd(1) by (subst unat_add_lem [THEN iffD1]) simp_all
  have e: "unat (4 + ?len + cbc_macSize c) = unat ?len + 4 + macSizeOf (cbc_mac c)"
    using hd(1) ms by (subst unat_add_lem [THEN iffD1]) (simp_all add: u)
  define k where "k = unat ?len + 4 + macSizeOf (cbc_mac c) - length first"
  have k: "k \<le> cbcWindow c - length first" "length first \<le> unat ?len + 4" using hd(1,2) bs c(3) by (auto simp: k_def)
  have rd: "readFull k r = (Ok (take k r), drop k r)" using k(1) r by (intro readFull_enough) simp
  have "(unat ?len + 4 - length first) mod ?bs = 0"
    using hd(3) k(2) c(3) by (simp add: le_mod_geq)
  moreover have "length (take (unat ?len + 4 - length first) (take k r)) = unat ?len + 4 - length first"
    using k r by (simp add: k_def)
  ultimately have blk: "length (take (unat ?len + 4 - length first) (take k r)) mod ?bs = 0" by (simp only:)
  have cam': "unat (oracleCamouflage c - word_of_nat k) = cbcWindow c - length first - k"
  proof -
    have "oracleCamouflage c - word_of_nat k = word_of_nat (cbcWindow c - length first - k)"
      unfolding cam by (rule of_nat_diff [OF k(1), symmetric])
    then show ?thesis using ms(2) by simp
  qed
  obtain plain iv where cr: "CryptBlocks decBlocks (cbc_block c) (decrypter c) (take (unat ?len + 4 - length first) (take k r)) = Ok (plain, iv)"
    using blk by (cases "decBlocks (cbc_block c) (chunks ?bs (take (unat ?len + 4 - length first) (take k r))) (decrypter c)")
       (simp add: CryptBlocks_def)
  have n: "unat (4 + ?len + cbc_macSize c) - length first = k" by (simp add: e k_def)
  define W where "W = cbcWindow c"
  have rest: "cbc_readRest seqNum c first r =
    (let c2 = c\<lparr>oracleCamouflage := oracleCamouflage c - word_of_nat k, decrypter := iv\<rparr>;
         result = drop prefixLen (take (unat (4 + ?len - ucast (first ! 4))) (first @ plain))
     in (case cbc_mac c of None \<Rightarrow> Ok result
         | Some h \<Rightarrow> if h_sum h (be32 seqNum @ first @ plain) \<noteq> drop (unat ?len + 4 - length first) (take k r)
                   then Err (CbcError ''ssh: MAC failure'') else Ok result, c2, drop k r))"
    by (cases "cbc_mac c"; cases "h_sum (the (cbc_mac c)) (be32 seqNum @ first @ plain) = drop (unat ?len + 4 - length first) (take k r)")
       (simp_all only: cbc_readRest_def Let_def u n rd cr prod.case res.case option.case option.sel if_True if_False simp_thms)
  show ?thesis
    using cam' k(1) unfolding rest Let_def W_def [symmetric] by (cases "cbc_mac c") auto
qed

lemma cbc_read_consumes:
  assumes c: "cbc_ok c" and r: "cbcWindow c \<le> length r"
  shows "\<exists>p c' k. readPacketLeaky seqNum c r = (p, c', drop k r) \<and> (\<forall>x. p \<noteq> Panic x) \<and>
    unat (oracleCamouflage c') = cbcWindow c - k \<and> k \<le> cbcWindow c"
proof -
  let ?bs = "bc_size (cbc_block c)"
  have bs: "?bs = 8 \<or> ?bs = 16" using c by (auto simp: cbc_ok_def block_ok_def)
  have ms: "cbc_macSize c = word_of_nat (macSizeOf (cbc_mac c))" "macSizeOf (cbc_mac c) < 1024"
    using c by (auto simp: cbc_macSize_def macSizeOf_def cbc_ok_def mac_ok_def split: option.splits)
  have rd: "readFull ?bs r = (Ok (take ?bs r), drop ?bs r)" using bs r by (intro readFull_enough) auto
  have cam: "262144 + 4 + cbc_macSize c - word_of_nat ?bs = word_of_nat (cbcWindow c - ?bs)"
    using bs by (auto simp: ms(1))
  have one: "chunks ?bs (take ?bs r) = [take ?bs r]" "length (take ?bs r) = ?bs"
    using bs r chunks_Cons [of ?bs "take ?bs r" "[]"] by auto
  obtain first iv where d: "decBlocks (cbc_block c) [take ?bs r] (decrypter c) = (first, iv)" by (cases "decBlocks (cbc_block c) [take ?bs r] (decrypter c)")
  have f: "length first = ?bs" "length iv = ?bs"
    using decBlocks_length [of "cbc_block c" "[take ?bs r]" "decrypter c", unfolded d] c one(2) by (auto simp: cbc_ok_def)
  have cr: "CryptBlocks decBlocks (cbc_block c) (decrypter c) (take ?bs r) = Ok (first, iv)"
    unfolding CryptBlocks_def one d by simp
  let ?c2 = "c\<lparr>oracleCamouflage := word_of_nat (cbcWindow c - ?bs), decrypter := iv\<rparr>"
  let ?err = "cbcHeaderError ?bs (beUint32 first) (ucast (first ! 4))"
  have leaky: "readPacketLeaky seqNum c r =
      (case ?err of Some e \<Rightarrow> (Err e, ?c2, drop ?bs r) | None \<Rightarrow> cbc_readRest seqNum ?c2 first (drop ?bs r))"
    by (simp only: readPacketLeaky_def Let_def firstBlockLength_eq [OF bs] rd cr cam prod.case res.case)
  show ?thesis
  proof (cases ?err)
    case (Some e)
    have "unat (word_of_nat (cbcWindow c - ?bs) :: u32) = cbcWindow c - ?bs" using ms(2) by simp
    with Some leaky bs show ?thesis
      by (intro exI [of _ "Err e"] exI [of _ ?c2] exI [of _ ?bs]) auto
  next
    case None
    have "cbcWindow c - ?bs \<le> length (drop ?bs r)" using r by simp
    with cbc_readRest_consumes [of ?c2 first "ucast (first ! 4)" "drop ?bs r" seqNum] None c f
    obtain p c' k where "cbc_readRest seqNum ?c2 first (drop ?bs r) = (p, c', drop k (drop ?bs r))" "\<forall>x. p \<noteq> Panic x"
      "unat (oracleCamouflage c') = cbcWindow c - ?bs - k" "k \<le> cbcWindow c - ?bs"
      by (auto simp: cbc_ok_def)
    then show ?thesis
      using None leaky bs by (intro exI [of _ p] exI [of _ c'] exI [of _ "?bs + k"]) (auto simp: add.commute)
  qed
qed

section \<open>Concrete primitives\<close>

text \<open>Small instances of the primitives, on which the hypotheses of the properties are met.\<close>

definition sumMac :: hashFn where
  "sumMac = \<lparr>h_sum = (\<lambda>d. [foldl (+) 0 d]), h_size = 1\<rparr>"

definition countStream :: "bool \<Rightarrow> streamPacketCipher" where
  "countStream etm = \<lparr>sp_mac = Some sumMac, sp_cipher = \<lparr>keyStream = word_of_nat, streamPos = 0\<rparr>, sp_etm = etm\<rparr>"

definition plainAead :: aead where
  "plainAead = \<lparr>a_seal = (\<lambda>iv p ad. p @ replicate 16 0), a_open = (\<lambda>iv c ad. Some (take (length c - 16) c))\<rparr>"

text \<open>A toy cipher that shows its nonce in the tag and checks it.\<close>

definition nonceAead :: aead where
  "nonceAead = \<lparr>a_seal = (\<lambda>iv p ad. p @ iv @ replicate 4 0),
     a_open = (\<lambda>iv c ad. if drop (length c - 16) c = iv @ replicate 4 0 then Some (take (length c - 16) c) else None)\<rparr>"

lemma nonceAead_ok [simp]: "aead_ok nonceAead"
  by (simp add: aead_ok_def nonceAead_def)

definition plainBlock :: blockCipher where
  "plainBlock = \<lparr>bc_size = 8, bc_enc = rev, bc_dec = rev\<rparr>"

definition plainCbc :: cbcCipher where
  "plainCbc = \<lparr>cbc_mac = Some sumMac, cbc_block = plainBlock, decrypter = replicate 8 0, encrypter = replicate 8 0, oracleCamouflage = 0\<rparr>"

lemma concrete_ok [simp]:
  "mac_ok (Some sumMac)" "aead_ok plainAead" "block_ok plainBlock" "cbc_ok plainCbc"
  by (auto simp: mac_ok_def sumMac_def aead_ok_def plainAead_def block_ok_def plainBlock_def cbc_ok_def plainCbc_def)

lemma bc_size_plainBlock [simp]: "bc_size plainBlock = 8"
  by (simp add: plainBlock_def)

section \<open>Runs of a GCM cipher\<close>

text \<open>Successive calls of \<open>writePacket\<close> and of \<open>readPacket\<close>, all successful.\<close>

fun gcmWriteRun :: "(u32 \<times> bytes) list \<Rightarrow> gcmCipher \<Rightarrow> bytes \<Rightarrow> writer \<Rightarrow> (gcmCipher \<times> bytes \<times> writer) option" where
  "gcmWriteRun [] c rand w = Some (c, rand, w)"
| "gcmWriteRun ((seqNum, packet) # ps) c rand w =
     (case gcm_writePacket seqNum packet c rand w of
        (c', rand', w', Ok _) \<Rightarrow> gcmWriteRun ps c' rand' w'
      | _ \<Rightarrow> None)"

fun gcmReadRun :: "u32 list \<Rightarrow> gcmCipher \<Rightarrow> bytes \<Rightarrow> (bytes list \<times> gcmCipher \<times> bytes) option" where
  "gcmReadRun [] c r = Some ([], c, r)"
| "gcmReadRun (seqNum # ns) c r =
     (case gcm_readPacket seqNum c r of
        (Ok p, c', r') \<Rightarrow> map_option (\<lambda>(ps, t). (p # ps, t)) (gcmReadRun ns c' r')
      | _ \<Rightarrow> None)"

text \<open>The nonces of a run, and what is on the wire under a nonce.\<close>

definition gcmNonces :: "nat \<Rightarrow> gcmCipher \<Rightarrow> bytes list" where
  "gcmNonces n c = map (\<lambda>i. g_iv ((incIV ^^ i) c)) [0..<n]"

definition sealedUnder :: "aead \<Rightarrow> bytes \<Rightarrow> bytes \<Rightarrow> bool" where
  "sealedUnder a nonce frame \<longleftrightarrow> (\<exists>pre plain. length pre = 4 \<and> frame = pre @ a_seal a nonce plain pre)"

definition openedUnder :: "aead \<Rightarrow> bytes \<Rightarrow> bytes \<Rightarrow> bool" where
  "openedUnder a nonce frame \<longleftrightarrow> 4 \<le> length frame \<and> a_open a nonce (drop 4 frame) (take 4 frame) \<noteq> None"

lemma gcmNonces_Suc: "gcmNonces (Suc n) c = g_iv c # gcmNonces n (incIV c)"
  by (simp add: gcmNonces_def upt_conv_Cons map_Suc_upt [symmetric] funpow_swap1 del: upt_Suc map_Suc_upt)

lemma gcmNonces_distinct:
  assumes "length (g_iv c) = gcmNonceSize" "n \<le> 2 ^ 64"
  shows "distinct (gcmNonces n c)"
proof -
  have "g_iv ((incIV ^^ i) c) \<noteq> g_iv ((incIV ^^ j) c)" if "i < j" "j < n" for i j
  proof
    assume "g_iv ((incIV ^^ i) c) = g_iv ((incIV ^^ j) c)"
    then have "(ivCounter (g_iv c) + i) mod 2 ^ 64 = (ivCounter (g_iv c) + j) mod 2 ^ 64"
      using ivCounter_funpow [of c] assms(1) by metis
    then have "2 ^ 64 dvd j - i" using that(1) mod_eq_dvd_iff_nat [of "ivCounter (g_iv c) + i" "ivCounter (g_iv c) + j" "2 ^ 64"] by simp
    with that assms(2) show False by (auto dest!: dvd_imp_le)
  qed
  then have "inj_on (\<lambda>i. g_iv ((incIV ^^ i) c)) {0..<n}"
    by (metis (no_types, lifting) atLeastLessThan_iff inj_onI linorder_neqE_nat)
  then show ?thesis by (simp add: gcmNonces_def distinct_map)
qed

lemma gcm_write_sealed:
  assumes "gcm_writePacket seqNum packet c rand w = (c', rand', w', Ok ())"
  shows "c' = incIV c \<and> length (g_iv c) = gcmNonceSize \<and>
    (\<exists>frame. w_out w' = w_out w @ frame \<and> sealedUnder (g_aead c) (g_iv c) frame)"
proof -
  have w: "w_out w2 = w_out w1 @ d" if "w_write d w1 = (w2, Ok ())" for d w1 w2
    using that by (auto simp: w_write_def split: option.splits if_splits)
  let ?pre = "be32 (word_of_nat (length packet + unat (gcmPadding (length packet)) + 1))"
  obtain w1 pad where 1: "w_write ?pre w = (w1, Ok ())" "length (g_iv c) = gcmNonceSize" "c' = incIV c"
    "w_write (a_seal (g_aead c) (g_iv c) (gcmPadding (length packet) # packet @ pad) ?pre) w1 = (w', Ok ())"
    using assms by (auto simp: gcm_writePacket_def Let_def split: prod.splits res.splits if_splits)
  let ?frame = "?pre @ a_seal (g_aead c) (g_iv c) (gcmPadding (length packet) # packet @ pad) ?pre"
  have "w_out w' = w_out w @ ?frame" using w [OF 1(1)] w [OF 1(4)] by simp
  moreover have "sealedUnder (g_aead c) (g_iv c) ?frame" unfolding sealedUnder_def
    by (intro exI [of _ ?pre] exI [of _ "gcmPadding (length packet) # packet @ pad"]) simp
  ultimately show ?thesis using 1(2,3) by blast
qed

lemma gcm_read_opened:
  assumes "gcm_readPacket seqNum c r = (Ok p, c', r')"
  shows "c' = incIV c \<and> length (g_iv c) = gcmNonceSize \<and>
    (\<exists>frame. r = frame @ r' \<and> openedUnder (g_aead c) (g_iv c) frame)"
proof -
  have rf: "r1 = x @ r2 \<and> length x = n" if "readFull n r1 = (Ok x, r2)" for n r1 x r2
    using that by (auto simp: readFull_def split: if_splits)
  obtain prefix r1 buf where 1: "readFull 4 r = (Ok prefix, r1)" "readFull (unat (beUint32 prefix) + gcmTagSize) r1 = (Ok buf, r')"
    "length (g_iv c) = gcmNonceSize" "a_open (g_aead c) (g_iv c) buf prefix \<noteq> None" "c' = incIV c"
    using assms by (auto simp: gcm_readPacket_def Let_def split: prod.splits res.splits if_splits option.splits)
  then show ?thesis using rf [OF 1(1)] rf [OF 1(2)]
    by (intro conjI exI [of _ "prefix @ buf"]) (auto simp: openedUnder_def)
qed

lemma gcmWriteRun_sealed:
  "gcmWriteRun ps c rand w = Some (c', rand', w') \<Longrightarrow>
   (ps \<noteq> [] \<longrightarrow> length (g_iv c) = gcmNonceSize) \<and>
   (\<exists>frames. w_out w' = w_out w @ concat frames \<and> list_all2 (sealedUnder (g_aead c)) (gcmNonces (length ps) c) frames)"
proof (induction ps arbitrary: c rand w)
  case Nil
  then show ?case by (simp add: gcmNonces_def)
next
  case (Cons p ps)
  obtain seqNum packet where p: "p = (seqNum, packet)" by fastforce
  obtain c1 rand1 w1 where 1: "gcm_writePacket seqNum packet c rand w = (c1, rand1, w1, Ok ())"
    "gcmWriteRun ps c1 rand1 w1 = Some (c', rand', w')"
    using Cons.prems by (auto simp: p split: prod.splits res.splits)
  obtain frame where r: "c1 = incIV c" "length (g_iv c) = gcmNonceSize" "w_out w1 = w_out w @ frame"
    "sealedUnder (g_aead c) (g_iv c) frame"
    using gcm_write_sealed [OF 1(1)] by blast
  from Cons.IH [OF 1(2)] r obtain frames where "w_out w' = w_out w1 @ concat frames"
    "list_all2 (sealedUnder (g_aead c)) (gcmNonces (length ps) (incIV c)) frames"
    by (auto simp: incIV_def)
  with r show ?case by (intro conjI exI [of _ "frame # frames"]) (simp_all add: gcmNonces_Suc)
qed

lemma gcmReadRun_opened:
  "gcmReadRun ns c r = Some (ps, c', r') \<Longrightarrow>
   (ns \<noteq> [] \<longrightarrow> length (g_iv c) = gcmNonceSize) \<and>
   (\<exists>frames. r = concat frames @ r' \<and> list_all2 (openedUnder (g_aead c)) (gcmNonces (length ns) c) frames)"
proof (induction ns arbitrary: c r ps)
  case Nil
  then show ?case by (simp add: gcmNonces_def)
next
  case (Cons n ns)
  obtain p c1 r1 qs where 1: "gcm_readPacket n c r = (Ok p, c1, r1)" "gcmReadRun ns c1 r1 = Some (qs, c', r')"
    using Cons.prems by (auto split: prod.splits res.splits)
  obtain frame where r: "c1 = incIV c" "length (g_iv c) = gcmNonceSize" "r = frame @ r1"
    "openedUnder (g_aead c) (g_iv c) frame"
    using gcm_read_opened [OF 1(1)] by blast
  from Cons.IH [OF 1(2)] r obtain frames where "r1 = concat frames @ r'"
    "list_all2 (openedUnder (g_aead c)) (gcmNonces (length ns) (incIV c)) frames"
    by (auto simp: incIV_def)
  with r show ?case by (intro conjI exI [of _ "frame # frames"]) (simp_all add: gcmNonces_Suc)
qed

lemma gcmNonces_shape:
  assumes "length (g_iv c) = gcmNonceSize"
  shows "list_all (\<lambda>n. length n = gcmNonceSize \<and> take 4 n = take 4 (g_iv c)) (gcmNonces m c)"
proof -
  have "length (g_iv ((incIV ^^ i) c)) = gcmNonceSize \<and> take 4 (g_iv ((incIV ^^ i) c)) = take 4 (g_iv c)" for i
    by (induction i) (use assms in \<open>simp_all add: incIV_spec\<close>)
  then show ?thesis by (simp add: gcmNonces_def list_all_iff)
qed

section \<open>Properties\<close>

text \<open>C29: A packet that the stream cipher accepts under a MAC carries the MAC of exactly what was received: the
  input splits into prefix, body, tag and the rest, and the tag is the MAC of the sequence number and of the
  cipher text (EtM modes) or of the clear text under the current position of the key stream (the other
  modes).\<close>

theorem stream_accepts_only_tagged:
  assumes "stream_readPacket seqNum s r = (Ok p, s', r')" "sp_mac s = Some h" "mac_ok (sp_mac s)"
  shows "\<exists>raw e tag. r = raw @ e @ tag @ r' \<and> length raw = prefixLen \<and> length tag = h_size h \<and>
    tag = h_sum h (be32 seqNum @ (if sp_etm s then raw @ e else fst (XORKeyStream (raw @ e) (sp_cipher s))))"
  using assms by (rule stream_accept_tag)

lemma stream_accepts_only_tagged_witness:
  "\<exists>raw e tag. fst (streamFrame 7 [1, 2, 3] (countStream True) (replicate 12 9)) @ [0] = raw @ e @ tag @ [0] \<and>
     length raw = prefixLen \<and> length tag = h_size sumMac \<and> tag = h_sum sumMac (be32 7 @ raw @ e)"
  using stream_accepts_only_tagged [OF stream_read_frame, of "[1, 2, 3]" "replicate 12 9" "countStream True" sumMac 7 "[0]"]
  by (simp add: countStream_def)

text \<open>C30: The GCM nonce is never reused under one key. In a run of at most \<open>2 ^ 64\<close> successful calls of
  \<open>writePacket\<close>, the records on the wire are sealed under pairwise different nonces, and in a run of at most
  \<open>2 ^ 64\<close> successful calls of \<open>readPacket\<close> the records are opened under pairwise different nonces; all
  nonces have twelve bytes and keep the four fixed bytes of the initial one, and two ends that start with the same
  nonce use the same sequence.\<close>

theorem gcm_nonces_distinct:
  assumes "gcmWriteRun ps c rand w = Some (c', rand', w')" "length ps \<le> 2 ^ 64"
    and "gcmReadRun seqs d r = Some (qs, d', r')" "length seqs \<le> 2 ^ 64"
  shows "\<exists>ns ms outs ins. w_out w' = w_out w @ concat outs \<and> list_all2 (sealedUnder (g_aead c)) ns outs \<and>
    length ns = length ps \<and> distinct ns \<and>
    list_all (\<lambda>n. length n = gcmNonceSize \<and> take 4 n = take 4 (g_iv c)) ns \<and>
    r = concat ins @ r' \<and> list_all2 (openedUnder (g_aead d)) ms ins \<and>
    length ms = length seqs \<and> distinct ms \<and>
    list_all (\<lambda>n. length n = gcmNonceSize \<and> take 4 n = take 4 (g_iv d)) ms \<and>
    (g_iv c = g_iv d \<longrightarrow> take (length ms) ns = take (length ns) ms)"
proof -
  obtain outs ins where s: "w_out w' = w_out w @ concat outs" "list_all2 (sealedUnder (g_aead c)) (gcmNonces (length ps) c) outs"
    and g: "r = concat ins @ r'" "list_all2 (openedUnder (g_aead d)) (gcmNonces (length seqs) d) ins"
    using gcmWriteRun_sealed [OF assms(1)] gcmReadRun_opened [OF assms(3)] by blast
  have n: "distinct (gcmNonces (length ps) c) \<and> list_all (\<lambda>n. length n = gcmNonceSize \<and> take 4 n = take 4 (g_iv c)) (gcmNonces (length ps) c)"
    using gcmWriteRun_sealed [OF assms(1)] gcmNonces_distinct [OF _ assms(2)] gcmNonces_shape [of c]
    by (cases "ps = []") (simp_all add: gcmNonces_def)
  have m: "distinct (gcmNonces (length seqs) d) \<and> list_all (\<lambda>n. length n = gcmNonceSize \<and> take 4 n = take 4 (g_iv d)) (gcmNonces (length seqs) d)"
    using gcmReadRun_opened [OF assms(3)] gcmNonces_distinct [OF _ assms(4)] gcmNonces_shape [of d]
    by (cases "seqs = []") (simp_all add: gcmNonces_def)
  have "take (length seqs) (gcmNonces (length ps) c) = take (length ps) (gcmNonces (length seqs) d)" if "g_iv c = g_iv d"
  proof -
    have "g_iv ((incIV ^^ i) c) = g_iv ((incIV ^^ i) d)" for i
      by (induction i) (use that in \<open>simp_all add: incIV_def\<close>)
    moreover have "take a [0..<b] = [0..<min a b]" for a b by (cases "a \<le> b") (simp_all add: min_def)
    ultimately show ?thesis by (simp add: gcmNonces_def take_map min.commute)
  qed
  with s g n m show ?thesis
    by (intro exI [of _ "gcmNonces (length ps) c"] exI [of _ "gcmNonces (length seqs) d"] exI [of _ outs] exI [of _ ins])
       (simp add: gcmNonces_def)
qed

lemma gcm_nonces_distinct_witness:
  "\<exists>c' rand' w' d' n1 n2 r1 r2.
     gcmWriteRun [(0, [1]), (1, [2])] \<lparr>g_aead = nonceAead, g_iv = replicate 12 255\<rparr> (replicate 40 0) \<lparr>w_out = [], w_room = None\<rparr> =
       Some (c', rand', w') \<and>
     gcmReadRun [0, 1] \<lparr>g_aead = nonceAead, g_iv = replicate 12 255\<rparr> (w_out w') = Some ([[1], [2]], d', []) \<and>
     w_out w' = r1 @ r2 \<and> sealedUnder nonceAead n1 r1 \<and> sealedUnder nonceAead n2 r2 \<and> n1 \<noteq> n2"
proof -
  let ?c = "\<lparr>g_aead = nonceAead, g_iv = replicate 12 255\<rparr>"
  let ?w = "\<lparr>w_out = [], w_room = None\<rparr>"
  have s: "gcmSync ?c ?c" by (simp add: gcmSync_def)
  obtain c' rand' w' d' where run: "gcmWriteRun [(0, [1]), (1, [2])] ?c (replicate 40 0) ?w = Some (c', rand', w')"
    "gcmReadRun [0, 1] ?c (w_out w') = Some ([[1], [2]], d', [])"
    using gcmc.carries_two [OF s, of "[1]" "[2]" ?w "replicate 40 0" 0] by (force dest!: spec [of _ "[]"])
  obtain ns outs where n: "w_out w' = concat outs" "list_all2 (sealedUnder nonceAead) ns outs" "length ns = 2" "distinct ns"
    using gcm_nonces_distinct [OF run(1) _ run(2)] by auto
  then obtain n1 n2 r1 r2 where "ns = [n1, n2]" "outs = [r1, r2]"
    by (auto simp: numeral_2_eq_2 length_Suc_conv list_all2_Cons1)
  with n run show ?thesis by (intro exI conjI) auto
qed

text \<open>C31: A CBC verification error always swallows the same number of bytes. Whatever check failed (length,
  multiple, padding or MAC), the reader has consumed the largest packet size, the length field and the MAC size
  when \<open>readPacket\<close> returns a \<open>cbcError\<close>, so the consumption does not tell the failures
  apart; and no input of that length makes it panic.\<close>

theorem cbc_error_consumption_constant:
  assumes "cbc_ok c" "maxPacket + 4 + macSizeOf (cbc_mac c) \<le> length r" "cbc_readPacket seqNum c r = (p, c', r')"
  shows "(\<forall>x. p \<noteq> Panic x) \<and>
    (\<forall>x. p = Err (CbcError x) \<longrightarrow> r' = drop (maxPacket + 4 + macSizeOf (cbc_mac c)) r)"
proof -
  obtain p1 c1 k where l: "readPacketLeaky seqNum c r = (p1, c1, drop k r)" "\<forall>x. p1 \<noteq> Panic x"
    "unat (oracleCamouflage c1) = maxPacket + 4 + macSizeOf (cbc_mac c) - k" "k \<le> maxPacket + 4 + macSizeOf (cbc_mac c)"
    using cbc_read_consumes [OF assms(1,2)] by blast
  then show ?thesis
    using assms(3) by (auto simp: cbc_readPacket_def split: res.splits gerror.splits)
qed

lemma cbc_error_consumption_constant_witness:
  "fst (cbc_readPacket 0 plainCbc (replicate 262200 255)) = Err (CbcError ''ssh: packet too large'') \<and>
   snd (snd (cbc_readPacket 0 plainCbc (replicate 262200 255))) = drop 262149 (replicate 262200 255)"
proof -
  have "fst (cbc_readPacket 0 plainCbc (replicate n 255)) = Err (CbcError ''ssh: packet too large'')" if "8 \<le> n" for n
  proof -
    have "readFull 8 (replicate n (255 :: byte)) = (Ok (replicate 8 255), replicate (n - 8) 255)"
      using that by (simp add: readFull_enough min_def)
    moreover have "decBlocks plainBlock (chunks 8 (replicate 8 255)) (replicate 8 0) = (replicate 8 255, replicate 8 255)"
      by (simp add: chunks_step plainBlock_def)
    moreover have "beUint32 (replicate 8 255) = 4294967295" by code_simp
    moreover have "firstBlockLength 8 = 8" by (simp add: firstBlockLength_def)
    ultimately show ?thesis
      by (simp add: cbc_readPacket_def readPacketLeaky_def Let_def plainCbc_def CryptBlocks_def cbcHeaderError_def
          bc_size_plainBlock del: replicate.simps)
  qed
  from this [of 262200] have e: "fst (cbc_readPacket 0 plainCbc (replicate 262200 255)) = Err (CbcError ''ssh: packet too large'')"
    by simp
  have m: "macSizeOf (cbc_mac plainCbc) = 1" by (simp add: plainCbc_def macSizeOf_def sumMac_def)
  obtain p c' r' where q: "cbc_readPacket 0 plainCbc (replicate 262200 255) = (p, c', r')"
    by (cases "cbc_readPacket 0 plainCbc (replicate 262200 255)")
  show ?thesis
    using cbc_error_consumption_constant [OF _ _ q] e unfolding q m by simp
qed

text \<open>C32: The GCM reader accepts no packet shorter than its padding, but it panics on a packet that its peer
  authenticated with an empty body (\<open>plain[0]\<close> is out of range), and on one whose padding byte is 255 and whose
  body has at most 255 bytes: \<open>padding+1\<close> wraps to 0 in the guard, and the slice bounds are then out
  of range.\<close>

theorem gcm_authenticated_panic:
  assumes "length (g_iv c) = gcmNonceSize" "aead_ok (g_aead c)"
    and "plain = [] \<or> (hd plain = 255 \<and> length plain \<le> 255)"
    and "prefix = be32 (word_of_nat (length plain))"
  shows "\<exists>x. gcm_readPacket seqNum c (prefix @ a_seal (g_aead c) (g_iv c) plain prefix @ rest) = (Panic x, incIV c, rest)"
proof -
  have "length plain \<le> 255" using assms(3) by auto
  then have u: "unat (word_of_nat (length plain) :: u32) = length plain" by simp
  have "\<exists>x. gcmPayload (word_of_nat (length plain)) plain = Panic x"
  proof (cases plain)
    case (Cons a as)
    have l: "a = 255" "length plain \<le> 255" using assms(3) Cons by auto
    have "unat (word_of_nat (length plain) - 255 :: u32) = 0 \<or> length plain < unat (word_of_nat (length plain) - 255 :: u32)"
    proof (cases "length plain = 255")
      case False
      then have "unat (word_of_nat (length plain) - 255 :: u32) = 2 ^ 32 + length plain - 255"
        using l(2) u by (subst unat_sub_if') (simp add: word_le_nat_alt)
      then show ?thesis using l(2) by simp
    qed simp
    then show ?thesis using Cons l(1) by (auto simp: gcmPayload_def Let_def)
  qed (simp add: gcmPayload_def)
  then show ?thesis
    using assms u \<open>length plain \<le> 255\<close> by (auto simp: gcm_readPacket_def Let_def aead_ok_def)
qed

lemma gcm_authenticated_panic_witness:
  "\<exists>x. gcm_readPacket 0 \<lparr>g_aead = plainAead, g_iv = replicate 12 0\<rparr>
      (be32 (word_of_nat (length (255 # replicate 15 (0 :: byte)))) @
       a_seal plainAead (replicate 12 0) (255 # replicate 15 0) (be32 (word_of_nat (length (255 # replicate 15 (0 :: byte))))) @ []) =
     (Panic x, incIV \<lparr>g_aead = plainAead, g_iv = replicate 12 0\<rparr>, [])"
  using gcm_authenticated_panic [of "\<lparr>g_aead = plainAead, g_iv = replicate 12 0\<rparr>" "255 # replicate 15 0"
      "be32 (word_of_nat (length (255 # replicate 15 (0 :: byte))))" 0 "[]"]
  by (simp del: replicate.simps)

end
