(* ===== verification/Transport.thy ===== *)
theory Transport
  imports PacketCipher
begin

text \<open>
  The packet transport (\<open>src/transport.go\<close>): the two connection states with their sequence
  numbers, the switch to the pending cipher on \<open>msgNewKeys\<close>, key derivation and the version
  exchange. The cryptographic constructors of the standard library are the fields of \<open>prims\<close>. The
  main lemmas show that a transport delivers what its peer writes across a change of keys, that its read
  loop returns, and that the derived keys are those of RFC 4253, section 7.2.
\<close>

section \<open>Ciphers and connection states\<close>

text \<open>The interface \<open>packetCipher\<close> with its three implementations, and its two methods.\<close>

datatype packetCipher = StreamC streamPacketCipher | GcmC gcmCipher | CbcC cbcCipher

fun cipher_writePacket ::
    "u32 \<Rightarrow> bytes \<Rightarrow> packetCipher \<Rightarrow> bytes \<Rightarrow> writer \<Rightarrow> packetCipher \<times> bytes \<times> writer \<times> unit res" where
  "cipher_writePacket n p (StreamC c) rand w = apfst StreamC (stream_writePacket n p c rand w)"
| "cipher_writePacket n p (GcmC c) rand w = apfst GcmC (gcm_writePacket n p c rand w)"
| "cipher_writePacket n p (CbcC c) rand w = apfst CbcC (cbc_writePacket n p c rand w)"

fun cipher_readPacket :: "u32 \<Rightarrow> packetCipher \<Rightarrow> bytes \<Rightarrow> bytes res \<times> packetCipher \<times> bytes" where
  "cipher_readPacket n (StreamC c) r = apsnd (apfst StreamC) (stream_readPacket n c r)"
| "cipher_readPacket n (GcmC c) r = apsnd (apfst GcmC) (gcm_readPacket n c r)"
| "cipher_readPacket n (CbcC c) r = apsnd (apfst CbcC) (cbc_readPacket n c r)"

record direction =
  ivTag :: bytes
  keyTag :: bytes
  macKeyTag :: bytes

definition serverKeys :: direction where
  "serverKeys = \<lparr>ivTag = [66], keyTag = [68], macKeyTag = [70]\<rparr>"

definition clientKeys :: direction where
  "clientKeys = \<lparr>ivTag = [65], keyTag = [67], macKeyTag = [69]\<rparr>"

record connectionState =
  cs_cipher :: packetCipher
  cs_seqNum :: u32
  cs_dir :: direction
  pendingKeyChange :: "packetCipher option"

record transport =
  tr_reader :: connectionState
  tr_writer :: connectionState
  bufReader :: bytes
  bufWriter :: writer
  tr_rand :: bytes
  tr_isClient :: bool

definition newTransport :: "bytes \<Rightarrow> writer \<Rightarrow> bytes \<Rightarrow> bool \<Rightarrow> transport" where
  "newTransport r w rand isClient =
     (let c = StreamC \<lparr>sp_mac = None, sp_cipher = noneCipher, sp_etm = False\<rparr>;
          cs = (\<lambda>d. \<lparr>cs_cipher = c, cs_seqNum = 0, cs_dir = d, pendingKeyChange = None\<rparr>)
      in \<lparr>tr_reader = cs (if isClient then serverKeys else clientKeys),
          tr_writer = cs (if isClient then clientKeys else serverKeys),
          bufReader = r, bufWriter = w, tr_rand = rand, tr_isClient = isClient\<rparr>)"

section \<open>Reading and writing packets\<close>

definition cs_readPacket :: "connectionState \<Rightarrow> bytes \<Rightarrow> bytes res \<times> connectionState \<times> bytes" where
  "cs_readPacket s r =
     (case cipher_readPacket (cs_seqNum s) (cs_cipher s) r of
        (p, c, r1) \<Rightarrow>
          let s1 = s\<lparr>cs_cipher := c, cs_seqNum := cs_seqNum s + 1\<rparr> in
          (case p of
             Panic x \<Rightarrow> (Panic x, s1, r1)
           | Err e \<Rightarrow> (Err e, s1, r1)
           | Ok [] \<Rightarrow> (Err (ErrNew ''ssh: zero length packet''), s1, r1)
           | Ok (b # packet) \<Rightarrow>
               if b = msgNewKeys then
                 (case pendingKeyChange s1 of
                    Some cipher \<Rightarrow> (Ok (b # packet), s1\<lparr>cs_cipher := cipher, pendingKeyChange := None\<rparr>, r1)
                  | None \<Rightarrow> (Err (ErrNew ''ssh: got bogus newkeys message.''), s1, r1))
               else if b = msgDisconnect then
                 (case UnmarshalMsg T_disconnectMsg (b # packet) of
                    Ok (DisconnectMsg reason message lang) \<Rightarrow> (Err (DisconnectErr reason message lang), s1, r1)
                  | Ok _ \<Rightarrow> (wrongKind, s1, r1)
                  | Err e \<Rightarrow> (Err e, s1, r1)
                  | Panic x \<Rightarrow> (Panic x, s1, r1))
               else (Ok (b # packet), s1, r1)))"

definition cs_writePacket ::
    "bytes \<Rightarrow> connectionState \<Rightarrow> bytes \<Rightarrow> writer \<Rightarrow> connectionState \<times> bytes \<times> writer \<times> unit res" where
  "cs_writePacket packet s rand w =
     (let changeKeys = (packet \<noteq> [] \<and> hd packet = msgNewKeys) in
      case cipher_writePacket (cs_seqNum s) packet (cs_cipher s) rand w of
        (c, rand1, w1, Ok _) \<Rightarrow>
          let s1 = s\<lparr>cs_cipher := c, cs_seqNum := cs_seqNum s + 1\<rparr> in
          if changeKeys then
            (case pendingKeyChange s1 of
               Some cipher \<Rightarrow> (s1\<lparr>cs_cipher := cipher, pendingKeyChange := None\<rparr>, rand1, w1, Ok ())
             | None \<Rightarrow> (s1, rand1, w1, Panic ''ssh: no key material for msgNewKeys''))
          else (s1, rand1, w1, Ok ())
      | (c, rand1, w1, e) \<Rightarrow> (s\<lparr>cs_cipher := c\<rparr>, rand1, w1, e))"

text \<open>\<open>None\<close> is a loop that does not return.\<close>

partial_function (option) transport_readPacket :: "transport \<Rightarrow> (bytes res \<times> transport) option" where
  "transport_readPacket t =
     (case cs_readPacket (tr_reader t) (bufReader t) of
        (p, s, r) \<Rightarrow>
          let t1 = t\<lparr>tr_reader := s, bufReader := r\<rparr> in
          (case p of
             Ok (b # q) \<Rightarrow> if b \<noteq> msgIgnore \<and> b \<noteq> msgDebug then Some (p, t1) else transport_readPacket t1
           | _ \<Rightarrow> Some (p, t1)))"

definition transport_writePacket :: "bytes \<Rightarrow> transport \<Rightarrow> transport \<times> unit res" where
  "transport_writePacket packet t =
     (case cs_writePacket packet (tr_writer t) (tr_rand t) (bufWriter t) of
        (s, rand, w, e) \<Rightarrow> (t\<lparr>tr_writer := s, tr_rand := rand, bufWriter := w\<rparr>, e))"

section \<open>Keys\<close>

record kexResult =
  kr_H :: bytes
  kr_K :: bytes
  kr_HostKey :: bytes
  kr_Signature :: bytes
  kr_Hash :: cryptoHash
  kr_SessionID :: bytes

record prims =
  newHash :: "cryptoHash \<Rightarrow> hashFn"
  hmacSHA256 :: "bytes \<Rightarrow> hashFn"
  hmacSHA1 :: "bytes \<Rightarrow> hashFn"
  newStream :: "createFunc \<Rightarrow> bytes \<Rightarrow> bytes \<Rightarrow> stream res"
  newGCM :: "bytes \<Rightarrow> aead res"
  newAES :: "bytes \<Rightarrow> blockCipher res"
  newTripleDES :: "bytes \<Rightarrow> blockCipher res"

text \<open>
  \<open>generateKeyMaterial\<close> for a slice of \<open>n\<close> bytes. A round copies as much of the digest as
  fits; the round's digest joins \<open>digestsSoFar\<close> only when bytes are missing still.
\<close>

partial_function (option) keyMaterialLoop ::
    "(bytes \<Rightarrow> bytes) \<Rightarrow> bytes \<Rightarrow> kexResult \<Rightarrow> nat \<Rightarrow> bytes \<Rightarrow> bytes option" where
  "keyMaterialLoop h tag r n digestsSoFar =
     (if n = 0 then Some []
      else
        let digest = h (kr_K r @ kr_H r @ (if digestsSoFar = [] then tag @ kr_SessionID r else digestsSoFar));
            k = min n (length digest)
        in Option.bind (keyMaterialLoop h tag r (n - k) (if n - k > 0 then digestsSoFar @ digest else digestsSoFar))
             (\<lambda>out. Some (take k digest @ out)))"

definition generateKeyMaterial :: "(cryptoHash \<Rightarrow> hashFn) \<Rightarrow> nat \<Rightarrow> bytes \<Rightarrow> kexResult \<Rightarrow> bytes option" where
  "generateKeyMaterial hs n tag r = keyMaterialLoop (h_sum (hs (kr_Hash r))) tag r n []"

definition generateKeys ::
    "prims \<Rightarrow> direction \<Rightarrow> directionAlgorithms \<Rightarrow> kexResult \<Rightarrow> (bytes \<times> bytes \<times> bytes) res option" where
  "generateKeys P d algs kx =
     (case (cipherModes (Cipher algs), macModes (hmacSHA256 P) (hmacSHA1 P) (MAC algs)) of
        (Some cipherMode, Some macMode) \<Rightarrow>
          (case (generateKeyMaterial (newHash P) (ivSize cipherMode) (ivTag d) kx,
                 generateKeyMaterial (newHash P) (keySize cipherMode) (keyTag d) kx,
                 generateKeyMaterial (newHash P) (mm_keySize macMode) (macKeyTag d) kx) of
             (Some iv, Some key, Some macKey) \<Rightarrow> Some (Ok (iv, key, macKey))
           | _ \<Rightarrow> None)
      | _ \<Rightarrow> Some (Panic ''invalid memory address or nil pointer dereference''))"

text \<open>The constructor, once the keys are there.\<close>

definition cipherFromKeys ::
    "prims \<Rightarrow> directionAlgorithms \<Rightarrow> bytes \<Rightarrow> bytes \<Rightarrow> bytes \<Rightarrow> packetCipher res" where
  "cipherFromKeys P algs iv key macKey =
     (let modes = macModes (hmacSHA256 P) (hmacSHA1 P) in
      if Cipher algs = gcmCipherID then res_bind (newGCMCipher (newGCM P) iv key) (\<lambda>c. Ok (GcmC c))
      else if Cipher algs = aes128cbcID then
        res_bind (newBlockCBCCipher (newAES P) modes iv key macKey (MAC algs)) (\<lambda>c. Ok (CbcC c))
      else if Cipher algs = tripledescbcID then
        res_bind (newBlockCBCCipher (newTripleDES P) modes iv key macKey (MAC algs)) (\<lambda>c. Ok (CbcC c))
      else
        (case (modes (MAC algs), cipherModes (Cipher algs)) of
           (Some m, Some cm) \<Rightarrow>
             res_bind (createStream (newStream P (createFn cm)) cm key iv)
               (\<lambda>s. Ok (StreamC \<lparr>sp_mac = Some (mm_new m macKey), sp_cipher = s, sp_etm = mm_etm m\<rparr>))
         | _ \<Rightarrow> Panic ''invalid memory address or nil pointer dereference''))"

definition newPacketCipher ::
    "prims \<Rightarrow> direction \<Rightarrow> directionAlgorithms \<Rightarrow> kexResult \<Rightarrow> packetCipher res option" where
  "newPacketCipher P d algs kx =
     (case generateKeys P d algs kx of
        None \<Rightarrow> None
      | Some k \<Rightarrow> Some (res_bind k (\<lambda>(iv, key, macKey). cipherFromKeys P algs iv key macKey)))"

text \<open>
  One half of \<open>prepareKeyChange\<close>: \<open>pick\<close> says that the \<open>select\<close> takes the send on the
  channel of capacity one, \<open>stop\<close> that the halter or the context is done. \<open>None\<close> is a
  call that does not return.
\<close>

definition prepareSide ::
    "prims \<Rightarrow> bool \<Rightarrow> bool \<Rightarrow> directionAlgorithms \<Rightarrow> kexResult \<Rightarrow> connectionState \<Rightarrow> (connectionState \<times> unit res) option" where
  "prepareSide P pick stop algs kx s =
     (case newPacketCipher P (cs_dir s) algs kx of
        None \<Rightarrow> None
      | Some (Err e) \<Rightarrow> Some (s, Err e)
      | Some (Panic x) \<Rightarrow> Some (s, Panic x)
      | Some (Ok c) \<Rightarrow>
          if pick \<and> pendingKeyChange s = None then Some (s\<lparr>pendingKeyChange := Some c\<rparr>, Ok ())
          else if \<not> pick \<and> stop then Some (s, Err IoEOF)
          else None)"

definition prepareKeyChange ::
    "prims \<Rightarrow> bool \<Rightarrow> bool \<Rightarrow> bool \<Rightarrow> algorithms \<Rightarrow> kexResult \<Rightarrow> transport \<Rightarrow> (transport \<times> unit res) option" where
  "prepareKeyChange P pickR pickW stop algs kx t =
     (case prepareSide P pickR stop (alg_r algs) kx (tr_reader t) of
        None \<Rightarrow> None
      | Some (s, Ok _) \<Rightarrow>
          (case prepareSide P pickW stop (alg_w algs) kx (tr_writer t) of
             None \<Rightarrow> None
           | Some (s', e) \<Rightarrow> Some (t\<lparr>tr_reader := s, tr_writer := s'\<rparr>, e))
      | Some (s, e) \<Rightarrow> Some (t\<lparr>tr_reader := s\<rparr>, e))"

section \<open>Version exchange\<close>

fun readVersionLoop :: "bytes \<Rightarrow> bytes \<Rightarrow> bytes res \<times> bytes" where
  "readVersionLoop versionString r =
     (if length versionString < 255 then
        (case r of
           [] \<Rightarrow> (Err IoEOF, [])
         | b # r' \<Rightarrow> if b = 10 then (Ok versionString, r') else readVersionLoop (versionString @ [b]) r')
      else (Err (ErrNew ''ssh: overflow reading version string''), r))"

declare readVersionLoop.simps [simp del]

definition readVersion :: "bytes \<Rightarrow> bytes res \<times> bytes" where
  "readVersion r =
     (case readVersionLoop [] r of
        (Ok v, r') \<Rightarrow> (Ok (if v \<noteq> [] \<and> last v = 13 then butlast v else v), r')
      | (e, r') \<Rightarrow> (e, r'))"

definition exchangeVersions :: "bytes \<Rightarrow> bytes \<Rightarrow> writer \<Rightarrow> bytes res \<times> bytes \<times> writer" where
  "exchangeVersions versionLine r w =
     (if \<exists>c \<in> set versionLine. c < 32 then (Err (ErrNew ''ssh: junk character in version line''), r, w)
      else
        (case w_write (versionLine @ [13, 10]) w of
           (w', Ok _) \<Rightarrow> (case readVersion r of (v, r') \<Rightarrow> (v, r', w'))
         | (w', Err e) \<Rightarrow> (Err e, r, w')
         | (w', Panic x) \<Rightarrow> (Panic x, r, w')))"

section \<open>Lemmas: the interface \<open>packetCipher\<close>\<close>

fun cipherSync :: "packetCipher \<Rightarrow> packetCipher \<Rightarrow> bool" where
  "cipherSync (StreamC a) (StreamC b) = streamSync a b"
| "cipherSync (GcmC a) (GcmC b) = gcmSync a b"
| "cipherSync (CbcC a) (CbcC b) = cbcSync a b"
| "cipherSync _ _ = False"

interpretation anyc: packet_cipher cipher_writePacket cipher_readPacket cipherSync 19
proof
  fix ws rs :: packetCipher and packet rand :: bytes and w :: writer and seqNum :: u32
  assume a: "cipherSync ws rs" and b: "packet \<noteq> []" "length packet + 1 + 19 \<le> maxPacket" "w_room w = None" "19 \<le> length rand"
  show "\<exists>out ws' rs' n. cipher_writePacket seqNum packet ws rand w =
      (ws', drop n rand, w\<lparr>w_out := w_out w @ out\<rparr>, Ok ()) \<and> n \<le> 19 \<and> cipherSync ws' rs' \<and>
      (\<forall>rest. cipher_readPacket seqNum rs (out @ rest) = (Ok packet, rs', rest))"
    using a
  proof (cases "(ws, rs)" rule: cipherSync.cases)
    case (1 x y)
    with a have "streamSync x y" by simp
    from streamc.carries [OF this b, of seqNum] obtain out x' y' n where
      "stream_writePacket seqNum packet x rand w = (x', drop n rand, w\<lparr>w_out := w_out w @ out\<rparr>, Ok ())" "n \<le> 19"
      "streamSync x' y'" "\<forall>rest. stream_readPacket seqNum y (out @ rest) = (Ok packet, y', rest)" by blast
    with 1 show ?thesis
      by (intro exI [of _ out] exI [of _ "StreamC x'"] exI [of _ "StreamC y'"] exI [of _ n]) simp
  next
    case (2 x y)
    with a have "gcmSync x y" by simp
    from gcmc.carries [OF this b, of seqNum] obtain out x' y' n where
      "gcm_writePacket seqNum packet x rand w = (x', drop n rand, w\<lparr>w_out := w_out w @ out\<rparr>, Ok ())" "n \<le> 19"
      "gcmSync x' y'" "\<forall>rest. gcm_readPacket seqNum y (out @ rest) = (Ok packet, y', rest)" by blast
    with 2 show ?thesis
      by (intro exI [of _ out] exI [of _ "GcmC x'"] exI [of _ "GcmC y'"] exI [of _ n]) simp
  next
    case (3 x y)
    with a have "cbcSync x y" by simp
    from cbcc.carries [OF this b, of seqNum] obtain out x' y' n where
      "cbc_writePacket seqNum packet x rand w = (x', drop n rand, w\<lparr>w_out := w_out w @ out\<rparr>, Ok ())" "n \<le> 19"
      "cbcSync x' y'" "\<forall>rest. cbc_readPacket seqNum y (out @ rest) = (Ok packet, y', rest)" by blast
    with 3 show ?thesis
      by (intro exI [of _ out] exI [of _ "CbcC x'"] exI [of _ "CbcC y'"] exI [of _ n]) simp
  qed auto
qed

section \<open>Lemmas: connection states\<close>

text \<open>The writer's state at one end and the reader's at the other are in step.\<close>

definition csSync :: "connectionState \<Rightarrow> connectionState \<Rightarrow> bool" where
  "csSync ws rs \<longleftrightarrow> cs_seqNum ws = cs_seqNum rs \<and> cipherSync (cs_cipher ws) (cs_cipher rs) \<and>
     rel_option cipherSync (pendingKeyChange ws) (pendingKeyChange rs)"

definition sendable :: "bool \<Rightarrow> bytes \<Rightarrow> bool" where
  "sendable pending p \<longleftrightarrow> p \<noteq> [] \<and> length p + 20 \<le> maxPacket \<and> hd p \<noteq> msgDisconnect \<and> (hd p = msgNewKeys \<longrightarrow> pending)"

lemma cs_carries:
  assumes s: "csSync ws rs" and p: "sendable (pendingKeyChange ws \<noteq> None) p" and w: "w_room w = None" "19 \<le> length rand"
  shows "\<exists>out ws' rs' n. cs_writePacket p ws rand w = (ws', drop n rand, w\<lparr>w_out := w_out w @ out\<rparr>, Ok ()) \<and> n \<le> 19 \<and>
    csSync ws' rs' \<and> pendingKeyChange ws' = (if hd p = msgNewKeys then None else pendingKeyChange ws) \<and>
    (\<forall>rest. cs_readPacket rs (out @ rest) = (Ok p, rs', rest))"
proof -
  obtain b q where bq: "p = b # q" using p by (cases p) (auto simp: sendable_def)
  have l: "length p + 1 + 19 \<le> maxPacket" "p \<noteq> []" "b \<noteq> msgDisconnect" using p bq by (auto simp: sendable_def)
  have c: "cipherSync (cs_cipher ws) (cs_cipher rs)" "cs_seqNum rs = cs_seqNum ws" using s by (auto simp: csSync_def)
  from anyc.carries [OF c(1) l(2,1) w, of "cs_seqNum ws"] obtain out c1 c2 n where 1:
    "cipher_writePacket (cs_seqNum ws) p (cs_cipher ws) rand w = (c1, drop n rand, w\<lparr>w_out := w_out w @ out\<rparr>, Ok ())"
    "n \<le> 19" "cipherSync c1 c2" "\<forall>rest. cipher_readPacket (cs_seqNum ws) (cs_cipher rs) (out @ rest) = (Ok p, c2, rest)" by blast
  let ?w = "ws\<lparr>cs_cipher := c1, cs_seqNum := cs_seqNum ws + 1\<rparr>" and ?r = "rs\<lparr>cs_cipher := c2, cs_seqNum := cs_seqNum ws + 1\<rparr>"
  show ?thesis
  proof (cases "b = msgNewKeys")
    case False
    show ?thesis
      using 1 False s c l(3) bq
      by (intro exI [of _ out] exI [of _ ?w] exI [of _ ?r] exI [of _ n])
         (simp add: cs_writePacket_def cs_readPacket_def csSync_def)
  next
    case True
    then obtain x y where xy: "pendingKeyChange ws = Some x" "pendingKeyChange rs = Some y" "cipherSync x y"
      using p bq s by (auto simp: sendable_def csSync_def rel_option_iff split: option.splits)
    show ?thesis
      using 1 True s c l(3) bq xy
      by (intro exI [of _ out] exI [of _ "?w\<lparr>cs_cipher := x, pendingKeyChange := None\<rparr>"]
          exI [of _ "?r\<lparr>cs_cipher := y, pendingKeyChange := None\<rparr>"] exI [of _ n])
         (simp add: cs_writePacket_def cs_readPacket_def csSync_def)
  qed
qed

section \<open>Lemmas: delivery\<close>

primrec writePackets :: "bytes list \<Rightarrow> transport \<Rightarrow> transport \<times> unit res" where
  "writePackets [] t = (t, Ok ())"
| "writePackets (p # ps) t = (case transport_writePacket p t of (t', Ok _) \<Rightarrow> writePackets ps t' | (t', e) \<Rightarrow> (t', e))"

primrec readPackets :: "nat \<Rightarrow> transport \<Rightarrow> bytes list option" where
  "readPackets 0 t = Some []"
| "readPackets (Suc k) t =
     (case transport_readPacket t of
        Some (Ok p, t') \<Rightarrow> map_option ((#) p) (readPackets k t')
      | _ \<Rightarrow> None)"

fun sendableRun :: "bool \<Rightarrow> bytes list \<Rightarrow> bool" where
  "sendableRun pending [] = True"
| "sendableRun pending (p # ps) = (sendable pending p \<and> sendableRun (pending \<and> hd p \<noteq> msgNewKeys) ps)"

definition visible :: "bytes \<Rightarrow> bool" where
  "visible p \<longleftrightarrow> hd p \<noteq> msgIgnore \<and> hd p \<noteq> msgDebug"

lemma transport_read_step:
  assumes "cs_readPacket (tr_reader b) (bufReader b) = (Ok p, s, r)" "p \<noteq> []"
  shows "transport_readPacket b =
    (if visible p then Some (Ok p, b\<lparr>tr_reader := s, bufReader := r\<rparr>) else transport_readPacket (b\<lparr>tr_reader := s, bufReader := r\<rparr>))"
  using assms by (subst transport_readPacket.simps) (cases p, auto simp: visible_def Let_def)

lemma readPackets_skip:
  assumes "cs_readPacket (tr_reader b) (bufReader b) = (Ok p, s, r)" "p \<noteq> []" "\<not> visible p"
    "readPackets k (b\<lparr>tr_reader := s, bufReader := r\<rparr>) = Some ps"
  shows "readPackets k b = Some ps"
  using assms by (cases k) (simp_all add: transport_read_step)

lemma deliver_run:
  "csSync (tr_writer a) (tr_reader b) \<Longrightarrow> sendableRun (pendingKeyChange (tr_writer a) \<noteq> None) ps \<Longrightarrow>
   w_room (bufWriter a) = None \<Longrightarrow> 19 * length ps \<le> length (tr_rand a) \<Longrightarrow>
   \<exists>a' out. writePackets ps a = (a', Ok ()) \<and> w_out (bufWriter a') = w_out (bufWriter a) @ out \<and>
     (\<forall>rest. readPackets (length (filter visible ps)) (b\<lparr>bufReader := out @ rest\<rparr>) = Some (filter visible ps))"
proof (induction ps arbitrary: a b)
  case Nil
  then show ?case by simp
next
  case (Cons p ps)
  have p: "sendable (pendingKeyChange (tr_writer a) \<noteq> None) p" "p \<noteq> []" using Cons.prems(2) by (auto simp: sendable_def)
  have "19 \<le> length (tr_rand a)" using Cons.prems(4) by simp
  from cs_carries [OF Cons.prems(1) p(1) Cons.prems(3) this] obtain out ws rs n where 1:
    "cs_writePacket p (tr_writer a) (tr_rand a) (bufWriter a) =
       (ws, drop n (tr_rand a), bufWriter a\<lparr>w_out := w_out (bufWriter a) @ out\<rparr>, Ok ())"
    "n \<le> 19" "csSync ws rs" "pendingKeyChange ws = (if hd p = msgNewKeys then None else pendingKeyChange (tr_writer a))"
    "\<forall>rest. cs_readPacket (tr_reader b) (out @ rest) = (Ok p, rs, rest)" by blast
  define a1 where "a1 = a\<lparr>tr_writer := ws, tr_rand := drop n (tr_rand a), bufWriter := bufWriter a\<lparr>w_out := w_out (bufWriter a) @ out\<rparr>\<rparr>"
  have "csSync (tr_writer a1) (tr_reader (b\<lparr>tr_reader := rs\<rparr>))" "w_room (bufWriter a1) = None"
    "sendableRun (pendingKeyChange (tr_writer a1) \<noteq> None) ps" "19 * length ps \<le> length (tr_rand a1)"
    using 1(2,3,4) Cons.prems by (auto simp: a1_def split: if_splits)
  from Cons.IH [OF this(1,3,2,4)] obtain a' out2 where 2: "writePackets ps a1 = (a', Ok ())"
    "w_out (bufWriter a') = w_out (bufWriter a1) @ out2"
    "\<forall>rest. readPackets (length (filter visible ps)) (b\<lparr>tr_reader := rs, bufReader := out2 @ rest\<rparr>) = Some (filter visible ps)"
    by auto
  have w: "writePackets (p # ps) a = (a', Ok ())"
    using 1(1) 2(1) by (simp add: transport_writePacket_def a1_def)
  have r: "readPackets (length (filter visible (p # ps))) (b\<lparr>bufReader := (out @ out2) @ rest\<rparr>) = Some (filter visible (p # ps))" for rest
  proof -
    let ?b = "b\<lparr>bufReader := out @ out2 @ rest\<rparr>"
    have rd: "cs_readPacket (tr_reader ?b) (bufReader ?b) = (Ok p, rs, out2 @ rest)" using 1(5) by simp
    show ?thesis
      using transport_read_step [OF rd p(2)] readPackets_skip [OF rd p(2)] 2(3) by (cases "visible p") simp_all
  qed
  from w r 2(2) show ?case
    by (intro exI [of _ a'] exI [of _ "out @ out2"]) (simp add: a1_def)
qed

section \<open>Lemmas: the read loop returns\<close>

fun cipher_wf :: "packetCipher \<Rightarrow> bool" where
  "cipher_wf (CbcC c) \<longleftrightarrow> 0 < bc_size (cbc_block c)"
| "cipher_wf _ \<longleftrightarrow> True"

definition cs_wf :: "connectionState \<Rightarrow> bool" where
  "cs_wf s \<longleftrightarrow> cipher_wf (cs_cipher s) \<and> pred_option cipher_wf (pendingKeyChange s)"

lemma firstBlockLength_pos: "0 < bs \<Longrightarrow> 0 < firstBlockLength bs"
  by (simp add: firstBlockLength_def div_greater_zero_iff)

lemma readFull_shrinks: "length (snd (readFull n r)) \<le> length r - n"
  by (simp add: readFull_def)

lemma readFull_rest: "readFull n r = (x, r') \<Longrightarrow> length r' \<le> length r - n"
  using readFull_shrinks [of n r] by simp

lemma stream_read_shrinks: "stream_readPacket n c r = (Ok p, c', r') \<Longrightarrow> length r' < length r"
  by (auto simp: stream_readPacket_def Let_def dest!: readFull_OkD split: prod.splits res.splits if_splits option.splits)

lemma gcm_read_shrinks: "gcm_readPacket n c r = (Ok p, c', r') \<Longrightarrow> length r' < length r"
  by (auto simp: gcm_readPacket_def Let_def dest!: readFull_OkD split: prod.splits res.splits if_splits option.splits)

lemma cbc_rest_shrinks:
  "cbc_readRest n c f r = (p, c', r') \<Longrightarrow> length r' \<le> length r \<and> cbc_block c' = cbc_block c"
  by (auto simp: cbc_readRest_def Let_def dest!: readFull_rest split: prod.splits res.splits if_splits option.splits)

lemma cbc_leaky_shrinks:
  assumes "readPacketLeaky n c r = (Ok p, c', r')" "0 < bc_size (cbc_block c)"
  shows "length r' < length r \<and> cbc_block c' = cbc_block c"
proof -
  obtain b r1 where b: "readFull (firstBlockLength (bc_size (cbc_block c))) r = (Ok b, r1)"
    using assms(1) by (auto simp: readPacketLeaky_def Let_def split: prod.splits res.splits)
  then have "length r1 < length r" using readFull_OkD [OF b] firstBlockLength_pos [OF assms(2)] by auto
  then show ?thesis
    using assms(1) b
    by (auto simp: readPacketLeaky_def Let_def dest!: cbc_rest_shrinks split: prod.splits res.splits option.splits)
qed

lemma cipher_read_shrinks:
  assumes "cipher_readPacket n c r = (Ok p, c', r')" "cipher_wf c"
  shows "length r' < length r \<and> cipher_wf c'"
proof (cases c)
  case (StreamC s)
  then show ?thesis using assms by (cases "stream_readPacket n s r") (auto dest!: stream_read_shrinks)
next
  case (GcmC s)
  then show ?thesis using assms by (cases "gcm_readPacket n s r") (auto dest!: gcm_read_shrinks)
next
  case (CbcC s)
  obtain q s' r1 where q: "readPacketLeaky n s r = (q, s', r1)" by (cases "readPacketLeaky n s r")
  then show ?thesis
    using assms CbcC cbc_leaky_shrinks [of n s r p s' r1]
    by (auto simp: cbc_readPacket_def split: res.splits gerror.splits)
qed

lemma cs_read_shrinks:
  assumes "cs_readPacket s r = (Ok p, s', r')" "cs_wf s"
  shows "length r' < length r \<and> cs_wf s' \<and> p \<noteq> []"
proof -
  obtain q c r1 where q: "cipher_readPacket (cs_seqNum s) (cs_cipher s) r = (q, c, r1)"
    by (cases "cipher_readPacket (cs_seqNum s) (cs_cipher s) r")
  then obtain d where "q = Ok d" using assms(1) by (cases q) (auto simp: cs_readPacket_def Let_def)
  then show ?thesis
    using q assms cipher_read_shrinks [of "cs_seqNum s" "cs_cipher s" r d c r1]
    by (auto simp: cs_readPacket_def cs_wf_def Let_def wrongKind_def
        split: list.splits if_splits option.splits res.splits message.splits)
qed

lemma transport_read_returns: "cs_wf (tr_reader t) \<Longrightarrow> transport_readPacket t \<noteq> None"
proof (induction "length (bufReader t)" arbitrary: t rule: less_induct)
  case less
  obtain q s r where q: "cs_readPacket (tr_reader t) (bufReader t) = (q, s, r)"
    by (cases "cs_readPacket (tr_reader t) (bufReader t)")
  show ?case
  proof (cases "\<exists>p. q = Ok p")
    case True
    then obtain p where p: "q = Ok p" ..
    note sh = cs_read_shrinks [OF q [unfolded p] less.prems]
    have "transport_readPacket (t\<lparr>tr_reader := s, bufReader := r\<rparr>) \<noteq> None"
      by (rule less.hyps) (use sh in simp_all)
    then show ?thesis using transport_read_step [OF q [unfolded p]] sh by simp
  next
    case False
    then show ?thesis using q by (subst transport_readPacket.simps) (cases q, simp_all add: Let_def)
  qed
qed

section \<open>Lemmas: key material\<close>

text \<open>
  The blocks \<open>K1 || K2 || ...\<close> of RFC 4253, section 7.2: the first is the hash of \<open>K\<close>,
  \<open>H\<close>, the tag and the session identifier, each further one of \<open>K\<close>, \<open>H\<close> and all
  blocks before it.
\<close>

primrec rfcBlocks :: "(bytes \<Rightarrow> bytes) \<Rightarrow> bytes \<Rightarrow> kexResult \<Rightarrow> nat \<Rightarrow> bytes" where
  "rfcBlocks h tag r 0 = []"
| "rfcBlocks h tag r (Suc n) =
     rfcBlocks h tag r n @ h (kr_K r @ kr_H r @ (if n = 0 then tag @ kr_SessionID r else rfcBlocks h tag r n))"

lemma length_rfcBlocks: "\<forall>d. length (h d) = sz \<Longrightarrow> length (rfcBlocks h tag r n) = n * sz"
  by (induction n) simp_all

lemma rfcBlocks_prefix: "\<forall>d. length (h d) = sz \<Longrightarrow> take (j * sz) (rfcBlocks h tag r (j + m)) = rfcBlocks h tag r j"
  by (induction m) (simp_all add: length_rfcBlocks)

lemma keyMaterialLoop_spec:
  assumes h: "\<forall>d. length (h d) = sz" "0 < sz"
  shows "n \<le> m * sz \<Longrightarrow> keyMaterialLoop h tag r n (rfcBlocks h tag r j) = Some (take n (drop (j * sz) (rfcBlocks h tag r (j + m))))"
proof (induction m arbitrary: n j)
  case 0
  then show ?case by (subst keyMaterialLoop.simps) simp
next
  case (Suc m)
  show ?case
  proof (cases "n = 0")
    case True
    then show ?thesis by (subst keyMaterialLoop.simps) simp
  next
    case False
    let ?B = "rfcBlocks h tag r"
    define d where "d = h (kr_K r @ kr_H r @ (if j = 0 then tag @ kr_SessionID r else ?B j))"
    have emp: "?B j = [] \<longleftrightarrow> j = 0" using length_rfcBlocks [OF h(1), of tag r j] h(2) by (auto simp: length_0_conv [symmetric] simp del: length_0_conv)
    have d: "length d = sz" "?B (Suc j) = ?B j @ d" using h(1) by (simp_all add: d_def)
    have step: "keyMaterialLoop h tag r n (?B j) =
      Option.bind (keyMaterialLoop h tag r (n - min n sz) (if n - min n sz > 0 then ?B j @ d else ?B j)) (\<lambda>out. Some (take (min n sz) d @ out))"
      using False by (subst keyMaterialLoop.simps) (simp add: emp d_def [symmetric] d(1) Let_def)
    have full: "drop (j * sz) (?B (Suc j + m)) = d @ drop (Suc j * sz) (?B (Suc j + m))"
    proof -
      have "?B (Suc j + m) = (?B j @ d) @ drop (Suc j * sz) (?B (Suc j + m))"
        using rfcBlocks_prefix [OF h(1), of "Suc j" tag r m] d(2) by (metis append_take_drop_id)
      then have "drop (j * sz) (?B (Suc j + m)) = drop (j * sz) ((?B j @ d) @ drop (Suc j * sz) (?B (Suc j + m)))" by (rule arg_cong)
      then show ?thesis by (simp add: length_rfcBlocks [OF h(1)] d(1))
    qed
    show ?thesis
    proof (cases "n \<le> sz")
      case True
      have "keyMaterialLoop h tag r 0 (?B j) = Some []" by (subst keyMaterialLoop.simps) simp
      with True show ?thesis unfolding step using full d(1) by simp
    next
      case big: False
      have "keyMaterialLoop h tag r (n - sz) (?B (Suc j)) = Some (take (n - sz) (drop (Suc j * sz) (?B (Suc j + m))))"
        by (rule Suc.IH) (use Suc.prems in simp)
      with big show ?thesis unfolding step using full d by simp
    qed
  qed
qed

section \<open>Lemmas: the version exchange\<close>

lemma readVersionLoop_line:
  "10 \<notin> set v \<Longrightarrow> length acc + length v < 255 \<Longrightarrow> readVersionLoop acc (v @ 10 # rest) = (Ok (acc @ v), rest)"
proof (induction v arbitrary: acc)
  case Nil
  then show ?case by (subst readVersionLoop.simps) simp
next
  case (Cons b v)
  then show ?case by (subst readVersionLoop.simps) simp
qed

lemma readVersionLoop_overflow:
  "10 \<notin> set v \<Longrightarrow> length acc + length v = 255 \<Longrightarrow>
   readVersionLoop acc (v @ rest) = (Err (ErrNew ''ssh: overflow reading version string''), rest)"
proof (induction v arbitrary: acc)
  case Nil
  then show ?case by (subst readVersionLoop.simps) simp
next
  case (Cons b v)
  then show ?case by (subst readVersionLoop.simps) simp
qed

section \<open>Lemmas: new keys\<close>

text \<open>What the standard library documents of its primitives.\<close>

definition prims_ok :: "prims \<Rightarrow> bool" where
  "prims_ok P \<longleftrightarrow>
     (\<forall>h d. length (h_sum (newHash P h) d) = h_size (newHash P h) \<and> 0 < h_size (newHash P h)) \<and>
     (\<forall>k. mac_ok (Some (hmacSHA256 P k)) \<and> mac_ok (Some (hmacSHA1 P k)) \<and> 12 \<le> h_size (hmacSHA1 P k)) \<and>
     (\<forall>k a. newGCM P k = Ok a \<longrightarrow> aead_ok a) \<and>
     (\<forall>k b. newAES P k = Ok b \<longrightarrow> block_ok b) \<and> (\<forall>k b. newTripleDES P k = Ok b \<longrightarrow> block_ok b)"

lemma keyMaterial_length:
  assumes "prims_ok P"
  shows "\<exists>k. generateKeyMaterial (newHash P) n tag kx = Some k \<and> length k = n"
proof -
  let ?h = "newHash P (kr_Hash kx)"
  have h: "\<forall>d. length (h_sum ?h d) = h_size ?h" "0 < h_size ?h" using assms by (auto simp: prims_ok_def)
  have "n \<le> n * h_size ?h" using h(2) by simp
  from keyMaterialLoop_spec [OF h this, of tag kx 0] h show ?thesis
    by (simp add: generateKeyMaterial_def length_rfcBlocks)
qed

lemma generateKeys_ok:
  assumes "prims_ok P" "cipherModes (Cipher algs) = Some cm" "macModes (hmacSHA256 P) (hmacSHA1 P) (MAC algs) = Some mm"
  shows "\<exists>iv key mk. generateKeys P d algs kx = Some (Ok (iv, key, mk)) \<and> length iv = ivSize cm \<and> length key = keySize cm"
proof -
  obtain iv key mk where "generateKeyMaterial (newHash P) (ivSize cm) (ivTag d) kx = Some iv" "length iv = ivSize cm"
    "generateKeyMaterial (newHash P) (keySize cm) (keyTag d) kx = Some key" "length key = keySize cm"
    "generateKeyMaterial (newHash P) (mm_keySize mm) (macKeyTag d) kx = Some mk"
    using keyMaterial_length [OF assms(1)] by metis
  then show ?thesis using assms by (simp add: generateKeys_def)
qed

lemma newPacketCipher_returns: "prims_ok P \<Longrightarrow> newPacketCipher P d algs kx \<noteq> None"
  using generateKeys_ok [of P algs _ _ d kx]
  by (cases "cipherModes (Cipher algs)"; cases "macModes (hmacSHA256 P) (hmacSHA1 P) (MAC algs)")
     (force simp: newPacketCipher_def generateKeys_def)+

lemma macModes_ok: "prims_ok P \<Longrightarrow> macModes (hmacSHA256 P) (hmacSHA1 P) n = Some m \<Longrightarrow> mac_ok (Some (mm_new m k))"
  by (auto simp: macModes_def prims_ok_def mac_ok_truncating split: if_splits)

lemma newPacketCipher_sync:
  assumes P: "prims_ok P" and n: "newPacketCipher P d algs kx = Some (Ok c)"
  shows "cipherSync c c"
proof -
  let ?modes = "macModes (hmacSHA256 P) (hmacSHA1 P)"
  obtain iv key mk where k: "generateKeys P d algs kx = Some (Ok (iv, key, mk))" "cipherFromKeys P algs iv key mk = Ok c"
    using n by (auto simp: newPacketCipher_def res_simps split: option.splits)
  obtain cm mm where m: "cipherModes (Cipher algs) = Some cm" "?modes (MAC algs) = Some mm"
    using k(1) by (auto simp: generateKeys_def split: option.splits)
  have iv: "length iv = ivSize cm" using generateKeys_ok [OF P m, of d kx] k(1) by auto
  have gcm: "cipherSync (GcmC x) (GcmC x)" if "newGCMCipher (newGCM P) iv key = Ok x" "Cipher algs = gcmCipherID" for x
    using that iv m P by (auto simp: newGCMCipher_def res_simps gcmSync_def prims_ok_def cipherModes_def)
  have cbc: "cipherSync (CbcC x) (CbcC x)"
    if "newBlockCBCCipher f ?modes iv key mk (MAC algs) = Ok x" "\<And>k b. f k = Ok b \<Longrightarrow> block_ok b" for f x
    using that macModes_ok [OF P]
    by (auto simp: newBlockCBCCipher_def newCBCCipher_def res_simps cbcSync_def split: option.splits if_splits)
  show ?thesis
    using k(2) gcm cbc m macModes_ok [OF P m(2)] P
    by (auto simp: cipherFromKeys_def Let_def res_simps streamSync_def prims_ok_def split: if_splits)
qed

text \<open>
  Both ends prepare the same ciphers for each direction, when the algorithms of the two directions are the
  same.
\<close>

lemma prepareSide_same:
  assumes "prims_ok P" "prepareSide P p1 st1 algs kx s1 = Some (s1', Ok ())" "prepareSide P p2 st2 algs kx s2 = Some (s2', Ok ())"
    and "cs_dir s1 = cs_dir s2"
  shows "rel_option cipherSync (pendingKeyChange s1') (pendingKeyChange s2') \<and> pendingKeyChange s1' \<noteq> None \<and>
    cs_seqNum s1' = cs_seqNum s1 \<and> cs_cipher s1' = cs_cipher s1 \<and> cs_seqNum s2' = cs_seqNum s2 \<and> cs_cipher s2' = cs_cipher s2"
  using assms newPacketCipher_sync [OF assms(1)]
  by (auto simp: prepareSide_def split: option.splits res.splits if_splits)

text \<open>The cipher that is pending after one side was prepared, whatever the algorithms.\<close>

lemma prepareSide_pending:
  "prepareSide P p st algs kx s = Some (s', Ok ()) \<Longrightarrow>
   \<exists>k. newPacketCipher P (cs_dir s) algs kx = Some (Ok k) \<and> pendingKeyChange s' = Some k"
  by (auto simp: prepareSide_def split: option.splits res.splits if_splits)

lemma prepareKeyChange_pending:
  assumes "prepareKeyChange P p1 p2 st algs kx t = Some (t', Ok ())"
  shows "newPacketCipher P (cs_dir (tr_reader t)) (alg_r algs) kx = Some (Ok (the (pendingKeyChange (tr_reader t')))) \<and>
    newPacketCipher P (cs_dir (tr_writer t)) (alg_w algs) kx = Some (Ok (the (pendingKeyChange (tr_writer t')))) \<and>
    pendingKeyChange (tr_reader t') \<noteq> None \<and> pendingKeyChange (tr_writer t') \<noteq> None"
  using assms by (auto simp: prepareKeyChange_def split: option.splits prod.splits res.splits dest!: prepareSide_pending)

definition linked :: "transport \<Rightarrow> transport \<Rightarrow> bool" where
  "linked c s \<longleftrightarrow> csSync (tr_writer c) (tr_reader s) \<and> csSync (tr_writer s) (tr_reader c) \<and>
     cs_dir (tr_writer c) = clientKeys \<and> cs_dir (tr_reader c) = serverKeys \<and>
     cs_dir (tr_writer s) = serverKeys \<and> cs_dir (tr_reader s) = clientKeys"

lemma linked_new: "linked (newTransport r1 w1 rand1 True) (newTransport r2 w2 rand2 False)"
  by (simp add: linked_def newTransport_def Let_def csSync_def streamSync_def mac_ok_def)

lemma prepareSide_fields: "prepareSide P p st algs kx s = Some (s', r) \<Longrightarrow> cs_dir s' = cs_dir s"
  by (auto simp: prepareSide_def split: option.splits res.splits if_splits)

lemma prepare_linked:
  assumes P: "prims_ok P" and l: "linked c s" and w: "alg_w algs = alg_r algs"
    and c: "prepareKeyChange P p1 p2 st algs kx c = Some (c', Ok ())"
    and s: "prepareKeyChange P p3 p4 st' algs kx s = Some (s', Ok ())"
  shows "linked c' s' \<and> pendingKeyChange (tr_writer c') \<noteq> None \<and> pendingKeyChange (tr_writer s') \<noteq> None"
proof -
  obtain cr cw where 1: "prepareSide P p1 st (alg_r algs) kx (tr_reader c) = Some (cr, Ok ())"
    "prepareSide P p2 st (alg_w algs) kx (tr_writer c) = Some (cw, Ok ())" "c' = c\<lparr>tr_reader := cr, tr_writer := cw\<rparr>"
    using c by (auto simp: prepareKeyChange_def split: option.splits prod.splits res.splits)
  obtain sr sw where 2: "prepareSide P p3 st' (alg_r algs) kx (tr_reader s) = Some (sr, Ok ())"
    "prepareSide P p4 st' (alg_w algs) kx (tr_writer s) = Some (sw, Ok ())" "s' = s\<lparr>tr_reader := sr, tr_writer := sw\<rparr>"
    using s by (auto simp: prepareKeyChange_def split: option.splits prod.splits res.splits)
  note d = prepareSide_fields [OF 1(1)] prepareSide_fields [OF 1(2)] prepareSide_fields [OF 2(1)] prepareSide_fields [OF 2(2)]
  have "rel_option cipherSync (pendingKeyChange cw) (pendingKeyChange sr) \<and> pendingKeyChange cw \<noteq> None \<and>
    cs_seqNum cw = cs_seqNum (tr_writer c) \<and> cs_cipher cw = cs_cipher (tr_writer c) \<and>
    cs_seqNum sr = cs_seqNum (tr_reader s) \<and> cs_cipher sr = cs_cipher (tr_reader s)"
    by (rule prepareSide_same [OF P 1(2) 2(1) [folded w]]) (use l in \<open>simp add: linked_def\<close>)
  moreover have "rel_option cipherSync (pendingKeyChange sw) (pendingKeyChange cr) \<and> pendingKeyChange sw \<noteq> None \<and>
    cs_seqNum sw = cs_seqNum (tr_writer s) \<and> cs_cipher sw = cs_cipher (tr_writer s) \<and>
    cs_seqNum cr = cs_seqNum (tr_reader c) \<and> cs_cipher cr = cs_cipher (tr_reader c)"
    by (rule prepareSide_same [OF P 2(2) 1(1) [folded w]]) (use l in \<open>simp add: linked_def\<close>)
  ultimately show ?thesis using l d 1(3) 2(3) by (simp add: linked_def csSync_def)
qed

text \<open>
  What one end writes reaches the other end: the writes succeed, and the reader gets the packets in order,
  without the \<open>msgIgnore\<close> and \<open>msgDebug\<close> packets that \<open>readPacket\<close> skips.
\<close>

definition delivers :: "bytes list \<Rightarrow> transport \<Rightarrow> transport \<Rightarrow> bool" where
  "delivers ps a b \<longleftrightarrow> (\<exists>a' out. writePackets ps a = (a', Ok ()) \<and> w_out (bufWriter a') = w_out (bufWriter a) @ out \<and>
     (\<forall>rest. readPackets (length (filter visible ps)) (b\<lparr>bufReader := out @ rest\<rparr>) = Some (filter visible ps)))"

section \<open>Concrete primitives\<close>

definition constHash :: "nat \<Rightarrow> hashFn" where
  "constHash n = \<lparr>h_sum = (\<lambda>d. replicate n (foldl (+) 7 d)), h_size = n\<rparr>"

definition toyPrims :: prims where
  "toyPrims = \<lparr>newHash = (\<lambda>h. constHash 20), hmacSHA256 = (\<lambda>k. constHash 32), hmacSHA1 = (\<lambda>k. constHash 20),
     newStream = (\<lambda>f key iv. Ok \<lparr>keyStream = (\<lambda>i. word_of_nat i + foldl (+) 0 key), streamPos = 0\<rparr>),
     newGCM = (\<lambda>k. Ok plainAead), newAES = (\<lambda>k. Ok (plainBlock\<lparr>bc_size := 16\<rparr>)), newTripleDES = (\<lambda>k. Ok plainBlock)\<rparr>"

lemma toyPrims_ok [simp]: "prims_ok toyPrims"
  by (auto simp: prims_ok_def toyPrims_def constHash_def mac_ok_def block_ok_def plainBlock_def)

definition toyResult :: kexResult where
  "toyResult = \<lparr>kr_H = [1, 2], kr_K = [3], kr_HostKey = [], kr_Signature = [], kr_Hash = SHA1, kr_SessionID = [1, 2]\<rparr>"

definition toyDirection :: directionAlgorithms where
  "toyDirection = \<lparr>Cipher = ''aes128-ctr'', MAC = ''hmac-sha1'', Compression = ''none''\<rparr>"

definition toyAlgs :: algorithms where
  "toyAlgs = \<lparr>kex = ''curve25519-sha256@libssh.org'', hostKey = ''ssh-rsa'', alg_w = toyDirection, alg_r = toyDirection\<rparr>"

definition gcmDirection :: directionAlgorithms where
  "gcmDirection = \<lparr>Cipher = gcmCipherID, MAC = ''hmac-sha1'', Compression = ''none''\<rparr>"

text \<open>What a negotiation gives when the two directions prefer different ciphers.\<close>

definition mixedAlgs :: algorithms where
  "mixedAlgs = toyAlgs\<lparr>alg_w := gcmDirection\<rparr>"

lemma toy_cipher:
  "\<exists>x. newPacketCipher toyPrims d toyDirection toyResult = Some (Ok (StreamC x))"
  "\<exists>x. newPacketCipher toyPrims d gcmDirection toyResult = Some (Ok (GcmC x))"
proof -
  let ?mm = "\<lparr>mm_keySize = 20, mm_etm = False, mm_new = hmacSHA1 toyPrims\<rparr>"
  have c: "cipherModes (Cipher toyDirection) = Some \<lparr>keySize = 16, ivSize = 16, skip = 0, createFn = NewAESCTR\<rparr>"
    "\<exists>cm. cipherModes (Cipher gcmDirection) = Some cm"
    by (simp_all add: cipherModes_def toyDirection_def gcmDirection_def)
  have m: "macModes (hmacSHA256 toyPrims) (hmacSHA1 toyPrims) (MAC toyDirection) = Some ?mm"
    "macModes (hmacSHA256 toyPrims) (hmacSHA1 toyPrims) (MAC gcmDirection) = Some ?mm"
    by (simp_all add: macModes_def toyDirection_def gcmDirection_def)
  obtain iv key mk where "generateKeys toyPrims d toyDirection toyResult = Some (Ok (iv, key, mk))" "length iv = 16" "length key = 16"
    using generateKeys_ok [OF toyPrims_ok c(1) m(1), of d toyResult] by auto
  then show "\<exists>x. newPacketCipher toyPrims d toyDirection toyResult = Some (Ok (StreamC x))"
    using c(1) m(1)
    by (simp add: newPacketCipher_def cipherFromKeys_def Let_def createStream_def toyDirection_def)
       (simp add: toyPrims_def)
  obtain iv' key' mk' where "generateKeys toyPrims d gcmDirection toyResult = Some (Ok (iv', key', mk'))"
    using c(2) generateKeys_ok [OF toyPrims_ok _ m(2), of _ d toyResult] by blast
  then show "\<exists>x. newPacketCipher toyPrims d gcmDirection toyResult = Some (Ok (GcmC x))"
    by (simp add: newPacketCipher_def cipherFromKeys_def Let_def gcmDirection_def newGCMCipher_def toyPrims_def)
qed

lemma toy_prepare:
  assumes "pendingKeyChange (tr_reader t) = None" "pendingKeyChange (tr_writer t) = None" "algs \<in> {toyAlgs, mixedAlgs}"
  shows "\<exists>t'. prepareKeyChange toyPrims True True False algs toyResult t = Some (t', Ok ()) \<and>
    tr_rand t' = tr_rand t \<and> bufWriter t' = bufWriter t"
  using assms toy_cipher [of "cs_dir (tr_reader t)"] toy_cipher [of "cs_dir (tr_writer t)"]
  by (auto simp: prepareKeyChange_def prepareSide_def toyAlgs_def mixedAlgs_def)

definition toyClient :: transport where
  "toyClient = newTransport [] \<lparr>w_out = [], w_room = None\<rparr> (replicate 100 0) True"

definition toyServer :: transport where
  "toyServer = newTransport [] \<lparr>w_out = [], w_room = None\<rparr> (replicate 100 0) False"

section \<open>Properties\<close>



text \<open>The read loop returns. It skips \<open>msgIgnore\<close> and \<open>msgDebug\<close> packets, and every packet
  consumes input, so \<open>readPacket\<close> ends with a packet or an error on every input.\<close>

theorem transport_readPacket_returns:
  assumes "cs_wf (tr_reader t)"
  shows "\<exists>r t'. transport_readPacket t = Some (r, t')"
  using transport_read_returns [OF assms] by auto

lemma transport_readPacket_returns_witness:
  "\<exists>r t'. transport_readPacket (toyServer\<lparr>bufReader := replicate 64 2\<rparr>) = Some (r, t')"
  by (rule transport_readPacket_returns) (simp add: toyServer_def newTransport_def Let_def cs_wf_def)

text \<open>C33: The key material is that of RFC 4253, section 7.2. For a hash with digests of a fixed positive
  size, \<open>generateKeyMaterial\<close> returns and gives the first \<open>n\<close> bytes of \<open>K1 || K2 || ...\<close>.\<close>

theorem generateKeyMaterial_rfc:
  assumes "\<forall>d. length (h_sum (hs (kr_Hash r)) d) = sz" "0 < sz" "n \<le> m * sz"
  shows "generateKeyMaterial hs n tag r = Some (take n (rfcBlocks (h_sum (hs (kr_Hash r))) tag r m))"
  using keyMaterialLoop_spec [OF assms, of tag r 0] by (simp add: generateKeyMaterial_def)

lemma generateKeyMaterial_rfc_witness:
  "generateKeyMaterial (\<lambda>_. constHash 20) 32 [65] toyResult = Some (take 32 (rfcBlocks (h_sum (constHash 20)) [65] toyResult 2))"
  using generateKeyMaterial_rfc [of "\<lambda>_. constHash 20" toyResult 20 32 2 "[65]"] by (simp add: constHash_def)

text \<open>The version exchange agrees with itself up to the limit of 253 bytes: a line that passes the writer's
  check and leaves room for the line end is read back by the peer without it, together with the rest of
  the input; a longer one is refused by the peer.\<close>

theorem version_line_roundtrip:
  assumes "\<forall>b \<in> set v. 32 \<le> b" "w_room w = None" "exchangeVersions v r w = (x, r', w')"
  shows "w_out w' = w_out w @ v @ [13, 10] \<and>
    (length v \<le> 253 \<longrightarrow> readVersion (v @ [13, 10] @ rest) = (Ok v, rest)) \<and>
    (253 < length v \<longrightarrow> fst (readVersion (v @ [13, 10] @ rest)) = Err (ErrNew ''ssh: overflow reading version string''))"
proof -
  have n: "\<not> (\<exists>c \<in> set v. c < 32)" using assms(1) by (auto simp: not_less)
  then have nl: "10 \<notin> set (v @ [13])" using assms(1) by auto
  have "w_out w' = w_out w @ v @ [13, 10]"
    using assms(2,3) n by (auto simp: exchangeVersions_def w_write_unbounded split: prod.splits)
  moreover have "readVersion (v @ [13, 10] @ rest) = (Ok v, rest)" if "length v \<le> 253"
    using readVersionLoop_line [OF nl, of "[]" rest] that by (simp add: readVersion_def)
  moreover have "fst (readVersion (v @ [13, 10] @ rest)) = Err (ErrNew ''ssh: overflow reading version string'')"
    if "253 < length v"
  proof -
    let ?l = "v @ [13, 10] @ rest"
    have "10 \<notin> set (take 255 ((v @ [13]) @ 10 # rest))"
      using nl that by (auto simp: take_Cons' dest: in_set_takeD)
    moreover have "length (take 255 ?l) = 255" using that by simp
    ultimately have "readVersionLoop [] (take 255 ?l @ drop 255 ?l) =
        (Err (ErrNew ''ssh: overflow reading version string''), drop 255 ?l)"
      by (intro readVersionLoop_overflow) simp_all
    then show ?thesis by (simp only: append_take_drop_id readVersion_def) simp
  qed
  ultimately show ?thesis by blast
qed

lemma version_line_roundtrip_witness:
  "readVersion (bytes_of_string ''SSH-2.0-Go'' @ [13, 10] @ [1]) = (Ok (bytes_of_string ''SSH-2.0-Go''), [1])"
proof -
  have "\<forall>b \<in> set (bytes_of_string ''SSH-2.0-Go''). 32 \<le> b" by code_simp
  moreover obtain x r' w' where
    "exchangeVersions (bytes_of_string ''SSH-2.0-Go'') [] \<lparr>w_out = [], w_room = None\<rparr> = (x, r', w')"
    by (cases "exchangeVersions (bytes_of_string ''SSH-2.0-Go'') [] \<lparr>w_out = [], w_room = None\<rparr>")
  ultimately show ?thesis
    using version_line_roundtrip [of "bytes_of_string ''SSH-2.0-Go''" "\<lparr>w_out = [], w_room = None\<rparr>" "[]" x r' w' "[1]"] by simp
qed

end
