(* ===== verification/Kex.thy ===== *)
theory Kex
  imports Transport
begin

text \<open>
  The key exchanges (\<open>src/kex.go\<close>): Diffie-Hellman over a prime group, over the NIST curves and
  over curve25519, each cut where the code waits for the peer, so that an exchange is the client's start, the
  server and the client's end. A draw of the entropy source, the outcome of \<open>writePacket\<close> and the
  curve arithmetic are parameters. The locale \<open>key_agreement\<close> states what all three promise; the exchange
  hash and the signature format of \<open>src/certs.go\<close> are shown to be unambiguous.
\<close>

section \<open>Signatures and magics\<close>

record Signature =
  sig_Format :: string
  sig_Blob :: bytes

definition signatureStruct :: structType where
  "signatureStruct = \<lparr>sname = ''Signature'', sshtype = [], sfields = [(''Format'', KString), (''Blob'', KBytes)]\<rparr>"

definition parseSignatureBody :: "bytes \<Rightarrow> (Signature \<times> bytes) option" where
  "parseSignatureBody inp =
     (case parseString inp of
        None \<Rightarrow> None
      | Some (format, inp1) \<Rightarrow>
          (case parseString inp1 of
             None \<Rightarrow> None
           | Some (blob, rest) \<Rightarrow> Some (\<lparr>sig_Format = string_of_bytes format, sig_Blob = blob\<rparr>, rest)))"

definition parseSignature :: "bytes \<Rightarrow> (Signature \<times> bytes) option" where
  "parseSignature inp =
     (case parseString inp of
        None \<Rightarrow> None
      | Some (sigBytes, rest) \<Rightarrow>
          (case parseSignatureBody sigBytes of
             None \<Rightarrow> None
           | Some (out, trailing) \<Rightarrow> if length trailing > 0 then None else Some (out, rest)))"

record signer =
  sg_PublicKey :: bytes
  sg_Type :: string
  sg_Sign :: "bytes \<Rightarrow> Signature res"

definition signAndMarshal :: "signer \<Rightarrow> bytes \<Rightarrow> bytes res" where
  "signAndMarshal k data =
     res_bind (sg_Sign k data) (\<lambda>sig. Marshal signatureStruct [VString (sig_Format sig), VBytes (sig_Blob sig)])"

record handshakeMagics =
  clientVersion :: bytes
  serverVersion :: bytes
  clientKexInit :: bytes
  serverKexInit :: bytes

definition magics_write :: "handshakeMagics \<Rightarrow> bytes \<Rightarrow> bytes" where
  "magics_write m w =
     writeString (writeString (writeString (writeString w (clientVersion m)) (serverVersion m)) (clientKexInit m)) (serverKexInit m)"

definition marshalSecret :: "int \<Rightarrow> bytes res" where
  "marshalSecret k = res_bind (marshalInt (replicate (intLength k) 0) k) (\<lambda>(buf, _). Ok buf)"

section \<open>Diffie-Hellman groups\<close>

record dhGroup =
  dh_g :: int
  dh_p :: int
  dh_pMinus1 :: int

definition bigExp :: "int \<Rightarrow> int \<Rightarrow> int \<Rightarrow> int" where
  "bigExp b e m = b ^ nat e mod m"

definition diffieHellman :: "dhGroup \<Rightarrow> int \<Rightarrow> int \<Rightarrow> int res" where
  "diffieHellman grp theirPublic myPrivate =
     (if theirPublic \<le> 1 \<or> theirPublic \<ge> dh_pMinus1 grp then Err (ErrNew ''ssh: DH parameter out of bounds'')
      else Ok (bigExp theirPublic myPrivate (dh_p grp)))"

text \<open>The loop over \<open>rand.Int\<close>, on the values it draws; the source fails when they run out.\<close>

primrec randPositive :: "int list \<Rightarrow> int res" where
  "randPositive [] = Err IoEOF"
| "randPositive (x # xs) = (if x > 0 then Ok x else randPositive xs)"

definition sendOutcome :: "gerror option \<Rightarrow> unit res" where
  "sendOutcome e = (case e of None \<Rightarrow> Ok () | Some e \<Rightarrow> Err e)"

definition dhTranscript :: "handshakeMagics \<Rightarrow> bytes \<Rightarrow> int \<Rightarrow> int \<Rightarrow> bytes \<Rightarrow> bytes res" where
  "dhTranscript m hostKeyBytes X Y K =
     res_bind (writeInt (writeString (magics_write m []) hostKeyBytes) X) (\<lambda>h1.
     res_bind (writeInt h1 Y) (\<lambda>h2. Ok (h2 @ K)))"

definition dh_ClientStart :: "dhGroup \<Rightarrow> int list \<times> gerror option \<Rightarrow> ((int \<times> int) \<times> bytes) res" where
  "dh_ClientStart grp rc =
     res_bind (randPositive (fst rc)) (\<lambda>x.
     let X = bigExp (dh_g grp) x (dh_p grp) in
     res_bind (MarshalMsg (KexDHInitMsg X)) (\<lambda>packet.
     res_bind (sendOutcome (snd rc)) (\<lambda>_. Ok ((x, X), packet))))"

definition dh_ClientFinish ::
    "(cryptoHash \<Rightarrow> hashFn) \<Rightarrow> dhGroup \<Rightarrow> int \<times> int \<Rightarrow> handshakeMagics \<Rightarrow> bytes \<Rightarrow> kexResult res" where
  "dh_ClientFinish hs grp st m packet =
     (case st of (x, X) \<Rightarrow>
      res_bind (UnmarshalMsg T_kexDHReplyMsg packet) (\<lambda>msg.
        case msg of
          KexDHReplyMsg hostKey' Y signature \<Rightarrow>
            res_bind (diffieHellman grp Y x) (\<lambda>kInt.
            res_bind (marshalSecret kInt) (\<lambda>K.
            res_bind (dhTranscript m hostKey' X Y K) (\<lambda>t.
              Ok \<lparr>kr_H = h_sum (hs SHA1) t, kr_K = K, kr_HostKey = hostKey', kr_Signature = signature,
                  kr_Hash = SHA1, kr_SessionID = []\<rparr>)))
        | _ \<Rightarrow> wrongKind))"

text \<open>The error of the server's \<open>writePacket\<close> is assigned and then not returned.\<close>

definition dh_Server ::
    "(cryptoHash \<Rightarrow> hashFn) \<Rightarrow> dhGroup \<Rightarrow> int list \<times> gerror option \<Rightarrow> handshakeMagics \<Rightarrow> signer \<Rightarrow> bytes \<Rightarrow> (bytes \<times> kexResult) res" where
  "dh_Server hs grp rs m priv packet =
     res_bind (UnmarshalMsg T_kexDHInitMsg packet) (\<lambda>msg.
       case msg of
         KexDHInitMsg X \<Rightarrow>
           res_bind (randPositive (fst rs)) (\<lambda>y.
           let Y = bigExp (dh_g grp) y (dh_p grp) in
           res_bind (diffieHellman grp X y) (\<lambda>kInt.
           let hostKeyBytes = sg_PublicKey priv in
           res_bind (marshalSecret kInt) (\<lambda>K.
           res_bind (dhTranscript m hostKeyBytes X Y K) (\<lambda>t.
           let H = h_sum (hs SHA1) t in
           res_bind (signAndMarshal priv H) (\<lambda>sig.
           res_bind (MarshalMsg (KexDHReplyMsg hostKeyBytes Y sig)) (\<lambda>reply.
             Ok (reply, \<lparr>kr_H = H, kr_K = K, kr_HostKey = hostKeyBytes, kr_Signature = sig,
                         kr_Hash = SHA1, kr_SessionID = []\<rparr>)))))))
       | _ \<Rightarrow> wrongKind)"

section \<open>Elliptic curves\<close>

record curve =
  cv_P :: int
  cv_BitSize :: nat
  cv_IsOnCurve :: "int \<Rightarrow> int \<Rightarrow> bool"
  cv_ScalarMult :: "int \<Rightarrow> int \<Rightarrow> bytes \<Rightarrow> int \<times> int"
  cv_Marshal :: "int \<Rightarrow> int \<Rightarrow> bytes"
  cv_Unmarshal :: "bytes \<Rightarrow> (int \<times> int) option"

definition ecHash :: "curve \<Rightarrow> cryptoHash" where
  "ecHash c = (if cv_BitSize c \<le> 256 then SHA256 else if cv_BitSize c \<le> 384 then SHA384 else SHA512)"

definition validateECPublicKey :: "curve \<Rightarrow> int \<Rightarrow> int \<Rightarrow> bool" where
  "validateECPublicKey c x y =
     (if x = 0 \<and> y = 0 then False
      else if x \<ge> cv_P c then False
      else if y \<ge> cv_P c then False
      else if \<not> cv_IsOnCurve c x y then False
      else True)"

definition unmarshalECKey :: "curve \<Rightarrow> bytes \<Rightarrow> (int \<times> int) res" where
  "unmarshalECKey c pubkey =
     (case cv_Unmarshal c pubkey of
        None \<Rightarrow> Err (ErrNew ''ssh: elliptic.Unmarshal failure'')
      | Some (x, y) \<Rightarrow>
          if \<not> validateECPublicKey c x y then Err (ErrNew ''ssh: public key not on curve'') else Ok (x, y))"

text \<open>A generated key: the private scalar \<open>D\<close> and the point.\<close>

type_synonym ecKey = "int \<times> int \<times> int"

definition ecTranscript :: "handshakeMagics \<Rightarrow> bytes \<Rightarrow> bytes \<Rightarrow> bytes \<Rightarrow> bytes \<Rightarrow> bytes" where
  "ecTranscript m hostKey' clientPub serverPub K =
     writeString (writeString (writeString (magics_write m []) hostKey') clientPub) serverPub @ K"

definition ecSecret :: "curve \<Rightarrow> int \<times> int \<Rightarrow> ecKey \<Rightarrow> int" where
  "ecSecret c pub key = fst (cv_ScalarMult c (fst pub) (snd pub) (natBytes (nat (fst key))))"

definition ecdh_ClientStart :: "curve \<Rightarrow> ecKey res \<times> gerror option \<Rightarrow> ((ecKey \<times> bytes) \<times> bytes) res" where
  "ecdh_ClientStart c rc =
     res_bind (fst rc) (\<lambda>(d, x, y).
     let pub = cv_Marshal c x y in
     res_bind (MarshalMsg (KexECDHInitMsg pub)) (\<lambda>serialized.
     res_bind (sendOutcome (snd rc)) (\<lambda>_. Ok (((d, x, y), pub), serialized))))"

definition ecdh_ClientFinish ::
    "(cryptoHash \<Rightarrow> hashFn) \<Rightarrow> curve \<Rightarrow> ecKey \<times> bytes \<Rightarrow> handshakeMagics \<Rightarrow> bytes \<Rightarrow> kexResult res" where
  "ecdh_ClientFinish hs c st m packet =
     res_bind (UnmarshalMsg T_kexECDHReplyMsg packet) (\<lambda>msg.
       case msg of
         KexECDHReplyMsg hostKey' ephemeral signature \<Rightarrow>
           res_bind (unmarshalECKey c ephemeral) (\<lambda>pub.
           res_bind (marshalSecret (ecSecret c pub (fst st))) (\<lambda>K.
             Ok \<lparr>kr_H = h_sum (hs (ecHash c)) (ecTranscript m hostKey' (snd st) ephemeral K), kr_K = K,
                 kr_HostKey = hostKey', kr_Signature = signature, kr_Hash = ecHash c, kr_SessionID = []\<rparr>))
       | _ \<Rightarrow> wrongKind)"

definition ecdh_Server ::
    "(cryptoHash \<Rightarrow> hashFn) \<Rightarrow> curve \<Rightarrow> ecKey res \<times> gerror option \<Rightarrow> handshakeMagics \<Rightarrow> signer \<Rightarrow> bytes \<Rightarrow> (bytes \<times> kexResult) res" where
  "ecdh_Server hs c rs m priv packet =
     res_bind (UnmarshalMsg T_kexECDHInitMsg packet) (\<lambda>msg.
       case msg of
         KexECDHInitMsg clientPub \<Rightarrow>
           res_bind (unmarshalECKey c clientPub) (\<lambda>pub.
           res_bind (fst rs) (\<lambda>(d, x, y).
           let hostKeyBytes = sg_PublicKey priv; ephemeral = cv_Marshal c x y in
           res_bind (marshalSecret (ecSecret c pub (d, x, y))) (\<lambda>K.
           let H = h_sum (hs (ecHash c)) (ecTranscript m hostKeyBytes clientPub ephemeral K) in
           res_bind (signAndMarshal priv H) (\<lambda>sig.
           res_bind (MarshalMsg (KexECDHReplyMsg hostKeyBytes ephemeral sig)) (\<lambda>reply.
           res_bind (sendOutcome (snd rs)) (\<lambda>_.
             Ok (reply, \<lparr>kr_H = H, kr_K = K, kr_HostKey = hostKeyBytes, kr_Signature = sig,
                         kr_Hash = ecHash c, kr_SessionID = []\<rparr>)))))))
       | _ \<Rightarrow> wrongKind)"

section \<open>Curve25519\<close>

record c25519 =
  x_ScalarMult :: "bytes \<Rightarrow> bytes \<Rightarrow> bytes"
  x_ScalarBaseMult :: "bytes \<Rightarrow> bytes"

record curve25519KeyPair =
  kp_priv :: bytes
  kp_pub :: bytes

definition kp_generate :: "c25519 \<Rightarrow> bytes \<Rightarrow> curve25519KeyPair res" where
  "kp_generate X rand =
     (case readFull 32 rand of
        (Ok priv, _) \<Rightarrow> Ok \<lparr>kp_priv = priv, kp_pub = x_ScalarBaseMult X priv\<rparr>
      | (Err e, _) \<Rightarrow> Err e
      | (Panic x, _) \<Rightarrow> Panic x)"

definition x25519Secret :: "c25519 \<Rightarrow> bytes \<Rightarrow> bytes \<Rightarrow> bytes res" where
  "x25519Secret X priv pub =
     (if length pub \<noteq> 32 then Err (ErrNew ''ssh: peer's curve25519 public value has wrong length'')
      else
        let secret = x_ScalarMult X priv pub in
        if secret = replicate 32 0 then Err (ErrNew ''ssh: peer's curve25519 public value has wrong order'')
        else Ok secret)"

definition x25519_ClientStart :: "c25519 \<Rightarrow> bytes \<times> gerror option \<Rightarrow> (curve25519KeyPair \<times> bytes) res" where
  "x25519_ClientStart X rc =
     res_bind (kp_generate X (fst rc)) (\<lambda>kp.
     res_bind (MarshalMsg (KexECDHInitMsg (kp_pub kp))) (\<lambda>packet.
     res_bind (sendOutcome (snd rc)) (\<lambda>_. Ok (kp, packet))))"

definition x25519_ClientFinish ::
    "(cryptoHash \<Rightarrow> hashFn) \<Rightarrow> c25519 \<Rightarrow> curve25519KeyPair \<Rightarrow> handshakeMagics \<Rightarrow> bytes \<Rightarrow> kexResult res" where
  "x25519_ClientFinish hs X kp m packet =
     res_bind (UnmarshalMsg T_kexECDHReplyMsg packet) (\<lambda>msg.
       case msg of
         KexECDHReplyMsg hostKey' ephemeral signature \<Rightarrow>
           res_bind (x25519Secret X (kp_priv kp) ephemeral) (\<lambda>secret.
           res_bind (marshalSecret (int (setBytes secret))) (\<lambda>K.
             Ok \<lparr>kr_H = h_sum (hs SHA256) (ecTranscript m hostKey' (kp_pub kp) ephemeral K), kr_K = K,
                 kr_HostKey = hostKey', kr_Signature = signature, kr_Hash = SHA256, kr_SessionID = []\<rparr>))
       | _ \<Rightarrow> wrongKind)"

definition x25519_Server ::
    "(cryptoHash \<Rightarrow> hashFn) \<Rightarrow> c25519 \<Rightarrow> bytes \<times> gerror option \<Rightarrow> handshakeMagics \<Rightarrow> signer \<Rightarrow> bytes \<Rightarrow> (bytes \<times> kexResult) res" where
  "x25519_Server hs X rs m priv packet =
     res_bind (UnmarshalMsg T_kexECDHInitMsg packet) (\<lambda>msg.
       case msg of
         KexECDHInitMsg clientPub \<Rightarrow>
           if length clientPub \<noteq> 32 then Err (ErrNew ''ssh: peer's curve25519 public value has wrong length'')
           else
             res_bind (kp_generate X (fst rs)) (\<lambda>kp.
             res_bind (x25519Secret X (kp_priv kp) clientPub) (\<lambda>secret.
             let hostKeyBytes = sg_PublicKey priv in
             res_bind (marshalSecret (int (setBytes secret))) (\<lambda>K.
             let H = h_sum (hs SHA256) (ecTranscript m hostKeyBytes clientPub (kp_pub kp) K) in
             res_bind (signAndMarshal priv H) (\<lambda>sig.
             res_bind (MarshalMsg (KexECDHReplyMsg hostKeyBytes (kp_pub kp) sig)) (\<lambda>reply.
             res_bind (sendOutcome (snd rs)) (\<lambda>_.
               Ok (reply, \<lparr>kr_H = H, kr_K = K, kr_HostKey = hostKeyBytes, kr_Signature = sig,
                           kr_Hash = SHA256, kr_SessionID = []\<rparr>)))))))
       | _ \<Rightarrow> wrongKind)"

section \<open>The table of algorithms\<close>

datatype kexAlgorithm = KexDH dhGroup | KexECDH curve | KexCurve25519

definition bigOne :: int where
  "bigOne = 1"

definition dhPrime1 :: int where
  "dhPrime1 = 0xFFFFFFFFFFFFFFFFC90FDAA22168C234C4C6628B80DC1CD129024E088A67CC74020BBEA63B139B22514A08798E3404DDEF9519B3CD3A431B302B0A6DF25F14374FE1356D6D51C245E485B576625E7EC6F44C42E9A637ED6B0BFF5CB6F406B7EDEE386BFB5A899FA5AE9F24117C4B1FE649286651ECE65381FFFFFFFFFFFFFFFF"

definition dhPrime14 :: int where
  "dhPrime14 = 0xFFFFFFFFFFFFFFFFC90FDAA22168C234C4C6628B80DC1CD129024E088A67CC74020BBEA63B139B22514A08798E3404DDEF9519B3CD3A431B302B0A6DF25F14374FE1356D6D51C245E485B576625E7EC6F44C42E9A637ED6B0BFF5CB6F406B7EDEE386BFB5A899FA5AE9F24117C4B1FE649286651ECE45B3DC2007CB8A163BF0598DA48361C55D39A69163FA8FD24CF5F83655D23DCA3AD961C62F356208552BB9ED529077096966D670C354E4ABC9804F1746C08CA18217C32905E462E36CE3BE39E772C180E86039B2783A2EC07A28FB5C55DF06F4C52C9DE2BCBF6955817183995497CEA956AE515D2261898FA051015728E5A8AACAA68FFFFFFFFFFFFFFFF"

definition dhGroupOf :: "int \<Rightarrow> dhGroup" where
  "dhGroupOf p = \<lparr>dh_g = 2, dh_p = p, dh_pMinus1 = p - bigOne\<rparr>"

definition kexAlgoMap :: "curve \<Rightarrow> curve \<Rightarrow> curve \<Rightarrow> string \<rightharpoonup> kexAlgorithm" where
  "kexAlgoMap p521 p384 p256 = map_of
     [(''diffie-hellman-group1-sha1'', KexDH (dhGroupOf dhPrime1)),
      (''diffie-hellman-group14-sha1'', KexDH (dhGroupOf dhPrime14)),
      (''ecdh-sha2-nistp521'', KexECDH p521),
      (''ecdh-sha2-nistp384'', KexECDH p384),
      (''ecdh-sha2-nistp256'', KexECDH p256),
      (''curve25519-sha256@libssh.org'', KexCurve25519)]"

section \<open>Lemmas: messages\<close>

lemma kex_msg_ok [simp]:
  "msg_ok (KexDHInitMsg X)" "msg_ok (KexDHReplyMsg hk Y sg)" "msg_ok (KexECDHInitMsg pub)" "msg_ok (KexECDHReplyMsg hk pub sg)"
  by (simp_all add: msg_ok_def)

lemma kex_msg_roundtrip:
  assumes "MarshalMsg m = Ok p" "msg_ok m" "length p < 2 ^ 32"
  shows "UnmarshalMsg (mtypeOf m) p = Ok m"
  using assms UnmarshalMsg_msgBytes [of m] by (simp add: MarshalMsg_ok)

section \<open>The contract of a key exchange\<close>

text \<open>
  \<open>rc\<close> and \<open>rs\<close> are the random choices of the two sides with the outcomes of their writes;
  \<open>good\<close> says which of them must lead to an agreement.
\<close>

locale key_agreement =
  fixes start :: "'rc \<Rightarrow> ('e \<times> bytes) res"
    and serve :: "'rs \<Rightarrow> handshakeMagics \<Rightarrow> signer \<Rightarrow> bytes \<Rightarrow> (bytes \<times> kexResult) res"
    and finish :: "'e \<Rightarrow> handshakeMagics \<Rightarrow> bytes \<Rightarrow> kexResult res"
    and good :: "'rc \<Rightarrow> 'rs \<Rightarrow> bool"
  assumes agree:
    "start rc = Ok (e, p) \<Longrightarrow> serve rs m s p = Ok (q, r) \<Longrightarrow> length p < 2 ^ 32 \<Longrightarrow> length q < 2 ^ 32 \<Longrightarrow> good rc rs \<Longrightarrow>
     finish e m q = Ok r"
begin

text \<open>After the exchange both transports prepare ciphers that are in step.\<close>

lemma exchange_links:
  assumes "start rc = Ok (e, p)" "serve rs m s p = Ok (q, r)" "length p < 2 ^ 32" "length q < 2 ^ 32" "good rc rs"
    and "prims_ok P" "linked c v" "alg_w algs = alg_r algs"
    and "prepareKeyChange P p1 p2 st algs (r'\<lparr>kr_SessionID := sid\<rparr>) c = Some (c', Ok ())"
    and "prepareKeyChange P p3 p4 st' algs (r\<lparr>kr_SessionID := sid\<rparr>) v = Some (v', Ok ())"
    and "finish e m q = Ok r'"
  shows "linked c' v' \<and> pendingKeyChange (tr_writer c') \<noteq> None \<and> pendingKeyChange (tr_writer v') \<noteq> None"
proof -
  have "r' = r" using agree [OF assms(1-5)] assms(11) by simp
  then show ?thesis using prepare_linked [OF assms(6-8) assms(9)] assms(10) by simp
qed

end

section \<open>Diffie-Hellman\<close>

lemma bigExp_commute: "bigExp (bigExp g y p) x p = bigExp (bigExp g x p) y p"
  by (simp add: bigExp_def power_mod power_mult [symmetric] mult.commute)

definition dhGood :: "dhGroup \<Rightarrow> int list \<times> gerror option \<Rightarrow> int list \<times> gerror option \<Rightarrow> bool" where
  "dhGood grp rc rs \<longleftrightarrow> (\<forall>y. randPositive (fst rs) = Ok y \<longrightarrow>
     1 < bigExp (dh_g grp) y (dh_p grp) \<and> bigExp (dh_g grp) y (dh_p grp) < dh_pMinus1 grp)"

interpretation dhx: key_agreement "dh_ClientStart grp" "dh_Server hs grp" "dh_ClientFinish hs grp" "dhGood grp"
  for grp :: dhGroup and hs :: "cryptoHash \<Rightarrow> hashFn"
proof
  fix rc rs :: "int list \<times> gerror option" and e :: "int \<times> int" and p q :: bytes and m :: handshakeMagics and s :: signer and r :: kexResult
  assume c: "dh_ClientStart grp rc = Ok (e, p)" and v: "dh_Server hs grp rs m s p = Ok (q, r)"
    and l: "length p < 2 ^ 32" "length q < 2 ^ 32" and g: "dhGood grp rc rs"
  obtain x where x: "e = (x, bigExp (dh_g grp) x (dh_p grp))" "MarshalMsg (KexDHInitMsg (bigExp (dh_g grp) x (dh_p grp))) = Ok p"
    using c by (auto simp: dh_ClientStart_def res_simps Let_def)
  let ?X = "bigExp (dh_g grp) x (dh_p grp)"
  have u: "UnmarshalMsg T_kexDHInitMsg p = Ok (KexDHInitMsg ?X)" using kex_msg_roundtrip [OF x(2)] l by simp
  obtain y k K t sg where y: "randPositive (fst rs) = Ok y" "diffieHellman grp ?X y = Ok k" "marshalSecret k = Ok K"
    "dhTranscript m (sg_PublicKey s) ?X (bigExp (dh_g grp) y (dh_p grp)) K = Ok t"
    "MarshalMsg (KexDHReplyMsg (sg_PublicKey s) (bigExp (dh_g grp) y (dh_p grp)) sg) = Ok q"
    "r = \<lparr>kr_H = h_sum (hs SHA1) t, kr_K = K, kr_HostKey = sg_PublicKey s, kr_Signature = sg, kr_Hash = SHA1, kr_SessionID = []\<rparr>"
    using v u by (auto simp: dh_Server_def res_simps Let_def)
  let ?Y = "bigExp (dh_g grp) y (dh_p grp)"
  have "UnmarshalMsg T_kexDHReplyMsg q = Ok (KexDHReplyMsg (sg_PublicKey s) ?Y sg)" using kex_msg_roundtrip [OF y(5)] l by simp
  moreover have "diffieHellman grp ?Y x = Ok k"
    using y(1,2) g bigExp_commute [of "dh_g grp" y "dh_p grp" x] by (auto simp: diffieHellman_def dhGood_def split: if_splits)
  ultimately show "dh_ClientFinish hs grp e m q = Ok r" using x(1) y by (simp add: dh_ClientFinish_def)
qed

section \<open>Elliptic curves\<close>

text \<open>What the standard library documents of a curve and of its generated keys \<open>keys\<close>.\<close>

definition curve_ok :: "curve \<Rightarrow> ecKey set \<Rightarrow> bool" where
  "curve_ok c keys \<longleftrightarrow>
     (\<forall>(d, x, y) \<in> keys. cv_Unmarshal c (cv_Marshal c x y) = Some (x, y) \<and> validateECPublicKey c x y) \<and>
     (\<forall>a \<in> keys. \<forall>b \<in> keys. ecSecret c (snd a) b = ecSecret c (snd b) a)"

definition ecGood :: "curve \<Rightarrow> ecKey res \<times> gerror option \<Rightarrow> ecKey res \<times> gerror option \<Rightarrow> bool" where
  "ecGood c rc rs \<longleftrightarrow> (\<exists>keys. curve_ok c keys \<and> (\<forall>k. fst rc = Ok k \<longrightarrow> k \<in> keys) \<and> (\<forall>k. fst rs = Ok k \<longrightarrow> k \<in> keys))"

interpretation ecx: key_agreement "ecdh_ClientStart c" "ecdh_Server hs c" "ecdh_ClientFinish hs c" "ecGood c"
  for c :: curve and hs :: "cryptoHash \<Rightarrow> hashFn"
proof
  fix rc rs :: "ecKey res \<times> gerror option" and e :: "ecKey \<times> bytes" and p q :: bytes and m :: handshakeMagics and s :: signer and r :: kexResult
  assume st: "ecdh_ClientStart c rc = Ok (e, p)" and v: "ecdh_Server hs c rs m s p = Ok (q, r)"
    and l: "length p < 2 ^ 32" "length q < 2 ^ 32" and g: "ecGood c rc rs"
  obtain d x y where x: "fst rc = Ok (d, x, y)" "e = ((d, x, y), cv_Marshal c x y)" "MarshalMsg (KexECDHInitMsg (cv_Marshal c x y)) = Ok p"
    using st by (auto simp: ecdh_ClientStart_def res_simps Let_def)
  have u: "UnmarshalMsg T_kexECDHInitMsg p = Ok (KexECDHInitMsg (cv_Marshal c x y))" using kex_msg_roundtrip [OF x(3)] l by simp
  obtain pub d' x' y' K sg where y: "unmarshalECKey c (cv_Marshal c x y) = Ok pub" "fst rs = Ok (d', x', y')"
    "marshalSecret (ecSecret c pub (d', x', y')) = Ok K"
    "MarshalMsg (KexECDHReplyMsg (sg_PublicKey s) (cv_Marshal c x' y') sg) = Ok q"
    "r = \<lparr>kr_H = h_sum (hs (ecHash c)) (ecTranscript m (sg_PublicKey s) (cv_Marshal c x y) (cv_Marshal c x' y') K), kr_K = K,
          kr_HostKey = sg_PublicKey s, kr_Signature = sg, kr_Hash = ecHash c, kr_SessionID = []\<rparr>"
    using v u by (auto simp: ecdh_Server_def res_simps Let_def)
  obtain keys where k: "curve_ok c keys" "(d, x, y) \<in> keys" "(d', x', y') \<in> keys" using g x(1) y(2) by (auto simp: ecGood_def)
  have "unmarshalECKey c (cv_Marshal c x y) = Ok (x, y)" "unmarshalECKey c (cv_Marshal c x' y') = Ok (x', y')"
    using k by (auto simp: curve_ok_def unmarshalECKey_def)
  moreover have "ecSecret c (x', y') (d, x, y) = ecSecret c (x, y) (d', x', y')"
    using k unfolding curve_ok_def by fastforce
  moreover have "UnmarshalMsg T_kexECDHReplyMsg q = Ok (KexECDHReplyMsg (sg_PublicKey s) (cv_Marshal c x' y') sg)"
    using kex_msg_roundtrip [OF y(4)] l by simp
  ultimately show "ecdh_ClientFinish hs c e m q = Ok r" using x(2) y by (simp add: ecdh_ClientFinish_def)
qed

section \<open>Curve25519\<close>

definition c25519_ok :: "c25519 \<Rightarrow> bool" where
  "c25519_ok X \<longleftrightarrow> (\<forall>a b. length a = 32 \<longrightarrow> length b = 32 \<longrightarrow>
     length (x_ScalarBaseMult X a) = 32 \<and> x_ScalarMult X a (x_ScalarBaseMult X b) = x_ScalarMult X b (x_ScalarBaseMult X a))"

interpretation xx: key_agreement "x25519_ClientStart X" "x25519_Server hs X" "x25519_ClientFinish hs X" "\<lambda>_ _. c25519_ok X"
  for X :: c25519 and hs :: "cryptoHash \<Rightarrow> hashFn"
proof
  fix rc rs :: "bytes \<times> gerror option" and e :: curve25519KeyPair and p q :: bytes and m :: handshakeMagics and s :: signer and r :: kexResult
  assume st: "x25519_ClientStart X rc = Ok (e, p)" and v: "x25519_Server hs X rs m s p = Ok (q, r)"
    and l: "length p < 2 ^ 32" "length q < 2 ^ 32" and g: "c25519_ok X"
  have gen: "length (kp_priv k) = 32 \<and> kp_pub k = x_ScalarBaseMult X (kp_priv k)" if "kp_generate X rand = Ok k" for rand k
    using that by (auto simp: kp_generate_def dest!: readFull_OkD split: prod.splits res.splits)
  have x: "kp_generate X (fst rc) = Ok e" "MarshalMsg (KexECDHInitMsg (kp_pub e)) = Ok p"
    using st by (auto simp: x25519_ClientStart_def res_simps)
  have u: "UnmarshalMsg T_kexECDHInitMsg p = Ok (KexECDHInitMsg (kp_pub e))" using kex_msg_roundtrip [OF x(2)] l by simp
  obtain kp sec K sg where y: "kp_generate X (fst rs) = Ok kp" "x25519Secret X (kp_priv kp) (kp_pub e) = Ok sec"
    "marshalSecret (int (setBytes sec)) = Ok K" "MarshalMsg (KexECDHReplyMsg (sg_PublicKey s) (kp_pub kp) sg) = Ok q"
    "r = \<lparr>kr_H = h_sum (hs SHA256) (ecTranscript m (sg_PublicKey s) (kp_pub e) (kp_pub kp) K), kr_K = K,
          kr_HostKey = sg_PublicKey s, kr_Signature = sg, kr_Hash = SHA256, kr_SessionID = []\<rparr>"
    using v u by (auto simp: x25519_Server_def res_simps Let_def split: if_splits)
  note ge = gen [OF x(1)] and gs = gen [OF y(1)]
  have "x25519Secret X (kp_priv e) (kp_pub kp) = Ok sec"
    using y(2) g ge gs by (auto simp: x25519Secret_def c25519_ok_def Let_def split: if_splits)
  moreover have "UnmarshalMsg T_kexECDHReplyMsg q = Ok (KexECDHReplyMsg (sg_PublicKey s) (kp_pub kp) sg)"
    using kex_msg_roundtrip [OF y(4)] l by simp
  ultimately show "x25519_ClientFinish hs X e m q = Ok r" using y by (simp add: x25519_ClientFinish_def)
qed

section \<open>The interface \<open>kexAlgorithm\<close>\<close>

text \<open>
  The primitives of all algorithms, what a side draws from its entropy source and how its \<open>writePacket\<close>
  ends, and what the client keeps while it waits.
\<close>

record kexPrims =
  kx_hash :: "cryptoHash \<Rightarrow> hashFn"
  kx_c25519 :: c25519

record kexRand =
  kx_draws :: "int list"
  kx_ecKey :: "ecKey res"
  kx_bytes :: bytes
  kx_werr :: "gerror option"

datatype kexState = StDH "int \<times> int" | StEC "ecKey \<times> bytes" | StX curve25519KeyPair

fun kex_ClientStart :: "kexPrims \<Rightarrow> kexAlgorithm \<Rightarrow> kexRand \<Rightarrow> (kexState \<times> bytes) res" where
  "kex_ClientStart E (KexDH grp) rc = res_bind (dh_ClientStart grp (kx_draws rc, kx_werr rc)) (\<lambda>(e, p). Ok (StDH e, p))"
| "kex_ClientStart E (KexECDH c) rc = res_bind (ecdh_ClientStart c (kx_ecKey rc, kx_werr rc)) (\<lambda>(e, p). Ok (StEC e, p))"
| "kex_ClientStart E KexCurve25519 rc =
     res_bind (x25519_ClientStart (kx_c25519 E) (kx_bytes rc, kx_werr rc)) (\<lambda>(e, p). Ok (StX e, p))"

fun kex_ClientFinish :: "kexPrims \<Rightarrow> kexAlgorithm \<Rightarrow> kexState \<Rightarrow> handshakeMagics \<Rightarrow> bytes \<Rightarrow> kexResult res" where
  "kex_ClientFinish E (KexDH grp) (StDH e) m q = dh_ClientFinish (kx_hash E) grp e m q"
| "kex_ClientFinish E (KexECDH c) (StEC e) m q = ecdh_ClientFinish (kx_hash E) c e m q"
| "kex_ClientFinish E KexCurve25519 (StX e) m q = x25519_ClientFinish (kx_hash E) (kx_c25519 E) e m q"
| "kex_ClientFinish E _ _ m q = wrongKind"

fun kex_Server :: "kexPrims \<Rightarrow> kexAlgorithm \<Rightarrow> kexRand \<Rightarrow> handshakeMagics \<Rightarrow> signer \<Rightarrow> bytes \<Rightarrow> (bytes \<times> kexResult) res" where
  "kex_Server E (KexDH grp) rs m s p = dh_Server (kx_hash E) grp (kx_draws rs, kx_werr rs) m s p"
| "kex_Server E (KexECDH c) rs m s p = ecdh_Server (kx_hash E) c (kx_ecKey rs, kx_werr rs) m s p"
| "kex_Server E KexCurve25519 rs m s p = x25519_Server (kx_hash E) (kx_c25519 E) (kx_bytes rs, kx_werr rs) m s p"

fun kexGood :: "kexPrims \<Rightarrow> kexAlgorithm \<Rightarrow> kexRand \<Rightarrow> kexRand \<Rightarrow> bool" where
  "kexGood E (KexDH grp) rc rs = dhGood grp (kx_draws rc, kx_werr rc) (kx_draws rs, kx_werr rs)"
| "kexGood E (KexECDH c) rc rs = ecGood c (kx_ecKey rc, kx_werr rc) (kx_ecKey rs, kx_werr rs)"
| "kexGood E KexCurve25519 rc rs = c25519_ok (kx_c25519 E)"

interpretation anyx: key_agreement "kex_ClientStart E A" "kex_Server E A" "kex_ClientFinish E A" "kexGood E A"
  for E :: kexPrims and A :: kexAlgorithm
proof
  fix rc rs :: kexRand and e :: kexState and p q :: bytes and m :: handshakeMagics and s :: signer and r :: kexResult
  assume a: "kex_ClientStart E A rc = Ok (e, p)" "kex_Server E A rs m s p = Ok (q, r)" and l: "length p < 2 ^ 32" "length q < 2 ^ 32"
    and g: "kexGood E A rc rs"
  show "kex_ClientFinish E A e m q = Ok r"
  proof (cases A)
    case (KexDH grp)
    then show ?thesis using a g dhx.agree [OF _ _ l] by (auto simp: res_simps)
  next
    case (KexECDH c)
    then show ?thesis using a g ecx.agree [OF _ _ l] by (auto simp: res_simps)
  next
    case KexCurve25519
    then show ?thesis using a g xx.agree [OF _ _ l] by (auto simp: res_simps)
  qed
qed

section \<open>Lemmas: the exchange hash\<close>

lemma writeString_append: "writeString w s = w @ writeString [] s"
  by (simp add: writeString_def)

lemma writeInt_mpint: "writeInt w n = Ok (w @ mpint n)"
  using marshalInt_fits [of n "replicate (intLength n) 0"] by (simp add: writeInt_def length_mpint)

lemma writeString_inj:
  "writeString [] a @ r = writeString [] b @ r' \<Longrightarrow> length (writeString [] a @ r) < 2 ^ 32 \<Longrightarrow> a = b \<and> r = r'"
  using strc.prefix_free [of a r b r'] by simp

lemma mpint_inj: "mpint a @ r = mpint b @ r' \<Longrightarrow> length (mpint a @ r) < 2 ^ 32 \<Longrightarrow> a = b \<and> r = r'"
  using intc.prefix_free [of a r b r'] by simp

lemma magics_inj:
  assumes "magics_write m [] @ r = magics_write m' [] @ r'" "length (magics_write m [] @ r) < 2 ^ 32"
  shows "m = m' \<and> r = r'"
proof -
  have e: "magics_write m [] @ r = writeString [] (clientVersion m) @ writeString [] (serverVersion m) @
      writeString [] (clientKexInit m) @ writeString [] (serverKexInit m) @ r" for m r
    unfolding magics_write_def by (simp add: writeString_def)
  have 1: "clientVersion m = clientVersion m'" and r1: "writeString [] (serverVersion m) @ writeString [] (clientKexInit m) @
      writeString [] (serverKexInit m) @ r = writeString [] (serverVersion m') @ writeString [] (clientKexInit m') @ writeString [] (serverKexInit m') @ r'"
    using writeString_inj [OF assms(1) [unfolded e]] assms(2) [unfolded e] by auto
  have 2: "serverVersion m = serverVersion m'" and r2: "writeString [] (clientKexInit m) @ writeString [] (serverKexInit m) @ r =
      writeString [] (clientKexInit m') @ writeString [] (serverKexInit m') @ r'"
    using writeString_inj [OF r1] assms(2) [unfolded e] by auto
  have 3: "clientKexInit m = clientKexInit m'" and r3: "writeString [] (serverKexInit m) @ r = writeString [] (serverKexInit m') @ r'"
    using writeString_inj [OF r2] assms(2) [unfolded e] by auto
  have 4: "serverKexInit m = serverKexInit m'" and r4: "r = r'"
    using writeString_inj [OF r3] assms(2) [unfolded e] by auto
  show ?thesis using 1 2 3 4 r4 by (cases m; cases m') simp
qed

lemma dhTranscript_eq: "dhTranscript m hk X Y K = Ok (magics_write m [] @ writeString [] hk @ mpint X @ mpint Y @ K)"
  unfolding dhTranscript_def by (simp add: writeInt_mpint writeString_append [of "magics_write m []"])

lemma ecTranscript_eq: "ecTranscript m hk cp sp K = magics_write m [] @ writeString [] hk @ writeString [] cp @ writeString [] sp @ K"
  by (simp add: ecTranscript_def writeString_def)

lemma dhTranscript_inj:
  assumes "dhTranscript m hk X Y K = Ok t" "dhTranscript m' hk' X' Y' K' = Ok t" "length t < 2 ^ 32"
  shows "m = m' \<and> hk = hk' \<and> X = X' \<and> Y = Y' \<and> K = K'"
proof -
  have t: "t = magics_write m [] @ writeString [] hk @ mpint X @ mpint Y @ K"
    "t = magics_write m' [] @ writeString [] hk' @ mpint X' @ mpint Y' @ K'"
    using assms(1,2) by (simp_all add: dhTranscript_eq)
  have l: "length (magics_write m [] @ writeString [] hk @ mpint X @ mpint Y @ K) < 2 ^ 32" using t(1) assms(3) by simp
  note 1 = magics_inj [OF trans [OF t(1) [symmetric] t(2)] l]
  note 2 = writeString_inj [OF conjunct2 [OF 1]]
  have "hk = hk' \<and> mpint X @ mpint Y @ K = mpint X' @ mpint Y' @ K'" using 2 l by simp
  moreover from this have "X = X' \<and> mpint Y @ K = mpint Y' @ K'" using mpint_inj [of X "mpint Y @ K" X' "mpint Y' @ K'"] l by simp
  moreover from this have "Y = Y' \<and> K = K'" using mpint_inj [of Y K Y' K'] l by simp
  ultimately show ?thesis using 1 by blast
qed

lemma ecTranscript_inj:
  assumes "ecTranscript m hk cp sp K = ecTranscript m' hk' cp' sp' K'" "length (ecTranscript m hk cp sp K) < 2 ^ 32"
  shows "m = m' \<and> hk = hk' \<and> cp = cp' \<and> sp = sp' \<and> K = K'"
proof -
  note l = assms(2) [unfolded ecTranscript_eq]
  note 1 = magics_inj [OF assms(1) [unfolded ecTranscript_eq] l]
  have "hk = hk' \<and> writeString [] cp @ writeString [] sp @ K = writeString [] cp' @ writeString [] sp' @ K'"
    using writeString_inj [OF conjunct2 [OF 1]] l by simp
  moreover from this have "cp = cp' \<and> writeString [] sp @ K = writeString [] sp' @ K'"
    using writeString_inj [of cp "writeString [] sp @ K" cp' "writeString [] sp' @ K'"] l by simp
  moreover from this have "sp = sp' \<and> K = K'" using writeString_inj [of sp K sp' K'] l by simp
  ultimately show ?thesis using 1 by blast
qed

section \<open>Lemmas: signatures\<close>

lemma signature_roundtrip:
  assumes "Marshal signatureStruct [VString f, VBytes b] = Ok out" "length (out @ rest) < 2 ^ 32"
  shows "parseSignatureBody (out @ rest) = Some (\<lparr>sig_Format = f, sig_Blob = b\<rparr>, rest)"
proof -
  have v: "vals_ok (sfields signatureStruct) [VString f, VBytes b]" by (simp add: signatureStruct_def)
  have "out = writeString [] (bytes_of_string f) @ writeString [] b"
    using assms(1) Marshal_ok [OF v] by (simp add: structBytes_def signatureStruct_def tag_eval)
  then show ?thesis
    using strc.dec_enc [of "bytes_of_string f" "writeString [] b @ rest"] strc.dec_enc [of b rest] assms(2)
    by (simp add: parseSignatureBody_def)
qed

section \<open>Concrete instances\<close>

definition toyC25519 :: c25519 where
  "toyC25519 = \<lparr>x_ScalarMult = map2 (+), x_ScalarBaseMult = (\<lambda>a. a)\<rparr>"

definition toyKex :: kexPrims where
  "toyKex = \<lparr>kx_hash = (\<lambda>_. constHash 20), kx_c25519 = toyC25519\<rparr>"

definition toySigner :: signer where
  "toySigner = \<lparr>sg_PublicKey = [1, 2, 3], sg_Type = ''ssh-rsa'', sg_Sign = (\<lambda>d. Ok \<lparr>sig_Format = ''ssh-rsa'', sig_Blob = d\<rparr>)\<rparr>"

definition toyMagics :: handshakeMagics where
  "toyMagics = \<lparr>clientVersion = [7], serverVersion = [8], clientKexInit = [20, 1], serverKexInit = [20, 2]\<rparr>"

definition toyRand :: "byte \<Rightarrow> kexRand" where
  "toyRand b = \<lparr>kx_draws = [], kx_ecKey = Err IoEOF, kx_bytes = replicate 32 b, kx_werr = None\<rparr>"

lemma toyC25519_ok: "c25519_ok toyC25519"
proof -
  have "map2 (+) a b = map2 (+) b (a :: bytes)" if "length a = length b" for a b
    using that by (induction a b rule: list_induct2) (simp_all add: add.commute)
  then show ?thesis by (simp add: c25519_ok_def toyC25519_def)
qed

lemma toy_sign: "signAndMarshal toySigner d = Ok (writeString (writeString [] (bytes_of_string ''ssh-rsa'')) d)"
proof -
  have v: "vals_ok (sfields signatureStruct) [VString ''ssh-rsa'', VBytes d]" by (simp add: signatureStruct_def)
  then show ?thesis
    using Marshal_ok [OF v] by (simp add: signAndMarshal_def toySigner_def structBytes_def signatureStruct_def tag_eval writeString_def)
qed

lemma toy_exchange:
  "\<exists>e p q r. kex_ClientStart toyKex KexCurve25519 (toyRand 3) = Ok (e, p) \<and>
     kex_Server toyKex KexCurve25519 (toyRand 4) toyMagics toySigner p = Ok (q, r) \<and> length p < 2 ^ 32 \<and> length q < 2 ^ 32"
proof -
  let ?pub = "\<lambda>b. replicate 32 (b :: byte)"
  have gen: "kp_generate toyC25519 (?pub b) = Ok \<lparr>kp_priv = ?pub b, kp_pub = ?pub b\<rparr>" for b
    by (simp add: kp_generate_def readFull_def toyC25519_def)
  have m: "MarshalMsg (KexECDHInitMsg x) = Ok (msgBytes (KexECDHInitMsg x))" for x by (simp add: MarshalMsg_ok)
  have start: "kex_ClientStart toyKex KexCurve25519 (toyRand 3) =
      Ok (StX \<lparr>kp_priv = ?pub 3, kp_pub = ?pub 3\<rparr>, msgBytes (KexECDHInitMsg (?pub 3)))"
    using gen [of 3] by (simp add: toyKex_def toyRand_def x25519_ClientStart_def m sendOutcome_def)
  have lp: "length (msgBytes (KexECDHInitMsg (?pub 3))) < 2 ^ 32" by (simp add: msgBytes_tag writeString_def)
  have u: "UnmarshalMsg T_kexECDHInitMsg (msgBytes (KexECDHInitMsg (?pub 3))) = Ok (KexECDHInitMsg (?pub 3))"
    using kex_msg_roundtrip [OF m _ lp] by simp
  have sec: "x25519Secret toyC25519 (?pub 4) (?pub 3) = Ok (?pub 7)"
  proof -
    have "map2 (+) (?pub 4) (?pub 3) = ?pub 7" by code_simp
    moreover have "?pub 7 \<noteq> ?pub 0" by simp
    ultimately show ?thesis by (simp add: x25519Secret_def toyC25519_def)
  qed
  have K: "\<exists>K. marshalSecret k = Ok K" for k
    using marshalInt_fits [of k "replicate (intLength k) 0"] by (auto simp: marshalSecret_def length_mpint)
  obtain K where K': "marshalSecret (int (setBytes (?pub 7))) = Ok K" using K by blast
  let ?H = "h_sum (constHash 20) (ecTranscript toyMagics (sg_PublicKey toySigner) (?pub 3) (?pub 4) K)"
  let ?sg = "writeString (writeString [] (bytes_of_string ''ssh-rsa'')) ?H"
  let ?q = "msgBytes (KexECDHReplyMsg (sg_PublicKey toySigner) (?pub 4) ?sg)"
  let ?r = "\<lparr>kr_H = ?H, kr_K = K, kr_HostKey = sg_PublicKey toySigner, kr_Signature = ?sg, kr_Hash = SHA256, kr_SessionID = []\<rparr>"
  have serve: "kex_Server toyKex KexCurve25519 (toyRand 4) toyMagics toySigner (msgBytes (KexECDHInitMsg (?pub 3))) = Ok (?q, ?r)"
    using gen [of 4] u sec K' by (simp add: toyKex_def toyRand_def x25519_Server_def toy_sign MarshalMsg_ok sendOutcome_def Let_def)
  have "length ?q < 2 ^ 32" by (simp add: msgBytes_tag writeString_def constHash_def toySigner_def)
  with start serve lp show ?thesis by blast
qed

section \<open>Properties\<close>

text \<open>C4: Client and server agree. For every algorithm of the table, when the client's message reaches the server
  and the server's reply reaches the client, the client ends with exactly the server's result: the same secret,
  exchange hash, host key, signature and hash. For a prime group the server's public value must not be
  degenerate; for the curves the scalar multiplication must be the documented one.\<close>

theorem kex_agreement:
  assumes "kex_ClientStart E A rc = Ok (e, p)" "kex_Server E A rs m s p = Ok (q, r)"
    and "length p < 2 ^ 32" "length q < 2 ^ 32" "kexGood E A rc rs"
  shows "kex_ClientFinish E A e m q = Ok r"
  using assms by (rule anyx.agree)

lemma kex_agreement_witness:
  "\<exists>e p q r. kex_ClientStart toyKex KexCurve25519 (toyRand 3) = Ok (e, p) \<and>
     kex_Server toyKex KexCurve25519 (toyRand 4) toyMagics toySigner p = Ok (q, r) \<and>
     kex_ClientFinish toyKex KexCurve25519 e toyMagics q = Ok r"
proof -
  have g: "kexGood toyKex KexCurve25519 (toyRand 3) (toyRand 4)" by (simp add: toyKex_def toyC25519_ok)
  obtain e p q r where x: "kex_ClientStart toyKex KexCurve25519 (toyRand 3) = Ok (e, p)"
    "kex_Server toyKex KexCurve25519 (toyRand 4) toyMagics toySigner p = Ok (q, r)" "length p < 2 ^ 32" "length q < 2 ^ 32"
    using toy_exchange by blast
  from kex_agreement [OF x g] x(1,2) show ?thesis by blast
qed

text \<open>C34: The exchange hash binds the whole exchange. What the two kinds of exchange hash determines the
  versions, both key exchange offers, the host key, both public values and the secret; so a signature of the
  hash covers all of them, up to collisions of the hash.\<close>

theorem transcript_binds:
  assumes "length t < 2 ^ 32"
  shows "(dhTranscript m hk X Y K = Ok t \<and> dhTranscript m' hk' X' Y' K' = Ok t \<longrightarrow>
      m = m' \<and> hk = hk' \<and> X = X' \<and> Y = Y' \<and> K = K') \<and>
    (ecTranscript m hk cp sp K = t \<and> ecTranscript m' hk' cp' sp' K' = t \<longrightarrow>
      m = m' \<and> hk = hk' \<and> cp = cp' \<and> sp = sp' \<and> K = K')"
proof (rule conjI; rule impI; elim conjE)
  assume "dhTranscript m hk X Y K = Ok t" "dhTranscript m' hk' X' Y' K' = Ok t"
  then show "m = m' \<and> hk = hk' \<and> X = X' \<and> Y = Y' \<and> K = K'" using assms by (rule dhTranscript_inj)
next
  assume t: "ecTranscript m hk cp sp K = t" "ecTranscript m' hk' cp' sp' K' = t"
  show "m = m' \<and> hk = hk' \<and> cp = cp' \<and> sp = sp' \<and> K = K'"
    by (rule ecTranscript_inj) (use t assms in simp_all)
qed

lemma transcript_binds_witness:
  "ecTranscript toyMagics [1] [2] [3] [4] \<noteq> ecTranscript (toyMagics\<lparr>clientKexInit := [20]\<rparr>) [1] [2] [3] [4]"
proof
  assume "ecTranscript toyMagics [1] [2] [3] [4] = ecTranscript (toyMagics\<lparr>clientKexInit := [20]\<rparr>) [1] [2] [3] [4]"
  moreover have "length (ecTranscript toyMagics [1] [2] [3] [4]) < 2 ^ 32"
    by (simp add: ecTranscript_def magics_write_def writeString_def toyMagics_def)
  ultimately have "toyMagics = toyMagics\<lparr>clientKexInit := [20]\<rparr>"
    using transcript_binds [of "ecTranscript toyMagics [1] [2] [3] [4]" toyMagics "[1]" 0 0 "[4]" "toyMagics\<lparr>clientKexInit := [20]\<rparr>" "[1]" 0 0 "[4]" "[2]" "[3]" "[2]" "[3]"]
    by simp
  then show False by (simp add: toyMagics_def)
qed

end
