(* ===== verification/Handshake.thy ===== *)
theory Handshake
  imports Kex Channel
begin

text \<open>
  The handshake transport (\<open>src/handshake.go\<close>): rekeying on top of a keying transport. The methods of
  the keying transport are the fields of \<open>keyingTransport\<close>. The goroutines are cut into steps: a call of
  \<open>writePacket\<close>, one round of \<open>readLoop\<close>, and the rounds of \<open>kexLoop\<close>, each of
  which runs under the mutex as in the code. A select that the shutdown can win has its outcome as an argument.
\<close>

section \<open>State\<close>

record 'c keyingTransport =
  kc_write :: "bytes \<Rightarrow> 'c \<Rightarrow> 'c \<times> unit res"
  kc_read :: "'c \<Rightarrow> (bytes res \<times> 'c) option"
  kc_prepare :: "algorithms \<Rightarrow> kexResult \<Rightarrow> 'c \<Rightarrow> ('c \<times> unit res) option"

text \<open>
  \<open>requestKex\<close> and \<open>startKex\<close> are Go channels of capacity one, the first without data; a nil slice or
  pointer is \<open>None\<close>. \<open>ht_locked\<close> is set when a goroutine has returned without releasing the mutex.
\<close>

record 'c handshakeTransport =
  hconn :: 'c
  ht_config :: "(unit, unit) Config"
  ht_serverVersion :: bytes
  ht_clientVersion :: bytes
  hostKeys :: "signer list"
  hostKeyAlgorithms :: "string list"
  ht_incoming :: "bytes list"
  ht_incoming_closed :: bool
  readError :: "gerror option"
  writeError :: "gerror option"
  sentInitPacket :: "bytes option"
  sentInitMsg :: "kexInitMsg option"
  pendingPackets :: "bytes list"
  requestKex :: bool
  startKex :: "bytes option"
  startKex_closed :: bool
  ht_algorithms :: "algorithms option"
  readPacketsLeft :: u32
  readBytesLeft :: int
  writePacketsLeft :: u32
  writeBytesLeft :: int
  ht_sessionID :: "bytes option"
  ht_locked :: bool

section \<open>Thresholds and small operations\<close>

definition packetRekeyThreshold :: u32 where
  "packetRekeyThreshold = 2 ^ 31"

text \<open>The choice of the byte threshold, for the algorithms of one direction.\<close>

definition bytesThreshold :: "(algorithms \<Rightarrow> directionAlgorithms) \<Rightarrow> 'c handshakeTransport \<Rightarrow> int" where
  "bytesThreshold dir t =
     (if RekeyThreshold (ht_config t) > 0 then sint (RekeyThreshold (ht_config t))
      else case ht_algorithms t of Some a \<Rightarrow> rekeyBytes (dir a) | None \<Rightarrow> 2 ^ 30)"

definition resetWriteThresholds :: "'c handshakeTransport \<Rightarrow> 'c handshakeTransport" where
  "resetWriteThresholds t = t\<lparr>writePacketsLeft := packetRekeyThreshold, writeBytesLeft := bytesThreshold alg_w t\<rparr>"

definition resetReadThresholds :: "'c handshakeTransport \<Rightarrow> 'c handshakeTransport" where
  "resetReadThresholds t = t\<lparr>readPacketsLeft := packetRekeyThreshold, readBytesLeft := bytesThreshold alg_r t\<rparr>"

definition requestKeyExchange :: "'c handshakeTransport \<Rightarrow> 'c handshakeTransport" where
  "requestKeyExchange t = t\<lparr>requestKex := True\<rparr>"

definition recordWriteError :: "gerror option \<Rightarrow> 'c handshakeTransport \<Rightarrow> 'c handshakeTransport" where
  "recordWriteError e t = (if writeError t = None \<and> e \<noteq> None then t\<lparr>writeError := e\<rparr> else t)"

definition newHandshakeTransport ::
    "bool \<Rightarrow> 'c \<Rightarrow> (unit, unit) Config \<Rightarrow> bytes \<Rightarrow> bytes \<Rightarrow> 'c handshakeTransport option" where
  "newHandshakeTransport stop c config clientV serverV =
     (let t = \<lparr>hconn = c, ht_config = config, ht_serverVersion = serverV, ht_clientVersion = clientV,
               hostKeys = [], hostKeyAlgorithms = [], ht_incoming = [], ht_incoming_closed = False,
               readError = None, writeError = None, sentInitPacket = None, sentInitMsg = None, pendingPackets = [],
               requestKex = False, startKex = None, startKex_closed = False, ht_algorithms = None,
               readPacketsLeft = 0, readBytesLeft = 0, writePacketsLeft = 0, writeBytesLeft = 0,
               ht_sessionID = None, ht_locked = False\<rparr>
      in if stop then None else Some (requestKeyExchange (resetWriteThresholds (resetReadThresholds t))))"

definition newClientTransport ::
    "bool \<Rightarrow> 'c \<Rightarrow> (unit, unit) Config \<Rightarrow> string list option \<Rightarrow> bytes \<Rightarrow> bytes \<Rightarrow> 'c handshakeTransport option" where
  "newClientTransport stop c config algos clientV serverV =
     map_option (\<lambda>t. t\<lparr>hostKeyAlgorithms := (case algos of Some a \<Rightarrow> a | None \<Rightarrow> supportedHostKeyAlgos)\<rparr>)
       (newHandshakeTransport stop c config clientV serverV)"

definition newServerTransport ::
    "bool \<Rightarrow> 'c \<Rightarrow> (unit, unit) Config \<Rightarrow> signer list \<Rightarrow> bytes \<Rightarrow> bytes \<Rightarrow> 'c handshakeTransport option" where
  "newServerTransport stop c config keys clientV serverV =
     map_option (\<lambda>t. t\<lparr>hostKeys := keys\<rparr>) (newHandshakeTransport stop c config clientV serverV)"

section \<open>Writing\<close>

definition pushPacket :: "'c keyingTransport \<Rightarrow> bytes \<Rightarrow> 'c handshakeTransport \<Rightarrow> 'c handshakeTransport \<times> unit res" where
  "pushPacket K p t = (case kc_write K p (hconn t) of (c, e) \<Rightarrow> (t\<lparr>hconn := c\<rparr>, e))"

text \<open>What a write takes from the thresholds.\<close>

definition writeCount :: "bytes \<Rightarrow> 'c handshakeTransport \<Rightarrow> 'c handshakeTransport" where
  "writeCount p t =
     (let t1 = (if writeBytesLeft t > 0 then t\<lparr>writeBytesLeft := writeBytesLeft t - int (length p)\<rparr>
                else requestKeyExchange t)
      in if writePacketsLeft t1 > 0 then t1\<lparr>writePacketsLeft := writePacketsLeft t1 - 1\<rparr>
         else requestKeyExchange t1)"

text \<open>\<open>None\<close> is a call that waits for the mutex for ever.\<close>

definition ht_writePacket ::
    "'c keyingTransport \<Rightarrow> bytes \<Rightarrow> 'c handshakeTransport \<Rightarrow> ('c handshakeTransport \<times> unit res) option" where
  "ht_writePacket K p t =
     (case p of
        [] \<Rightarrow> Some (t, Panic ''index out of range'')
      | b # _ \<Rightarrow>
          if b = msgKexInit then Some (t, Err (ErrNew ''ssh: only handshakeTransport can send kexInit''))
          else if b = msgNewKeys then Some (t, Err (ErrNew ''ssh: only handshakeTransport can send newKeys''))
          else if ht_locked t then None
          else
            (case writeError t of
               Some e \<Rightarrow> Some (t, Err e)
             | None \<Rightarrow>
                 if sentInitMsg t \<noteq> None then Some (t\<lparr>pendingPackets := pendingPackets t @ [p]\<rparr>, Ok ())
                 else
                   (case pushPacket K p (writeCount p t) of
                      (t3, Ok _) \<Rightarrow> Some (t3, Ok ())
                    | (t3, Err e) \<Rightarrow> Some (t3\<lparr>writeError := Some e\<rparr>, Ok ())
                    | (t3, Panic x) \<Rightarrow> Some (t3, Panic x))))"

text \<open>The offer, with the random cookie as an argument.\<close>

definition nilSlice :: "'a list option \<Rightarrow> 'a list" where
  "nilSlice s = (case s of None \<Rightarrow> [] | Some xs \<Rightarrow> xs)"

definition kexInitOffer :: "bytes \<Rightarrow> 'c handshakeTransport \<Rightarrow> kexInitMsg" where
  "kexInitOffer cookie t =
     \<lparr>Cookie = cookie, KexAlgos = nilSlice (KeyExchanges (ht_config t)),
      ServerHostKeyAlgos = (if length (hostKeys t) > 0 then map sg_Type (hostKeys t) else hostKeyAlgorithms t),
      CiphersClientServer = nilSlice (Ciphers (ht_config t)), CiphersServerClient = nilSlice (Ciphers (ht_config t)),
      MACsClientServer = nilSlice (MACs (ht_config t)), MACsServerClient = nilSlice (MACs (ht_config t)),
      CompressionClientServer = supportedCompressions, CompressionServerClient = supportedCompressions,
      LanguagesClientServer = [], LanguagesServerClient = [], FirstKexFollows = False, Reserved = 0\<rparr>"

definition sendKexInit :: "'c keyingTransport \<Rightarrow> bytes \<Rightarrow> 'c handshakeTransport \<Rightarrow> 'c handshakeTransport \<times> unit res" where
  "sendKexInit K cookie t =
     (if sentInitMsg t \<noteq> None then (t, Ok ())
      else
        let msg = kexInitOffer cookie t in
        (case MarshalMsg (kexInitMessage msg) of
           Err e \<Rightarrow> (t, Err e)
         | Panic x \<Rightarrow> (t, Panic x)
         | Ok packet \<Rightarrow>
             (case pushPacket K packet t of
                (t1, Ok _) \<Rightarrow> (t1\<lparr>sentInitMsg := Some msg, sentInitPacket := Some packet\<rparr>, Ok ())
              | (t1, e) \<Rightarrow> (t1, e))))"

section \<open>Reading\<close>

text \<open>
  \<open>readOnePacket\<close> up to the point where it hands a kexInit packet to \<open>kexLoop\<close>, and from the point
  where \<open>kex.done\<close> answers. \<open>RoKex\<close> keeps whether this is the first exchange.
\<close>

datatype readOut = RoPacket bytes | RoKex bytes bool | RoErr gerror | RoPanic string

definition readCount :: "bytes \<Rightarrow> 'c handshakeTransport \<Rightarrow> 'c handshakeTransport" where
  "readCount p t =
     (let t1 = (if readPacketsLeft t > 0 then t\<lparr>readPacketsLeft := readPacketsLeft t - 1\<rparr> else requestKeyExchange t)
      in if readBytesLeft t1 > 0 then t1\<lparr>readBytesLeft := readBytesLeft t1 - int (length p)\<rparr> else requestKeyExchange t1)"

definition readBegin ::
    "'c keyingTransport \<Rightarrow> bool \<Rightarrow> 'c handshakeTransport \<Rightarrow> ('c handshakeTransport \<times> readOut) option" where
  "readBegin K first t =
     (case kc_read K (hconn t) of
        None \<Rightarrow> None
      | Some (Err e, c) \<Rightarrow> Some (t\<lparr>hconn := c\<rparr>, RoErr e)
      | Some (Panic x, c) \<Rightarrow> Some (t\<lparr>hconn := c\<rparr>, RoPanic x)
      | Some (Ok p, c) \<Rightarrow>
          let t1 = readCount p (t\<lparr>hconn := c\<rparr>) in
          Some (t1, case p of
            [] \<Rightarrow> RoPanic ''index out of range''
          | b # _ \<Rightarrow>
              if first \<and> b \<noteq> msgKexInit then RoErr (Errorf ''ssh: first packet should be msgKexInit'' [] [])
              else if b \<noteq> msgKexInit then RoPacket p
              else RoKex p (ht_sessionID t1 = None)))"

text \<open>
  The send of the pending exchange on \<open>startKex\<close>, a channel of capacity one; a send on a closed channel
  panics, and \<open>None\<close> is a send that has to wait. When the shutdown wins the \<open>select\<close> instead,
  \<open>readOnePacket\<close> ends as it does when \<open>kex.done\<close> answers with \<open>io.EOF\<close>.
\<close>

definition sendStartKex :: "bytes \<Rightarrow> 'c handshakeTransport \<Rightarrow> 'c handshakeTransport res option" where
  "sendStartKex p t =
     (if startKex_closed t then Some (Panic ''send on closed channel'')
      else if startKex t = None then Some (Ok (t\<lparr>startKex := Some p\<rparr>))
      else None)"

definition readEnd_kex :: "bool \<Rightarrow> gerror option \<Rightarrow> 'c handshakeTransport \<Rightarrow> 'c handshakeTransport \<times> readOut" where
  "readEnd_kex firstKex done' t =
     (case done' of
        Some e \<Rightarrow> (t, RoErr e)
      | None \<Rightarrow> (resetReadThresholds t, RoPacket (if firstKex then [msgNewKeys] else [msgIgnore])))"

text \<open>
  What a round of \<open>readLoop\<close> does with the result: it queues the packet, skips it, or ends the loop. A
  select that the shutdown wins drops the packet and ends the loop silently; a full queue makes the loop
  wait, and so does the mutex when it is never released.
\<close>

datatype loopOut = LoopOn | LoopEnd | LoopBlocked

definition readDeliver :: "bool \<Rightarrow> readOut \<Rightarrow> 'c handshakeTransport \<Rightarrow> ('c handshakeTransport \<times> loopOut) res" where
  "readDeliver stop o' t =
     (case o' of
        RoPacket [] \<Rightarrow> Panic ''index out of range''
      | RoPacket (b # q) \<Rightarrow>
          if b = msgIgnore \<or> b = msgDebug then Ok (t, LoopOn)
          else if stop then Ok (t, LoopEnd)
          else if length (ht_incoming t) \<ge> chanSize then Ok (t, LoopBlocked)
          else Ok (t\<lparr>ht_incoming := ht_incoming t @ [b # q]\<rparr>, LoopOn)
      | RoErr e \<Rightarrow>
          let t1 = t\<lparr>readError := Some e, ht_incoming_closed := True\<rparr> in
          if ht_incoming_closed t then Panic ''close of closed channel''
          else if ht_locked t then Ok (t1, LoopBlocked)
          else if startKex_closed t then Panic ''close of closed channel''
          else Ok ((recordWriteError (Some e) t1)\<lparr>startKex_closed := True\<rparr>, LoopEnd)
      | RoKex p f \<Rightarrow> Ok (t, LoopOn)
      | RoPanic x \<Rightarrow> Panic x)"

definition ht_readPacket :: "bool \<Rightarrow> 'c handshakeTransport \<Rightarrow> (bytes res \<times> 'c handshakeTransport) option" where
  "ht_readPacket stop t =
     (if stop then Some (Err IoEOF, t)
      else
        (case ht_incoming t of
           p # ps \<Rightarrow> Some (Ok p, t\<lparr>ht_incoming := ps\<rparr>)
         | [] \<Rightarrow>
             if ht_incoming_closed t then
               Some ((case readError t of Some e \<Rightarrow> Err e | None \<Rightarrow> Ok []), t)
             else None))"

definition waitSession :: "bool \<Rightarrow> 'c handshakeTransport \<Rightarrow> (unit res \<times> 'c handshakeTransport) option" where
  "waitSession stop t =
     (case ht_readPacket stop t of
        None \<Rightarrow> None
      | Some (Err e, t1) \<Rightarrow> Some (Err e, t1)
      | Some (Panic x, t1) \<Rightarrow> Some (Panic x, t1)
      | Some (Ok [], t1) \<Rightarrow> Some (Panic ''index out of range'', t1)
      | Some (Ok (b # q), t1) \<Rightarrow>
          Some (if b \<noteq> msgNewKeys then Err (Errorf ''ssh: first packet should be msgNewKeys'' [] []) else Ok (), t1))"

section \<open>The key exchange\<close>

text \<open>The first part of \<open>enterKeyExchange\<close>: both offers, the magics and the agreed algorithms.\<close>

record kexPlan =
  kp_magics :: handshakeMagics
  kp_algs :: algorithms
  kp_skipGuess :: bool

definition kexInitFrom :: "bytes \<Rightarrow> kexInitMsg res" where
  "kexInitFrom packet =
     res_bind (UnmarshalMsg T_kexInitMsg packet) (\<lambda>m. case kexInitOf m of Some k \<Rightarrow> Ok k | None \<Rightarrow> wrongKind)"

definition wrongGuess :: "kexInitMsg \<Rightarrow> kexInitMsg \<Rightarrow> kexInitMsg \<Rightarrow> bool res" where
  "wrongGuess otherInit clientInit serverInit =
     (if \<not> FirstKexFollows otherInit then Ok False
      else
        (case (KexAlgos clientInit, KexAlgos serverInit, ServerHostKeyAlgos clientInit, ServerHostKeyAlgos serverInit) of
           (a # _, b # _, c # _, d # _) \<Rightarrow> Ok (a \<noteq> b \<or> c \<noteq> d)
         | _ \<Rightarrow> Panic ''index out of range''))"

definition planKex :: "bytes \<Rightarrow> 'c handshakeTransport \<Rightarrow> kexPlan res" where
  "planKex otherInitPacket t =
     res_bind (kexInitFrom otherInitPacket) (\<lambda>otherInit.
     case (sentInitMsg t, sentInitPacket t) of
       (Some own, Some ownPacket) \<Rightarrow>
         let isServer = (length (hostKeys t) \<noteq> 0);
             clientInit = (if isServer then otherInit else own);
             serverInit = (if isServer then own else otherInit);
             magics = \<lparr>clientVersion = ht_clientVersion t, serverVersion = ht_serverVersion t,
                       clientKexInit = (if isServer then otherInitPacket else ownPacket),
                       serverKexInit = (if isServer then ownPacket else otherInitPacket)\<rparr>
         in res_bind (findAgreedAlgorithms clientInit serverInit) (\<lambda>algs.
            res_bind (wrongGuess otherInit clientInit serverInit) (\<lambda>g.
              Ok \<lparr>kp_magics = magics, kp_algs = algs, kp_skipGuess = g\<rparr>))
     | _ \<Rightarrow> Panic ''invalid memory address or nil pointer dereference'')"

text \<open>The host key of the server: the last one of the agreed type.\<close>

primrec pickHostKey :: "string \<Rightarrow> signer list \<Rightarrow> signer option \<Rightarrow> signer option" where
  "pickHostKey ty [] acc = acc"
| "pickHostKey ty (k # ks) acc = pickHostKey ty ks (if ty = sg_Type k then Some k else acc)"

text \<open>
  The checks of the client on the result: \<open>parseKey\<close> is \<open>ParsePublicKey\<close> with the verification method of
  the key it returns, and \<open>callback\<close> the configured host key callback.
\<close>

record hostKeyChecks =
  hk_parse :: "bytes \<Rightarrow> (bytes \<Rightarrow> Signature \<Rightarrow> unit res) res"
  hk_callback :: "bytes \<Rightarrow> unit res"

definition verifyHostKeySignature :: "(bytes \<Rightarrow> Signature \<Rightarrow> unit res) \<Rightarrow> kexResult \<Rightarrow> unit res" where
  "verifyHostKeySignature verify r =
     (case parseSignatureBody (kr_Signature r) of
        None \<Rightarrow> Err (ErrNew ''ssh: signature parse error'')
      | Some (sig, rest) \<Rightarrow>
          if length rest > 0 then Err (ErrNew ''ssh: signature parse error'') else verify (kr_H r) sig)"

definition clientAccept :: "hostKeyChecks \<Rightarrow> kexResult \<Rightarrow> kexResult res" where
  "clientAccept C r =
     res_bind (hk_parse C (kr_HostKey r)) (\<lambda>verify.
     res_bind (verifyHostKeySignature verify r) (\<lambda>_.
     res_bind (hk_callback C (kr_HostKey r)) (\<lambda>_. Ok r)))"

text \<open>The last part: the session identifier, the new keys and both \<open>msgNewKeys\<close>.\<close>

definition withSession :: "kexResult \<Rightarrow> 'c handshakeTransport \<Rightarrow> 'c handshakeTransport \<times> kexResult" where
  "withSession r t =
     (let t1 = (if ht_sessionID t = None then t\<lparr>ht_sessionID := Some (kr_H r)\<rparr> else t)
      in (t1, r\<lparr>kr_SessionID := nilSlice (ht_sessionID t1)\<rparr>))"

definition kexFinishSend ::
    "'c keyingTransport \<Rightarrow> algorithms \<Rightarrow> kexResult \<Rightarrow> 'c handshakeTransport \<Rightarrow> ('c handshakeTransport \<times> unit res) option" where
  "kexFinishSend K algs r t =
     (case withSession r t of
        (t1, r1) \<Rightarrow>
          (case kc_prepare K algs r1 (hconn t1) of
             None \<Rightarrow> None
           | Some (c, Ok _) \<Rightarrow> Some (pushPacket K [msgNewKeys] (t1\<lparr>hconn := c\<rparr>))
           | Some (c, e) \<Rightarrow> Some (t1\<lparr>hconn := c\<rparr>, e)))"

definition kexFinishRead ::
    "'c keyingTransport \<Rightarrow> 'c handshakeTransport \<Rightarrow> ('c handshakeTransport \<times> unit res) option" where
  "kexFinishRead K t =
     (case kc_read K (hconn t) of
        None \<Rightarrow> None
      | Some (Err e, c) \<Rightarrow> Some (t\<lparr>hconn := c\<rparr>, Err e)
      | Some (Panic x, c) \<Rightarrow> Some (t\<lparr>hconn := c\<rparr>, Panic x)
      | Some (Ok [], c) \<Rightarrow> Some (t\<lparr>hconn := c\<rparr>, Panic ''index out of range'')
      | Some (Ok (b # q), c) \<Rightarrow>
          Some (t\<lparr>hconn := c\<rparr>, if b \<noteq> msgNewKeys then Err (unexpectedMessageError msgNewKeys b) else Ok ()))"

text \<open>
  The two roles of the exchange on the connection. A server without a key for the negotiated host key algorithm,
  which the negotiation excludes, panics here before it looks at the client's packet.
\<close>

definition errOf :: "'a res \<Rightarrow> gerror option" where
  "errOf r = (case r of Err e \<Rightarrow> Some e | _ \<Rightarrow> None)"

definition kexServerRun ::
    "'c keyingTransport \<Rightarrow> kexPrims \<Rightarrow> kexAlgorithm \<Rightarrow> kexRand \<Rightarrow> handshakeMagics \<Rightarrow> signer option \<Rightarrow> 'c \<Rightarrow> ('c \<times> kexResult res) option" where
  "kexServerRun K E A rs m key c =
     (case kc_read K c of
        None \<Rightarrow> None
      | Some (Err e, c1) \<Rightarrow> Some (c1, Err e)
      | Some (Panic x, c1) \<Rightarrow> Some (c1, Panic x)
      | Some (Ok p, c1) \<Rightarrow>
          (case key of
             None \<Rightarrow> Some (c1, Panic ''invalid memory address or nil pointer dereference'')
           | Some s \<Rightarrow>
               (case kex_Server E A (rs\<lparr>kx_werr := None\<rparr>) m s p of
                  Err e \<Rightarrow> Some (c1, Err e)
                | Panic x \<Rightarrow> Some (c1, Panic x)
                | Ok (q, _) \<Rightarrow>
                    (case kc_write K q c1 of
                       (c2, Panic x) \<Rightarrow> Some (c2, Panic x)
                     | (c2, w) \<Rightarrow> Some (c2, res_bind (kex_Server E A (rs\<lparr>kx_werr := errOf w\<rparr>) m s p) (\<lambda>(_, r). Ok r))))))"

definition kexClientRun ::
    "'c keyingTransport \<Rightarrow> kexPrims \<Rightarrow> hostKeyChecks \<Rightarrow> kexAlgorithm \<Rightarrow> kexRand \<Rightarrow> handshakeMagics \<Rightarrow> 'c \<Rightarrow> ('c \<times> kexResult res) option" where
  "kexClientRun K E C A rc m c =
     (case kex_ClientStart E A (rc\<lparr>kx_werr := None\<rparr>) of
        Err e \<Rightarrow> Some (c, Err e)
      | Panic x \<Rightarrow> Some (c, Panic x)
      | Ok (st, p) \<Rightarrow>
          (case kc_write K p c of
             (c1, Err e) \<Rightarrow> Some (c1, Err e)
           | (c1, Panic x) \<Rightarrow> Some (c1, Panic x)
           | (c1, Ok _) \<Rightarrow>
               (case kc_read K c1 of
                  None \<Rightarrow> None
                | Some (Err e, c2) \<Rightarrow> Some (c2, Err e)
                | Some (Panic x, c2) \<Rightarrow> Some (c2, Panic x)
                | Some (Ok q, c2) \<Rightarrow> Some (c2, res_bind (kex_ClientFinish E A st m q) (clientAccept C)))))"

definition runPlan ::
    "'c keyingTransport \<Rightarrow> kexPrims \<Rightarrow> (string \<rightharpoonup> kexAlgorithm) \<Rightarrow> hostKeyChecks \<Rightarrow> kexRand \<Rightarrow> kexPlan \<Rightarrow>
       'c handshakeTransport \<Rightarrow> ('c handshakeTransport \<times> unit res) option" where
  "runPlan K E table C rnd plan t =
     (case (if kp_skipGuess plan then kc_read K (hconn t) else Some (Ok [], hconn t)) of
        None \<Rightarrow> None
      | Some (Err e, c) \<Rightarrow> Some (t\<lparr>hconn := c\<rparr>, Err e)
      | Some (Panic x, c) \<Rightarrow> Some (t\<lparr>hconn := c\<rparr>, Panic x)
      | Some (Ok _, c) \<Rightarrow>
          (case table (kex (kp_algs plan)) of
             None \<Rightarrow> Some (t\<lparr>hconn := c\<rparr>,
               Err (Errorf ''ssh: unexpected key exchange algorithm %v'' [] [kex (kp_algs plan)]))
           | Some A \<Rightarrow>
               (case (if length (hostKeys t) > 0
                      then kexServerRun K E A rnd (kp_magics plan) (pickHostKey (hostKey (kp_algs plan)) (hostKeys t) None) c
                      else kexClientRun K E C A rnd (kp_magics plan) c) of
                  None \<Rightarrow> None
                | Some (c1, Err e) \<Rightarrow> Some (t\<lparr>hconn := c1\<rparr>, Err e)
                | Some (c1, Panic x) \<Rightarrow> Some (t\<lparr>hconn := c1\<rparr>, Panic x)
                | Some (c1, Ok r) \<Rightarrow>
                    (case kexFinishSend K (kp_algs plan) r (t\<lparr>hconn := c1\<rparr>) of
                       None \<Rightarrow> None
                     | Some (t2, Ok _) \<Rightarrow> kexFinishRead K t2
                     | Some (t2, e) \<Rightarrow> Some (t2, e)))))"

definition enterKeyExchange ::
    "'c keyingTransport \<Rightarrow> kexPrims \<Rightarrow> (string \<rightharpoonup> kexAlgorithm) \<Rightarrow> hostKeyChecks \<Rightarrow> kexRand \<Rightarrow> bytes \<Rightarrow>
       'c handshakeTransport \<Rightarrow> ('c handshakeTransport \<times> unit res) option" where
  "enterKeyExchange K E table C rnd otherInitPacket t =
     (case kexInitFrom otherInitPacket of
        Err e \<Rightarrow> Some (t, Err e)
      | Panic x \<Rightarrow> Some (t, Panic x)
      | Ok otherInit \<Rightarrow>
          (case planKex otherInitPacket t of
             Err e \<Rightarrow> Some (t\<lparr>ht_algorithms := None\<rparr>, Err e)
           | Panic x \<Rightarrow> Some (t, Panic x)
           | Ok plan \<Rightarrow> runPlan K E table C rnd plan (t\<lparr>ht_algorithms := Some (kp_algs plan)\<rparr>)))"

section \<open>The key exchange loop\<close>

text \<open>
  One pass through the inner loop of \<open>kexLoop\<close>: the select takes an offer of the peer, a request of this
  side, the closed channel or the shutdown; then the own offer is sent if it was not. The pass ends by
  waiting again, by entering the exchange with the peer's offer, or by leaving the loop.
\<close>

datatype kexEvent = EvStart | EvRequest | EvClosed | EvStop

datatype kexNext = KxWait | KxRun bytes | KxBreak "(bytes \<times> gerror) option" | KxReturn | KxPanic string

definition kexAfter :: "bytes option \<Rightarrow> bool \<Rightarrow> 'c handshakeTransport \<Rightarrow> kexNext" where
  "kexAfter request sentInit t =
     (case (request, sentInit) of
        (Some init, True) \<Rightarrow> (case writeError t of None \<Rightarrow> KxRun init | Some e \<Rightarrow> KxBreak (Some (init, e)))
      | _ \<Rightarrow> KxWait)"

definition kexWait ::
    "'c keyingTransport \<Rightarrow> bytes \<Rightarrow> kexEvent \<Rightarrow> bytes option \<Rightarrow> bool \<Rightarrow> 'c handshakeTransport \<Rightarrow>
       ('c handshakeTransport \<times> bytes option \<times> bool \<times> kexNext) option" where
  "kexWait K cookie ev request sentInit t =
     (case ev of
        EvStop \<Rightarrow> Some (t, request, sentInit, KxReturn)
      | EvClosed \<Rightarrow> if startKex_closed t \<and> startKex t = None then Some (t, None, sentInit, KxBreak None) else None
      | _ \<Rightarrow>
          let ready = (if ev = EvStart then startKex t \<noteq> None else requestKex t);
              request1 = (if ev = EvStart then startKex t else request);
              t1 = (if ev = EvStart then t\<lparr>startKex := None\<rparr> else t\<lparr>requestKex := False\<rparr>)
          in if \<not> ready then None
             else if sentInit then Some (t1, request1, True, kexAfter request1 True t1)
             else
               (case sendKexInit K cookie t1 of
                  (t2, Ok _) \<Rightarrow> Some (t2, request1, True, kexAfter request1 True t2)
                | (t2, Err e) \<Rightarrow>
                    let t3 = recordWriteError (Some e) t2 in
                    Some (t3, request1, False,
                      KxBreak (case request1 of None \<Rightarrow> None | Some init \<Rightarrow> Some (init, the (writeError t3))))
                | (t2, Panic x) \<Rightarrow> Some (t2, request1, False, KxPanic x)))"

primrec flushPending :: "'c keyingTransport \<Rightarrow> bytes list \<Rightarrow> 'c handshakeTransport \<Rightarrow> 'c handshakeTransport res" where
  "flushPending K [] t = Ok t"
| "flushPending K (p # ps) t =
     (case pushPacket K p t of
        (t1, Ok _) \<Rightarrow> flushPending K ps (t1\<lparr>writeError := None\<rparr>)
      | (t1, Err e) \<Rightarrow> Ok (t1\<lparr>writeError := Some e\<rparr>)
      | (t1, Panic x) \<Rightarrow> Panic x)"

text \<open>
  The end of an exchange, under the mutex. When the shutdown wins the select on \<open>request.done\<close>, the
  goroutine returns with the mutex held and the pending packets unsent.
\<close>

definition kexComplete :: "'c keyingTransport \<Rightarrow> bool \<Rightarrow> gerror option \<Rightarrow> 'c handshakeTransport \<Rightarrow> 'c handshakeTransport res" where
  "kexComplete K stop e t =
     (let t1 = (resetWriteThresholds (t\<lparr>writeError := e, sentInitPacket := None, sentInitMsg := None\<rparr>))\<lparr>requestKex := False\<rparr>
      in if stop then Ok (t1\<lparr>ht_locked := True\<rparr>)
         else res_bind (flushPending K (pendingPackets t1) t1) (\<lambda>t2. Ok (t2\<lparr>pendingPackets := []\<rparr>)))"

end
