(* ===== verification/HandshakeSafety.thy ===== *)
theory HandshakeSafety
  imports Handshake "HOL-Library.Sublist"
begin

text \<open>
  Lemmas on the handshake transport. The write side is a step relation over an arbitrary interleaving of the
  users' writes, offers, exchanges and their ends, with the packets the users handed in as history; it refines a
  queue. Further lemmas show when a rekeying is requested, that both sides of an exchange make the same
  plan, and what a failed exchange leaves behind.
\<close>

section \<open>The write side as a step relation\<close>

definition connW :: "bytes \<Rightarrow> conn \<Rightarrow> conn \<times> unit res" where
  "connW p c = (case connWrite p c of (c', None) \<Rightarrow> (c', Ok ()) | (c', Some e) \<Rightarrow> (c', Err e))"

text \<open>The connection writes to a log; reading and preparing keys do not write.\<close>

definition logging :: "conn keyingTransport \<Rightarrow> bool" where
  "logging K \<longleftrightarrow> kc_write K = connW \<and>
     (\<forall>c r c'. kc_read K c = Some (r, c') \<longrightarrow> sent c' = sent c \<and> (conn_err c \<noteq> None \<longrightarrow> conn_err c' \<noteq> None)) \<and>
     (\<forall>a kr c r c'. kc_prepare K a kr c = Some (c', r) \<longrightarrow> sent c' = sent c \<and> (conn_err c \<noteq> None \<longrightarrow> conn_err c' \<noteq> None))"

text \<open>Message numbers 20 to 49 belong to the transport layer.\<close>

definition userPacket :: "bytes \<Rightarrow> bool" where
  "userPacket p \<longleftrightarrow> p \<noteq> [] \<and> \<not> (20 \<le> hd p \<and> hd p \<le> 49)"

abbreviation userLog :: "conn handshakeTransport \<Rightarrow> bytes list" where
  "userLog t \<equiv> filter userPacket (sent (hconn t))"

record kexEnv =
  ke_prims :: kexPrims
  ke_table :: "string \<rightharpoonup> kexAlgorithm"
  ke_checks :: hostKeyChecks

inductive hsStep :: "conn keyingTransport \<Rightarrow> kexEnv \<Rightarrow> conn handshakeTransport \<times> bytes list \<Rightarrow> conn handshakeTransport \<times> bytes list \<Rightarrow> bool"
  for K E where
  hsWrite: "userPacket p \<Longrightarrow> ht_writePacket K p t = Some (t', Ok ()) \<Longrightarrow> hsStep K E (t, acc) (t', acc @ [p])"
| hsOffer: "kexWait K cookie ev req si t = Some (t', req', si', nxt) \<Longrightarrow> hsStep K E (t, acc) (t', acc)"
| hsExchange: "sentInitMsg t \<noteq> None \<Longrightarrow> enterKeyExchange K (ke_prims E) (ke_table E) (ke_checks E) rnd init t = Some (t', r) \<Longrightarrow>
    hsStep K E (t, acc) (t', acc)"
| hsFinish: "\<not> ht_locked t \<Longrightarrow> kexComplete K stop e t = Ok t' \<Longrightarrow> hsStep K E (t, acc) (t', acc)"
| hsRead: "readBegin K first t = Some (t1, o') \<Longrightarrow> readDeliver stop o' t1 = Ok (t', b) \<Longrightarrow> hsStep K E (t, acc) (t', acc)"
| hsReadStart: "readBegin K first t = Some (t1, RoKex p f) \<Longrightarrow> sendStartKex p t1 = Some (Ok t') \<Longrightarrow> hsStep K E (t, acc) (t', acc)"
| hsReadKex: "readDeliver stop (snd (readEnd_kex first d t)) (fst (readEnd_kex first d t)) = Ok (t', b) \<Longrightarrow> hsStep K E (t, acc) (t', acc)"
| hsBreak: "hsStep K E (t, acc) (t\<lparr>hconn := (hconn t)\<lparr>conn_err := Some e\<rparr>\<rparr>, acc)"

inductive_cases hsStepE: "hsStep K E s s'"

definition hsInv :: "conn handshakeTransport \<times> bytes list \<Rightarrow> bool" where
  "hsInv s \<longleftrightarrow> (case s of (t, acc) \<Rightarrow>
     (conn_err (hconn t) = None \<and> \<not> ht_locked t \<longrightarrow> userLog t @ pendingPackets t = acc) \<and>
     prefix (userLog t) acc \<and> (sentInitMsg t = None \<and> \<not> ht_locked t \<longrightarrow> pendingPackets t = []))"

text \<open>What a step that hands in no packet keeps.\<close>

definition hsQuiet :: "conn handshakeTransport \<Rightarrow> conn handshakeTransport \<Rightarrow> bool" where
  "hsQuiet t t' \<longleftrightarrow> userLog t' = userLog t \<and> pendingPackets t' = pendingPackets t \<and> ht_locked t' = ht_locked t \<and>
     (conn_err (hconn t) \<noteq> None \<longrightarrow> conn_err (hconn t') \<noteq> None) \<and> (sentInitMsg t \<noteq> None \<longrightarrow> sentInitMsg t' \<noteq> None)"

lemma hsQuiet_refl [simp]: "hsQuiet t t"
  by (simp add: hsQuiet_def)

lemma hsQuiet_trans: "hsQuiet a b \<Longrightarrow> hsQuiet b c \<Longrightarrow> hsQuiet a c"
  by (auto simp: hsQuiet_def)

lemma hsQuiet_inv: "hsQuiet t t' \<Longrightarrow> hsInv (t, acc) \<Longrightarrow> hsInv (t', acc)"
  by (auto simp: hsQuiet_def hsInv_def)

lemma connW_err: "connW p c = (c', e) \<Longrightarrow> conn_err c' = conn_err c"
  by (auto simp: connW_def connWrite_def split: option.splits)

lemma connW_internal: "connW p c = (c', e) \<Longrightarrow> \<not> userPacket p \<Longrightarrow> filter userPacket (sent c') = filter userPacket (sent c)"
  by (auto simp: connW_def connWrite_def split: option.splits)

lemma push_internal:
  assumes "kc_write K = connW" "pushPacket K p t = (t', e)" "\<not> userPacket p"
  shows "hsQuiet t t' \<and> sentInitMsg t' = sentInitMsg t"
  using assms connW_internal [of p "hconn t"] connW_err [of p "hconn t"]
  by (auto simp: pushPacket_def hsQuiet_def split: prod.splits)

text \<open>The first byte of what the handshake itself sends.\<close>

lemma marshalField_extends: "marshalField out k v = Ok b \<Longrightarrow> prefix out b"
  by (cases k) (auto simp: wire_simps wrongKind_def copy_at_namelist Let_def res_simps prefix_def
    split: fval.splits if_splits)

lemma marshalFields_extends: "marshalFields out fs vs = Ok b \<Longrightarrow> prefix out b"
  by (induction out fs vs rule: marshalFields.induct)
     (auto simp: res_simps dest: marshalField_extends intro: prefix_order.trans)

lemma MarshalMsg_tag:
  assumes "MarshalMsg m = Ok p" "tagOf (mtypeOf m) = [b]"
  shows "p \<noteq> [] \<and> hd p = b"
proof -
  have "marshalFields [b] (sfields (structOf (mtypeOf m))) (fieldsOf m) = Ok p"
    using assms by (auto simp: MarshalMsg_def Marshal_def marshalStruct_def typeTags_def split: if_splits)
  from marshalFields_extends [OF this] show ?thesis by (auto simp: prefix_def)
qed

lemma MarshalMsg_internal: "MarshalMsg m = Ok p \<Longrightarrow> tagOf (mtypeOf m) = [b] \<Longrightarrow> 20 \<le> b \<Longrightarrow> b \<le> 49 \<Longrightarrow> \<not> userPacket p"
  using MarshalMsg_tag by (auto simp: userPacket_def)

lemma kexInit_internal: "MarshalMsg (kexInitMessage k) = Ok p \<Longrightarrow> \<not> userPacket p"
  by (erule MarshalMsg_internal [where b = 20]) (simp_all add: kexInitMessage_def)

lemma kex_start_internal: "kex_ClientStart E A rc = Ok (e, p) \<Longrightarrow> \<not> userPacket p"
  by (cases A) (auto simp: dh_ClientStart_def ecdh_ClientStart_def x25519_ClientStart_def res_simps Let_def
      dest: MarshalMsg_internal [where b = 30, simplified])

lemma dh_Server_reply:
  assumes "dh_Server hs grp rs m s p = Ok (q, r)"
  shows "\<exists>hk Y sg. MarshalMsg (KexDHReplyMsg hk Y sg) = Ok q"
proof -
  obtain msg where u: "UnmarshalMsg T_kexDHInitMsg p = Ok msg" using assms by (auto simp: dh_Server_def res_simps)
  show ?thesis using assms u by (cases msg) (auto simp: dh_Server_def wrongKind_def res_simps Let_def)
qed

lemma ec_Server_reply:
  assumes "ecdh_Server hs c rs m s p = Ok (q, r) \<or> x25519_Server hs X rs' m s p = Ok (q, r)"
  shows "\<exists>hk pub sg. MarshalMsg (KexECDHReplyMsg hk pub sg) = Ok q"
proof -
  obtain msg where u: "UnmarshalMsg T_kexECDHInitMsg p = Ok msg"
    using assms by (auto simp: ecdh_Server_def x25519_Server_def res_simps)
  show ?thesis
    using assms u by (cases msg) (auto simp: ecdh_Server_def x25519_Server_def wrongKind_def res_simps Let_def split: if_splits)
qed

lemma kex_reply_internal:
  assumes "kex_Server E A rs m s p = Ok (q, r)"
  shows "\<not> userPacket q"
proof -
  have "(\<exists>hk Y sg. MarshalMsg (KexDHReplyMsg hk Y sg) = Ok q) \<or> (\<exists>hk pub sg. MarshalMsg (KexECDHReplyMsg hk pub sg) = Ok q)"
  proof (cases A)
    case (KexDH grp)
    then show ?thesis using assms dh_Server_reply by fastforce
  next
    case (KexECDH c)
    then have "ecdh_Server (kx_hash E) c (kx_ecKey rs, kx_werr rs) m s p = Ok (q, r)" using assms by simp
    then show ?thesis using ec_Server_reply by blast
  next
    case KexCurve25519
    then have "x25519_Server (kx_hash E) (kx_c25519 E) (kx_bytes rs, kx_werr rs) m s p = Ok (q, r)" using assms by simp
    then show ?thesis using ec_Server_reply by blast
  qed
  then show ?thesis using MarshalMsg_internal [where b = 31] by auto
qed

section \<open>Steps that hand in no packet\<close>

lemma sendKexInit_quiet:
  assumes "kc_write K = connW" "sendKexInit K cookie t = (t', e)"
  shows "hsQuiet t t'"
proof (cases "sentInitMsg t = None")
  case True
  obtain r where r: "MarshalMsg (kexInitMessage (kexInitOffer cookie t)) = r" by blast
  show ?thesis
  proof (cases r)
    case (Ok p)
    obtain t1 x where x: "pushPacket K p t = (t1, x)" by (cases "pushPacket K p t")
    have "hsQuiet t t1" using push_internal [OF assms(1) x] kexInit_internal r Ok by blast
    then show ?thesis
      using assms(2) True r Ok x by (cases x) (auto simp: sendKexInit_def Let_def hsQuiet_def)
  qed (use assms(2) True r in \<open>auto simp: sendKexInit_def Let_def\<close>)
qed (use assms(2) in \<open>simp add: sendKexInit_def\<close>)

lemma kexWait_quiet:
  assumes "kc_write K = connW" "kexWait K cookie ev req si t = Some (t', req', si', nxt)"
  shows "hsQuiet t t'"
proof -
  have q: "hsQuiet t (t\<lparr>startKex := x\<rparr>)" "hsQuiet t (t\<lparr>requestKex := b\<rparr>)" for x b by (simp_all add: hsQuiet_def)
  have s: "hsQuiet t t2" if "sendKexInit K cookie t1 = (t2, e)" "hsQuiet t t1" for t1 t2 e
    using sendKexInit_quiet [OF assms(1) that(1)] that(2) hsQuiet_trans by blast
  have r: "hsQuiet t (recordWriteError e t2)" if "hsQuiet t t2" for e t2
    using that by (auto simp: recordWriteError_def hsQuiet_def)
  show ?thesis
  proof (cases ev)
    case EvStart
    then show ?thesis
      using assms(2) q(1) s [OF _ q(1)] r
      by (auto simp: kexWait_def Let_def split: if_splits prod.splits res.splits)
  next
    case EvRequest
    then show ?thesis
      using assms(2) q(2) s [OF _ q(2)] r
      by (auto simp: kexWait_def Let_def split: if_splits prod.splits res.splits)
  qed (use assms(2) in \<open>auto simp: kexWait_def split: if_splits\<close>)
qed

lemma upd_quiet: "filter userPacket (sent c) = userLog t \<Longrightarrow> (conn_err (hconn t) \<noteq> None \<longrightarrow> conn_err c \<noteq> None) \<Longrightarrow> hsQuiet t (t\<lparr>hconn := c\<rparr>)"
  by (simp add: hsQuiet_def)

text \<open>The same for a bare connection.\<close>

definition cquiet :: "conn \<Rightarrow> conn \<Rightarrow> bool" where
  "cquiet c c' \<longleftrightarrow> filter userPacket (sent c') = filter userPacket (sent c) \<and> (conn_err c \<noteq> None \<longrightarrow> conn_err c' \<noteq> None)"

lemma cquiet_trans: "cquiet a b \<Longrightarrow> cquiet b c \<Longrightarrow> cquiet a c"
  by (auto simp: cquiet_def)

lemma cquiet_refl [simp]: "cquiet c c"
  by (simp add: cquiet_def)

lemma cquiet_write: "kc_write K = connW \<Longrightarrow> kc_write K p c = (c', e) \<Longrightarrow> \<not> userPacket p \<Longrightarrow> cquiet c c'"
  using connW_internal [of p c c' e] connW_err [of p c c' e] by (simp add: cquiet_def)

lemma cquiet_read: "logging K \<Longrightarrow> kc_read K c = Some (r, c') \<Longrightarrow> cquiet c c'"
  by (auto simp: logging_def cquiet_def)

lemma cquiet_prepare: "logging K \<Longrightarrow> kc_prepare K a kr c = Some (c', r) \<Longrightarrow> cquiet c c'"
  by (auto simp: logging_def cquiet_def)

lemma cquiet_upd: "cquiet (hconn t) c \<Longrightarrow> hsQuiet t (t\<lparr>hconn := c\<rparr>)"
  by (simp add: hsQuiet_def cquiet_def)

lemma kexServerRun_quiet:
  assumes "logging K" "kexServerRun K E A rs m key c = Some (c', r)"
  shows "cquiet c c'"
proof -
  have w: "kc_write K = connW" using assms(1) by (simp add: logging_def)
  show ?thesis
    using assms(2) cquiet_read [OF assms(1)] cquiet_write [OF w] kex_reply_internal cquiet_trans
    unfolding kexServerRun_def
    by (fastforce split: option.splits prod.splits res.splits)
qed

lemma kexClientRun_quiet:
  assumes "logging K" "kexClientRun K E C A rc m c = Some (c', r)"
  shows "cquiet c c'"
proof -
  have w: "kc_write K = connW" using assms(1) by (simp add: logging_def)
  show ?thesis
  proof (cases "kex_ClientStart E A (rc\<lparr>kx_werr := None\<rparr>)")
    case (Ok x)
    obtain st p where x: "x = (st, p)" by (cases x)
    obtain c1 e where k: "kc_write K p c = (c1, e)" by (cases "kc_write K p c")
    have "\<not> userPacket p" by (rule kex_start_internal) (use Ok x in simp)
    with cquiet_write [OF w k] have q: "cquiet c c1" by blast
    show ?thesis
    proof (cases e)
      case (Ok u)
      obtain r1 c2 where rd: "kc_read K c1 = Some (r1, c2)"
        using assms(2) \<open>kex_ClientStart _ _ _ = Ok x\<close> x k Ok by (auto simp: kexClientRun_def split: option.splits)
      have "c' = c2"
        using assms(2) \<open>kex_ClientStart _ _ _ = Ok x\<close> x k Ok rd by (cases r1) (auto simp: kexClientRun_def)
      then show ?thesis using cquiet_trans [OF q cquiet_read [OF assms(1) rd]] by simp
    qed (use assms(2) Ok x k q in \<open>simp_all add: kexClientRun_def\<close>)
  qed (use assms(2) in \<open>simp_all add: kexClientRun_def\<close>)
qed

lemma kexFinishSend_quiet:
  assumes "logging K" "kexFinishSend K algs r t = Some (t', e)"
  shows "hsQuiet t t'"
proof -
  have w: "kc_write K = connW" using assms(1) by (simp add: logging_def)
  obtain t1 r1 where s: "withSession r t = (t1, r1)" by (cases "withSession r t")
  have q: "hsQuiet t t1" "hconn t1 = hconn t" using s by (auto simp: withSession_def Let_def hsQuiet_def split: if_splits)
  obtain c x where p: "kc_prepare K algs r1 (hconn t1) = Some (c, x)"
    using assms(2) s by (auto simp: kexFinishSend_def split: option.splits)
  have q1: "hsQuiet t (t1\<lparr>hconn := c\<rparr>)"
    using hsQuiet_trans [OF q(1) cquiet_upd] cquiet_prepare [OF assms(1) p] by simp
  have i: "\<not> userPacket [msgNewKeys]" by (simp add: userPacket_def)
  show ?thesis
  proof (cases x)
    case (Ok u)
    then have "pushPacket K [msgNewKeys] (t1\<lparr>hconn := c\<rparr>) = (t', e)" using assms(2) s p by (simp add: kexFinishSend_def)
    from push_internal [OF w this i] q1 show ?thesis using hsQuiet_trans by blast
  qed (use assms(2) s p q1 in \<open>simp_all add: kexFinishSend_def\<close>)
qed

lemma kexFinishRead_quiet:
  assumes "logging K" "kexFinishRead K t = Some (t', e)"
  shows "hsQuiet t t'"
proof -
  obtain r c where r: "kc_read K (hconn t) = Some (r, c)" using assms(2) by (auto simp: kexFinishRead_def split: option.splits)
  have "t' = t\<lparr>hconn := c\<rparr>" using assms(2) r by (cases r) (auto simp: kexFinishRead_def split: list.splits)
  then show ?thesis using cquiet_upd [OF cquiet_read [OF assms(1) r]] by simp
qed

lemma runPlan_quiet:
  assumes L: "logging K" and e: "runPlan K E table C rnd plan t = Some (t', r)"
  shows "hsQuiet t t'"
proof -
  obtain g c where g: "(if kp_skipGuess plan then kc_read K (hconn t) else Some (Ok [], hconn t)) = Some (g, c)"
    using e by (cases "if kp_skipGuess plan then kc_read K (hconn t) else Some (Ok [], hconn t)") (auto simp: runPlan_def)
  have "cquiet (hconn t) c" using g cquiet_read [OF L] by (auto split: if_splits)
  then have qc: "hsQuiet t (t\<lparr>hconn := c\<rparr>)" by (rule cquiet_upd)
  define run where "run A = (if length (hostKeys t) > 0
      then kexServerRun K E A rnd (kp_magics plan) (pickHostKey (hostKey (kp_algs plan)) (hostKeys t) None) c
      else kexClientRun K E C A rnd (kp_magics plan) c)" for A
  have qr: "hsQuiet t (t\<lparr>hconn := c1\<rparr>)" if "run A = Some (c1, x)" for A c1 x
  proof -
    have "cquiet c c1"
      using that kexServerRun_quiet [OF L] kexClientRun_quiet [OF L] by (auto simp: run_def split: if_splits)
    then show ?thesis using hsQuiet_trans [OF qc cquiet_upd [of "t\<lparr>hconn := c\<rparr>" c1]] by simp
  qed
  show ?thesis
  proof (cases "\<exists>u A c1 x. g = Ok u \<and> table (kex (kp_algs plan)) = Some A \<and> run A = Some (c1, Ok x)")
    case False
    then show ?thesis
      using e qc qr unfolding runPlan_def g option.case prod.case run_def [symmetric]
      by (auto split: res.splits option.splits prod.splits)
  next
    case True
    then obtain u A c1 x where r: "g = Ok u" "table (kex (kp_algs plan)) = Some A" "run A = Some (c1, Ok x)" by blast
    have eq: "Some (t', r) = (case kexFinishSend K (kp_algs plan) x (t\<lparr>hconn := c1\<rparr>) of
        None \<Rightarrow> None | Some (t2, Ok _) \<Rightarrow> kexFinishRead K t2 | Some (t2, e) \<Rightarrow> Some (t2, e))"
      using e r unfolding runPlan_def g option.case prod.case run_def [symmetric] by simp
    then obtain t2 y where f: "kexFinishSend K (kp_algs plan) x (t\<lparr>hconn := c1\<rparr>) = Some (t2, y)"
      by (auto split: option.splits)
    have q2: "hsQuiet t t2" using qr [OF r(3)] kexFinishSend_quiet [OF L f] hsQuiet_trans by blast
    show ?thesis
    proof (cases y)
      case (Ok v)
      then have "kexFinishRead K t2 = Some (t', r)" using eq f by simp
      then show ?thesis using q2 kexFinishRead_quiet [OF L] hsQuiet_trans by blast
    qed (use eq f q2 in simp_all)
  qed
qed

lemma enter_quiet:
  assumes L: "logging K" and e: "enterKeyExchange K E table C rnd init t = Some (t', r)"
  shows "hsQuiet t t'"
proof -
  have a: "hsQuiet t (t\<lparr>ht_algorithms := x\<rparr>)" for x by (simp add: hsQuiet_def)
  show ?thesis
    using e a hsQuiet_trans [OF a runPlan_quiet [OF L]] by (auto simp: enterKeyExchange_def split: res.splits)
qed

lemma readBegin_quiet:
  assumes "logging K" "readBegin K first t = Some (t', o')"
  shows "hsQuiet t t'"
proof -
  obtain r c where r: "kc_read K (hconn t) = Some (r, c)" using assms(2) by (auto simp: readBegin_def split: option.splits)
  have q: "hsQuiet t (t\<lparr>hconn := c\<rparr>)" by (rule cquiet_upd [OF cquiet_read [OF assms(1) r]])
  have "hsQuiet t (readCount p (t\<lparr>hconn := c\<rparr>))" for p
    using q by (auto simp: readCount_def Let_def hsQuiet_def requestKeyExchange_def)
  then show ?thesis using assms(2) r q by (cases r) (auto simp: readBegin_def Let_def)
qed

lemma readDeliver_quiet: "readDeliver stop o' t = Ok (t', b) \<Longrightarrow> hsQuiet t t'"
  by (auto simp: readDeliver_def hsQuiet_def recordWriteError_def Let_def split: readOut.splits list.splits if_splits)

lemma readEnd_quiet: "hsQuiet t (fst (readEnd_kex f d t))"
  by (cases d) (simp_all add: readEnd_kex_def hsQuiet_def resetReadThresholds_def)

section \<open>The invariant\<close>

lemma write_inv:
  assumes w: "kc_write K = connW" and i: "hsInv (t, acc)" and u: "userPacket p" and e: "ht_writePacket K p t = Some (t', Ok ())"
  shows "hsInv (t', acc @ [p])"
proof -
  obtain b q where p: "p = b # q" using u by (cases p) (auto simp: userPacket_def)
  have nb: "b \<noteq> msgKexInit" "b \<noteq> msgNewKeys" using u p by (auto simp: userPacket_def)
  have l: "\<not> ht_locked t" "writeError t = None" using e p nb by (auto simp: ht_writePacket_def split: if_splits option.splits)
  show ?thesis
  proof (cases "sentInitMsg t = None")
    case False
    then have "t' = t\<lparr>pendingPackets := pendingPackets t @ [p]\<rparr>" using e p nb l by (simp add: ht_writePacket_def)
    then show ?thesis using i False l by (auto simp: hsInv_def)
  next
    case True
    define t2 where "t2 = writeCount p t"
    have t2: "hconn t2 = hconn t" "pendingPackets t2 = pendingPackets t" "sentInitMsg t2 = sentInitMsg t" "ht_locked t2 = ht_locked t"
      by (simp_all add: t2_def writeCount_def Let_def requestKeyExchange_def)
    have pend: "pendingPackets t = []" using i True l by (simp add: hsInv_def)
    show ?thesis
    proof (cases "conn_err (hconn t)")
      case None
      then have "pushPacket K p t2 = (t2\<lparr>hconn := (hconn t)\<lparr>sent := sent (hconn t) @ [p]\<rparr>\<rparr>, Ok ())"
        using w t2(1) by (simp add: pushPacket_def connW_def connWrite_def)
      then have "t' = t2\<lparr>hconn := (hconn t)\<lparr>sent := sent (hconn t) @ [p]\<rparr>\<rparr>"
        using e nb l True by (simp add: ht_writePacket_def p t2_def)
      then show ?thesis using i None u t2 pend l by (simp add: hsInv_def)
    next
      case (Some x)
      then have "pushPacket K p t2 = (t2, Err x)"
        using w t2(1) by (simp add: pushPacket_def connW_def connWrite_def)
      then have "t' = t2\<lparr>writeError := Some x\<rparr>"
        using e nb l True by (simp add: ht_writePacket_def p t2_def)
      then show ?thesis using i Some t2 pend by (auto simp: hsInv_def)
    qed
  qed
qed

lemma flush_ok:
  assumes "kc_write K = connW" "conn_err (hconn t) = None" "\<forall>p \<in> set ps. userPacket p"
  shows "\<exists>t'. flushPending K ps t = Ok t' \<and> userLog t' = userLog t @ ps \<and> conn_err (hconn t') = None \<and>
    sentInitMsg t' = sentInitMsg t \<and> ht_locked t' = ht_locked t \<and> (ps \<noteq> [] \<longrightarrow> writeError t' = None)"
  using assms(2,3)
proof (induction ps arbitrary: t)
  case (Cons p ps)
  let ?t = "t\<lparr>hconn := (hconn t)\<lparr>sent := sent (hconn t) @ [p]\<rparr>, writeError := None\<rparr>"
  have "flushPending K (p # ps) t = flushPending K ps ?t"
    using Cons.prems assms(1) by (simp add: pushPacket_def connW_def connWrite_def)
  moreover have "ps = [] \<Longrightarrow> flushPending K ps ?t = Ok ?t" by simp
  ultimately show ?case using Cons.IH [of ?t] Cons.prems by auto
qed simp

lemma flush_broken:
  assumes "kc_write K = connW" "conn_err (hconn t) \<noteq> None" "flushPending K ps t = Ok t'"
  shows "hconn t' = hconn t \<and> sentInitMsg t' = sentInitMsg t \<and> ht_locked t' = ht_locked t"
  using assms by (cases ps) (auto simp: pushPacket_def connW_def connWrite_def)

text \<open>Pending packets are packets of users.\<close>

definition hsPending :: "conn handshakeTransport \<Rightarrow> bool" where
  "hsPending t \<longleftrightarrow> (\<forall>p \<in> set (pendingPackets t). userPacket p)"

lemma finish_inv:
  assumes w: "kc_write K = connW" and i: "hsInv (t, acc)" "hsPending t" "\<not> ht_locked t" and e: "kexComplete K stop err t = Ok t'"
  shows "hsInv (t', acc) \<and> hsPending t'"
proof -
  define t1 where "t1 = (resetWriteThresholds (t\<lparr>writeError := err, sentInitPacket := None, sentInitMsg := None\<rparr>))\<lparr>requestKex := False\<rparr>"
  have t1: "hconn t1 = hconn t" "pendingPackets t1 = pendingPackets t" "sentInitMsg t1 = None" "ht_locked t1 = ht_locked t"
    by (simp_all add: t1_def resetWriteThresholds_def)
  show ?thesis
  proof (cases stop)
    case True
    then have "t' = t1\<lparr>ht_locked := True\<rparr>" using e by (simp add: kexComplete_def t1_def)
    then show ?thesis using i t1 by (auto simp: hsInv_def hsPending_def)
  next
    case False
    then obtain t2 where t2: "flushPending K (pendingPackets t) t1 = Ok t2" "t' = t2\<lparr>pendingPackets := []\<rparr>"
      using e t1(2) by (auto simp: kexComplete_def t1_def [symmetric] res_simps)
    show ?thesis
    proof (cases "conn_err (hconn t)")
      case None
      then obtain t3 where "flushPending K (pendingPackets t) t1 = Ok t3" "userLog t3 = userLog t1 @ pendingPackets t" "ht_locked t3 = ht_locked t1"
        using flush_ok [OF w, of t1 "pendingPackets t"] i(2) t1 by (auto simp: hsPending_def)
      then have "userLog t2 = userLog t @ pendingPackets t" "ht_locked t2 = ht_locked t" using t2(1) t1 by simp_all
      moreover have "prefix (userLog t) acc" "\<not> ht_locked t \<longrightarrow> userLog t @ pendingPackets t = acc" using i(1) None by (auto simp: hsInv_def)
      ultimately show ?thesis using t2(2) i(3) by (simp add: hsInv_def hsPending_def)
    next
      case (Some x)
      then have "hconn t2 = hconn t" using flush_broken [OF w _ t2(1)] t1 by simp
      then show ?thesis using t2(2) i Some by (auto simp: hsInv_def hsPending_def)
    qed
  qed
qed

lemma write_pending:
  assumes "hsPending t" "userPacket p" "ht_writePacket K p t = Some (t', Ok ())"
  shows "hsPending t'"
proof -
  have c: "pendingPackets (writeCount p t) = pendingPackets t" by (simp add: writeCount_def Let_def requestKeyExchange_def)
  have "pendingPackets t' \<in> {pendingPackets t, pendingPackets t @ [p]}"
    using assms(3) c by (auto simp: ht_writePacket_def pushPacket_def split: list.splits if_splits option.splits prod.splits res.splits)
  then show ?thesis using assms(1,2) by (auto simp: hsPending_def)
qed

lemma quiet_step:
  assumes K: "logging K" and s: "hsStep K E (t, acc) (t', acc')"
  shows "(hsQuiet t t' \<and> acc' = acc) \<or> (\<exists>p. userPacket p \<and> ht_writePacket K p t = Some (t', Ok ()) \<and> acc' = acc @ [p]) \<or>
    (\<exists>stop e. \<not> ht_locked t \<and> kexComplete K stop e t = Ok t' \<and> acc' = acc)"
  using s
proof (cases rule: hsStep.cases)
  case (hsOffer cookie ev req si req' si' nxt)
  then show ?thesis using kexWait_quiet K by (auto simp: logging_def)
next
  case (hsExchange rnd init r)
  then show ?thesis using enter_quiet [OF K] by blast
next
  case (hsRead first t1 o' stop b)
  then show ?thesis using readBegin_quiet [OF K] readDeliver_quiet hsQuiet_trans by blast
next
  case (hsReadStart first t1 p f)
  then have "hsQuiet t1 t'" by (auto simp: sendStartKex_def hsQuiet_def split: if_splits)
  then show ?thesis using hsReadStart readBegin_quiet [OF K] hsQuiet_trans by blast
next
  case (hsReadKex stop first d b)
  then show ?thesis using readEnd_quiet readDeliver_quiet hsQuiet_trans by blast
next
  case hsBreak
  then show ?thesis by (auto simp: hsQuiet_def)
qed blast+

lemma step_inv:
  assumes K: "logging K" and s: "hsStep K E (t, acc) (t', acc')" and i: "hsInv (t, acc)" "hsPending t"
  shows "hsInv (t', acc') \<and> hsPending t'"
proof -
  have w: "kc_write K = connW" using K by (simp add: logging_def)
  from quiet_step [OF K s] show ?thesis
  proof (elim disjE exE conjE)
    assume q: "hsQuiet t t'" "acc' = acc"
    then have "hsPending t'" using i(2) by (simp add: hsQuiet_def hsPending_def)
    then show ?thesis using hsQuiet_inv [OF q(1) i(1)] q(2) by simp
  next
    fix p assume p: "userPacket p" "ht_writePacket K p t = Some (t', Ok ())" "acc' = acc @ [p]"
    then show ?thesis using write_inv [OF w i(1) p(1,2)] write_pending [OF i(2) p(1,2)] by simp
  next
    fix stop e assume "\<not> ht_locked t" "kexComplete K stop e t = Ok t'" "acc' = acc"
    then show ?thesis using finish_inv [OF w i] by blast
  qed
qed

lemma run_inv:
  assumes "logging K" "(hsStep K E)\<^sup>*\<^sup>* s s'" "hsInv s" "hsPending (fst s)"
  shows "hsInv s' \<and> hsPending (fst s')"
  using assms(2)
proof (induction rule: rtranclp_induct)
  case (step y z)
  then show ?case using step_inv [OF assms(1), of E "fst y" "snd y" "fst z" "snd z"] by (cases y; cases z) auto
qed (use assms(3,4) in simp)

lemma new_inv:
  assumes "newHandshakeTransport False c config cv sv = Some t" "filter userPacket (sent c) = []"
  shows "hsInv (t, []) \<and> hsPending t"
  using assms by (auto simp: newHandshakeTransport_def Let_def requestKeyExchange_def resetWriteThresholds_def
    resetReadThresholds_def hsInv_def hsPending_def)

lemma locked_write: "ht_locked t \<Longrightarrow> ht_writePacket K p t \<noteq> Some (t', Ok ())"
  by (cases p) (simp_all add: ht_writePacket_def)

lemma locked_step:
  assumes K: "logging K" and s: "hsStep K E (t, acc) (t', acc')" and l: "ht_locked t"
  shows "ht_locked t' \<and> acc' = acc"
  using quiet_step [OF K s] l locked_write by (auto simp: hsQuiet_def)

lemma locked_run:
  assumes "logging K" "(hsStep K E)\<^sup>*\<^sup>* s s'" "ht_locked (fst s)"
  shows "ht_locked (fst s') \<and> snd s' = snd s"
  using assms(2)
proof (induction rule: rtranclp_induct)
  case (step y z)
  then show ?case using locked_step [OF assms(1), of E "fst y" "snd y" "fst z" "snd z"] by (cases y; cases z) simp
qed (use assms(3) in simp)

section \<open>Thresholds\<close>

text \<open>A sequence of writes while no exchange is in progress.\<close>

fun hsWrites :: "'c keyingTransport \<Rightarrow> bytes list \<Rightarrow> 'c handshakeTransport \<Rightarrow> 'c handshakeTransport option" where
  "hsWrites K [] t = Some t"
| "hsWrites K (p # ps) t =
     (case ht_writePacket K p t of Some (t', Ok _) \<Rightarrow> hsWrites K ps t' | _ \<Rightarrow> None)"

lemma write_counts:
  assumes "ht_writePacket K p t = Some (t', Ok ())" "sentInitMsg t = None"
  shows "sentInitMsg t' = None \<and>
    requestKex t' = (requestKex t \<or> writeBytesLeft t \<le> 0 \<or> writePacketsLeft t = 0) \<and>
    writeBytesLeft t' = (if writeBytesLeft t > 0 then writeBytesLeft t - int (length p) else writeBytesLeft t) \<and>
    writePacketsLeft t' = (if writePacketsLeft t = 0 then 0 else writePacketsLeft t - 1)"
proof -
  obtain c e where k: "kc_write K p (hconn t) = (c, e)" by (cases "kc_write K p (hconn t)")
  have h: "hconn (writeCount p t) = hconn t" by (simp add: writeCount_def Let_def requestKeyExchange_def)
  have "t' = (writeCount p t)\<lparr>hconn := c\<rparr> \<or> (\<exists>x. t' = (writeCount p t)\<lparr>hconn := c, writeError := x\<rparr>)"
    using assms k h by (auto simp: ht_writePacket_def pushPacket_def split: list.splits if_splits option.splits res.splits)
  moreover have "writePacketsLeft t = 0 \<or> 0 < writePacketsLeft t" using word_neq_0_conv by blast
  ultimately show ?thesis using assms(2)
    by (auto simp: writeCount_def Let_def requestKeyExchange_def)
qed

lemma writes_request:
  assumes "hsWrites K ps t = Some t'" "sentInitMsg t = None"
  shows "sentInitMsg t' = None \<and> (requestKex t' \<longleftrightarrow> requestKex t \<or> unat (writePacketsLeft t) < length ps \<or>
    (ps \<noteq> [] \<and> writeBytesLeft t \<le> int (sum_list (map length (butlast ps)))))"
  using assms
proof (induction ps arbitrary: t)
  case (Cons p ps)
  obtain t1 where w: "ht_writePacket K p t = Some (t1, Ok ())" "hsWrites K ps t1 = Some t'"
    using Cons.prems(1) by (auto split: option.splits prod.splits res.splits)
  note c = write_counts [OF w(1) Cons.prems(2)]
  have u: "unat (writePacketsLeft t1) = unat (writePacketsLeft t) - 1"
    using c by (simp add: unat_minus_one)
  have z: "writePacketsLeft t = 0 \<longleftrightarrow> unat (writePacketsLeft t) = 0" by (simp add: unat_eq_0)
  have "unat (writePacketsLeft t1) < length ps \<or> writePacketsLeft t = 0 \<longleftrightarrow> unat (writePacketsLeft t) < length (p # ps)"
    unfolding u z by auto
  moreover have "writeBytesLeft t \<le> 0 \<or> (ps \<noteq> [] \<and> writeBytesLeft t1 \<le> int (sum_list (map length (butlast ps)))) \<longleftrightarrow>
      writeBytesLeft t \<le> int (sum_list (map length (butlast (p # ps))))"
    using c by (cases ps) auto
  ultimately show ?case using Cons.IH [OF w(2)] c by auto
qed simp

section \<open>Both sides make the same plan\<close>

lemma sendKexInit_sent:
  assumes "sendKexInit K cookie t = (t', Ok ())" "sentInitMsg t = None"
  shows "\<exists>p. MarshalMsg (kexInitMessage (kexInitOffer cookie t)) = Ok p \<and> sentInitPacket t' = Some p \<and>
    sentInitMsg t' = Some (kexInitOffer cookie t) \<and> hostKeys t' = hostKeys t \<and>
    ht_clientVersion t' = ht_clientVersion t \<and> ht_serverVersion t' = ht_serverVersion t"
  using assms by (auto simp: sendKexInit_def pushPacket_def Let_def split: res.splits prod.splits)

lemma kexInitFrom_sent:
  assumes "msg_ok (kexInitMessage k)" "MarshalMsg (kexInitMessage k) = Ok p" "length p < 2 ^ 32"
  shows "kexInitFrom p = Ok k"
proof -
  have "p = msgBytes (kexInitMessage k)" using MarshalMsg_ok [OF assms(1)] assms(2) by simp
  then show ?thesis
    using UnmarshalMsg_msgBytes [OF assms(1)] assms(3) by (simp add: kexInitFrom_def res_simps kexInitMessage_def)
qed

lemma sent_plan:
  assumes "planKex p t = Ok plan" "kexInitFrom p = Ok other" "sentInitMsg t = Some own" "sentInitPacket t = Some q"
  shows "kp_magics plan = \<lparr>clientVersion = ht_clientVersion t, serverVersion = ht_serverVersion t,
      clientKexInit = (if hostKeys t = [] then q else p), serverKexInit = (if hostKeys t = [] then p else q)\<rparr> \<and>
    findAgreedAlgorithms (if hostKeys t = [] then own else other) (if hostKeys t = [] then other else own) = Ok (kp_algs plan)"
  using assms by (auto simp: planKex_def res_simps Let_def split: if_splits)

section \<open>A concrete transport\<close>

definition logK :: "conn keyingTransport" where
  "logK = \<lparr>kc_write = connW, kc_read = (\<lambda>_. None), kc_prepare = (\<lambda>_ _ _. None)\<rparr>"

definition toyEnv :: kexEnv where
  "toyEnv = \<lparr>ke_prims = toyKex, ke_table = (\<lambda>_. None), ke_checks = \<lparr>hk_parse = (\<lambda>_. Err IoEOF), hk_callback = (\<lambda>_. Ok ())\<rparr>\<rparr>"

definition bareConfig :: "(unit, unit) Config" where
  "bareConfig = \<lparr>Rand = None, RekeyThreshold = 0, KeyExchanges = None, Ciphers = None, MACs = None, Halt = None\<rparr>"

definition toyTransport :: "conn handshakeTransport" where
  "toyTransport = the (newHandshakeTransport False \<lparr>sent = [], conn_err = None\<rparr> bareConfig [1] [2])"

lemma logK_logging: "logging logK"
  by (simp add: logging_def logK_def)

lemma toyTransport_eq: "newHandshakeTransport False \<lparr>sent = [], conn_err = None\<rparr> bareConfig [1] [2] = Some toyTransport"
  by (simp add: toyTransport_def newHandshakeTransport_def Let_def)

lemmas toy_defs = toyTransport_def newHandshakeTransport_def requestKeyExchange_def resetWriteThresholds_def
  resetReadThresholds_def bytesThreshold_def bareConfig_def packetRekeyThreshold_def logK_def

lemma bare_offer_ok:
  assumes "ht_config t = bareConfig" "hostKeys t = []" "hostKeyAlgorithms t = []" "length cookie = 16"
  shows "msg_ok (kexInitMessage (kexInitOffer cookie t))"
  using assms by (simp add: msg_ok_def kexInitMessage_def kexInitOffer_def nilSlice_def bareConfig_def names_ok_def
    supportedCompressions_def bytes_of_string_def byte_of_char_def comma_def)

lemma offer_step:
  assumes "requestKex t" "sentInitMsg t = None" "conn_err (hconn t) = None" "msg_ok (kexInitMessage (kexInitOffer cookie t))"
  shows "\<exists>t'. kexWait logK cookie EvRequest None False t = Some (t', None, True, KxWait) \<and> sentInitMsg t' \<noteq> None \<and>
    writeError t' = writeError t \<and> ht_locked t' = ht_locked t \<and> conn_err (hconn t') = None"
proof -
  have "kexInitOffer cookie (t\<lparr>requestKex := False\<rparr>) = kexInitOffer cookie t" by (simp add: kexInitOffer_def)
  then show ?thesis
    using assms MarshalMsg_ok [OF assms(4)]
    by (simp add: kexWait_def Let_def sendKexInit_def pushPacket_def logK_def connW_def connWrite_def kexAfter_def)
qed

definition plainConfig :: "(unit, unit) Config" where
  "plainConfig = bareConfig\<lparr>KeyExchanges := Some [''k''], Ciphers := Some [''c''], MACs := Some [''m'']\<rparr>"

definition toyClient :: "conn handshakeTransport" where
  "toyClient = toyTransport\<lparr>ht_config := plainConfig, hostKeyAlgorithms := [''ssh-rsa'']\<rparr>"

definition toyServer :: "conn handshakeTransport" where
  "toyServer = toyTransport\<lparr>ht_config := plainConfig, hostKeys := [toySigner]\<rparr>"

lemma toyTransport_fields [simp]:
  "hostKeys toyTransport = []" "sentInitMsg toyTransport = None" "hconn toyTransport = \<lparr>sent = [], conn_err = None\<rparr>"
  "ht_clientVersion toyTransport = [1]" "ht_serverVersion toyTransport = [2]"
  by (simp_all add: toy_defs Let_def)

lemma toy_offers_ok:
  "msg_ok (kexInitMessage (kexInitOffer (replicate 16 b) toyClient))"
  "msg_ok (kexInitMessage (kexInitOffer (replicate 16 b) toyServer))"
  by (simp_all add: msg_ok_def kexInitMessage_def kexInitOffer_def nilSlice_def plainConfig_def bareConfig_def names_ok_def
    toyClient_def toyServer_def toySigner_def supportedCompressions_def bytes_of_string_def byte_of_char_def comma_def)

lemma toy_send:
  assumes "sentInitMsg t = None" "conn_err (hconn t) = None" "msg_ok (kexInitMessage (kexInitOffer cookie t))"
  shows "\<exists>t' p. sendKexInit logK cookie t = (t', Ok ()) \<and> sentInitPacket t' = Some p \<and> p = msgBytes (kexInitMessage (kexInitOffer cookie t))"
  using assms MarshalMsg_ok [OF assms(3)]
  by (auto simp: sendKexInit_def Let_def pushPacket_def logK_def connW_def connWrite_def)

lemma toy_agreed:
  "\<exists>a. findAgreedAlgorithms (kexInitOffer x toyClient) (kexInitOffer y toyServer) = Ok a"
  by (simp add: findAgreedAlgorithms_def findCommon_def kexInitOffer_def toyClient_def toyServer_def nilSlice_def
    plainConfig_def toySigner_def supportedCompressions_def res_simps)

lemma toy_plans:
  assumes "sendKexInit logK (replicate 16 0) toyClient = (tc, Ok ())" "sendKexInit logK (replicate 16 1) toyServer = (ts, Ok ())"
    and "sentInitPacket tc = Some pc" "sentInitPacket ts = Some ps" "length pc < 2 ^ 32" "length ps < 2 ^ 32"
  shows "\<exists>a b. planKex ps tc = Ok a \<and> planKex pc ts = Ok b"
proof -
  have n: "sentInitMsg toyClient = None" "sentInitMsg toyServer = None" by (simp_all add: toyClient_def toyServer_def)
  note c = sendKexInit_sent [OF assms(1) n(1)] and s = sendKexInit_sent [OF assms(2) n(2)]
  have f: "kexInitFrom pc = Ok (kexInitOffer (replicate 16 0) toyClient)" "kexInitFrom ps = Ok (kexInitOffer (replicate 16 1) toyServer)"
    using c s kexInitFrom_sent assms toy_offers_ok by auto
  have g: "wrongGuess (kexInitOffer x t) u v = Ok False" for x t u v by (simp add: wrongGuess_def kexInitOffer_def)
  obtain a where "findAgreedAlgorithms (kexInitOffer (replicate 16 0) toyClient) (kexInitOffer (replicate 16 1) toyServer) = Ok a"
    using toy_agreed by blast
  then show ?thesis using f c s assms(3,4) by (auto simp: planKex_def Let_def res_simps toyClient_def toyServer_def g)
qed

lemma toy_offer_short:
  "length (msgBytes (kexInitMessage (kexInitOffer (replicate 16 b) toyClient))) < 2 ^ 32"
  "length (msgBytes (kexInitMessage (kexInitOffer (replicate 16 b) toyServer))) < 2 ^ 32"
  by (simp_all add: msgBytes_tag kexInitMessage_def kexInitOffer_def toyClient_def toyServer_def nilSlice_def plainConfig_def
    bareConfig_def toySigner_def supportedCompressions_def bytes_of_string_def writeString_def)

section \<open>Properties\<close>

text \<open>C5: The write side of the handshake transport is a queue. Whatever the interleaving of writes, offers,
  exchanges (failed ones included), ends of exchanges, reads and a break of the connection, the users' packets on
  the connection are a prefix of the packets accepted so far, in order; while the connection works
  and the mutex is free, those on the connection followed by the pending ones are all of them; and outside an exchange
  none is pending.\<close>

theorem hs_queue:
  assumes "logging K" "newHandshakeTransport False c config cv sv = Some t0" "filter userPacket (sent c) = []"
    and "(hsStep K E)\<^sup>*\<^sup>* (t0, []) (t, acc)"
  shows "prefix (userLog t) acc \<and>
    (conn_err (hconn t) = None \<and> \<not> ht_locked t \<longrightarrow> userLog t @ pendingPackets t = acc) \<and>
    (sentInitMsg t = None \<and> \<not> ht_locked t \<longrightarrow> pendingPackets t = [])"
  using run_inv [OF assms(1,4)] new_inv [OF assms(2,3)] by (simp add: hsInv_def)

lemma hs_queue_witness:
  "\<exists>t. (hsStep logK toyEnv)\<^sup>*\<^sup>* (toyTransport, []) (t, [[94, 1], [94, 2]]) \<and>
     userLog t = [[94, 1]] \<and> pendingPackets t = [[94, 2]]"
proof -
  obtain t1 where t1: "ht_writePacket logK [94, 1] toyTransport = Some (t1, Ok ())" "userLog t1 = [[94, 1]]"
     "requestKex t1" "sentInitMsg t1 = None" "writeError t1 = None" "\<not> ht_locked t1" "conn_err (hconn t1) = None"
     "ht_config t1 = bareConfig" "hostKeys t1 = []" "hostKeyAlgorithms t1 = []"
    by (simp add: toy_defs ht_writePacket_def writeCount_def Let_def pushPacket_def connW_def connWrite_def userPacket_def)
  obtain t2 where t2: "kexWait logK (replicate 16 0) EvRequest None False t1 = Some (t2, None, True, KxWait)"
     "sentInitMsg t2 \<noteq> None" "writeError t2 = None" "\<not> ht_locked t2" "conn_err (hconn t2) = None"
    using offer_step [OF t1(3,4,7) bare_offer_ok [OF t1(8-10), of "replicate 16 0"]] t1(5,6) by auto
  have q: "userLog t2 = userLog t1" using kexWait_quiet [OF _ t2(1)] by (simp add: logK_def hsQuiet_def)
  obtain t3 where t3: "ht_writePacket logK [94, 2] t2 = Some (t3, Ok ())" "userLog t3 = userLog t2" "conn_err (hconn t3) = None" "\<not> ht_locked t3"
    using t2 by (simp add: ht_writePacket_def)
  have s: "hsStep logK toyEnv (toyTransport, []) (t1, [] @ [[94, 1]])" by (rule hsWrite [OF _ t1(1)]) (simp add: userPacket_def)
  have s': "hsStep logK toyEnv (t1, [] @ [[94, 1]]) (t2, [] @ [[94, 1]])" by (rule hsOffer [OF t2(1)])
  have s'': "hsStep logK toyEnv (t2, [] @ [[94, 1]]) (t3, ([] @ [[94, 1]]) @ [[94, 2]])" by (rule hsWrite [OF _ t3(1)]) (simp add: userPacket_def)
  have r: "(hsStep logK toyEnv)\<^sup>*\<^sup>* (toyTransport, []) (t3, [[94, 1], [94, 2]])"
    using rtranclp.rtrancl_into_rtrancl [OF rtranclp.rtrancl_into_rtrancl [OF r_into_rtranclp [of "hsStep logK toyEnv", OF s] s'] s''] by simp
  from hs_queue [OF logK_logging toyTransport_eq _ r] t3 q t1(2) show ?thesis using r by auto
qed

text \<open>C36: A failed exchange does not stop the traffic it held back. When packets are pending, the end of an
  exchange that returned an error sends all of them, and the error is forgotten: later writes succeed.\<close>

theorem failed_exchange_forgotten:
  assumes "logging K" "conn_err (hconn t) = None" "pendingPackets t \<noteq> []" "hsPending t"
  shows "\<exists>t'. kexComplete K False (Some e) t = Ok t' \<and> writeError t' = None \<and> sentInitMsg t' = None \<and>
    userLog t' = userLog t @ pendingPackets t \<and> pendingPackets t' = []"
proof -
  let ?t = "(resetWriteThresholds (t\<lparr>writeError := Some e, sentInitPacket := None, sentInitMsg := None\<rparr>))\<lparr>requestKex := False\<rparr>"
  have "kc_write K = connW" "conn_err (hconn ?t) = None" "\<forall>p \<in> set (pendingPackets t). userPacket p"
    using assms by (simp_all add: logging_def resetWriteThresholds_def hsPending_def)
  from flush_ok [OF this] assms(3) show ?thesis
    by (auto simp: kexComplete_def res_simps resetWriteThresholds_def)
qed

lemma failed_exchange_forgotten_witness:
  "\<exists>t'. kexComplete logK False (Some IoEOF) (toyTransport\<lparr>pendingPackets := [[94]]\<rparr>) = Ok t' \<and> writeError t' = None \<and>
    userLog t' = [[94]]"
  using failed_exchange_forgotten [OF logK_logging, of "toyTransport\<lparr>pendingPackets := [[94]]\<rparr>" IoEOF]
  by (simp add: hsPending_def userPacket_def toy_defs Let_def) (auto simp: userPacket_def)

text \<open>When the shutdown wins the select at the end of an exchange, \<open>kexLoop\<close> returns with the mutex held:
  from then on, whatever happens, no packet is accepted and every write of a packet blocks for ever.\<close>

theorem shutdown_blocks_writers:
  assumes "logging K" "kexComplete K True e t = Ok t1" "(hsStep K E)\<^sup>*\<^sup>* (t1, acc) (t', acc')"
  shows "acc' = acc \<and> (hd p \<noteq> msgKexInit \<and> hd p \<noteq> msgNewKeys \<and> p \<noteq> [] \<longrightarrow> ht_writePacket K p t' = None)"
proof -
  have "ht_locked t1" using assms(2) by (auto simp: kexComplete_def)
  then have "ht_locked t'" "acc' = acc" using locked_run [OF assms(1,3)] by simp_all
  then show ?thesis by (cases p) (simp_all add: ht_writePacket_def)
qed

lemma shutdown_blocks_writers_witness:
  "\<exists>t1. kexComplete logK True None toyTransport = Ok t1 \<and> ht_writePacket logK [94] t1 = None"
proof -
  obtain t1 where t1: "kexComplete logK True None toyTransport = Ok t1" by (auto simp: kexComplete_def Let_def)
  from shutdown_blocks_writers [OF logK_logging t1 rtranclp.rtrancl_refl, where p = "[94]"] t1 show ?thesis by simp
qed

text \<open>When a rekeying is requested. In a run of accepted writes outside an exchange, a key exchange is requested
  exactly when more packets were written than the packet threshold left, or the bytes of all but the last
  packet reached the byte threshold.\<close>

theorem rekey_requested_iff:
  assumes "hsWrites K ps t = Some t'" "sentInitMsg t = None"
  shows "requestKex t' \<longleftrightarrow> requestKex t \<or> unat (writePacketsLeft t) < length ps \<or>
    (ps \<noteq> [] \<and> writeBytesLeft t \<le> int (sum_list (map length (butlast ps))))"
  using writes_request [OF assms] by blast

lemma rekey_requested_iff_witness:
  "\<exists>t'. hsWrites logK [[94, 1], [95]] (toyTransport\<lparr>requestKex := False, writeBytesLeft := 2\<rparr>) = Some t' \<and> requestKex t'"
proof -
  let ?t = "toyTransport\<lparr>requestKex := False, writeBytesLeft := 2\<rparr>"
  obtain t' where t': "hsWrites logK [[94, 1], [95]] ?t = Some t'"
    by (simp add: toy_defs ht_writePacket_def writeCount_def Let_def pushPacket_def connW_def connWrite_def)
  have "sentInitMsg ?t = None" by (simp add: toy_defs Let_def)
  from rekey_requested_iff [OF t' this] t' show ?thesis by simp
qed

text \<open>C35: Both sides make the same plan. When client and server have sent their offers and each reads the
  other's packet, the plans have the same versions and offers to hash and the same algorithms.\<close>

theorem plans_agree:
  assumes "sendKexInit Kc cookieC tc = (tc', Ok ())" "sendKexInit Ks cookieS ts = (ts', Ok ())"
    and "sentInitMsg tc = None" "sentInitMsg ts = None" "hostKeys tc = []" "hostKeys ts \<noteq> []"
    and "ht_clientVersion tc = ht_clientVersion ts" "ht_serverVersion tc = ht_serverVersion ts"
    and "msg_ok (kexInitMessage (kexInitOffer cookieC tc))" "msg_ok (kexInitMessage (kexInitOffer cookieS ts))"
    and "sentInitPacket tc' = Some pc" "sentInitPacket ts' = Some ps" "length pc < 2 ^ 32" "length ps < 2 ^ 32"
    and "planKex ps tc' = Ok a" "planKex pc ts' = Ok b"
  shows "kp_magics a = kp_magics b \<and> kp_algs a = kp_algs b"
proof -
  note c = sendKexInit_sent [OF assms(1,3)] and s = sendKexInit_sent [OF assms(2,4)]
  have "kexInitFrom pc = Ok (kexInitOffer cookieC tc)" "kexInitFrom ps = Ok (kexInitOffer cookieS ts)"
    using c s kexInitFrom_sent assms by auto
  then show ?thesis
    using sent_plan [OF assms(15)] sent_plan [OF assms(16)] c s assms by auto
qed

lemma plans_agree_witness:
  "\<exists>tc ts pc ps a b. sendKexInit logK (replicate 16 0) toyClient = (tc, Ok ()) \<and> sendKexInit logK (replicate 16 1) toyServer = (ts, Ok ()) \<and>
    sentInitPacket tc = Some pc \<and> sentInitPacket ts = Some ps \<and> planKex ps tc = Ok a \<and> planKex pc ts = Ok b \<and>
    kp_magics a = kp_magics b \<and> kp_algs a = kp_algs b"
proof -
  have n: "sentInitMsg toyClient = None" "sentInitMsg toyServer = None" "hostKeys toyClient = []" "hostKeys toyServer \<noteq> []"
    "ht_clientVersion toyClient = ht_clientVersion toyServer" "ht_serverVersion toyClient = ht_serverVersion toyServer"
    "conn_err (hconn toyClient) = None" "conn_err (hconn toyServer) = None"
    by (simp_all add: toyClient_def toyServer_def)
  obtain tc pc where c: "sendKexInit logK (replicate 16 0) toyClient = (tc, Ok ())" "sentInitPacket tc = Some pc"
      "length pc < 2 ^ 32" using toy_send [OF n(1,7) toy_offers_ok(1)] toy_offer_short(1) by blast
  obtain ts ps where s: "sendKexInit logK (replicate 16 1) toyServer = (ts, Ok ())" "sentInitPacket ts = Some ps"
      "length ps < 2 ^ 32" using toy_send [OF n(2,8) toy_offers_ok(2)] toy_offer_short(2) by blast
  obtain a b where ab: "planKex ps tc = Ok a" "planKex pc ts = Ok b" using toy_plans c s by blast
  from plans_agree [OF c(1) s(1) n(1-6) toy_offers_ok c(2) s(2) c(3) s(3) ab] c(1,2) s(1,2) ab show ?thesis by blast
qed

end
