(* ===== verification/Keys.thy ===== *)
theory Keys
  imports Kex "HOL-Library.AList" "HOL-Library.List_Lexorder" "HOL-Library.Char_ord"
begin

text \<open>
  Public keys and certificates (\<open>src/keys.go\<close>, \<open>src/certs.go\<close>): the key types with their wire formats, the
  parsers, the certificate format, verification and signing. The elliptic curves, the signature primitives and
  the hashes are the parameter \<open>keyPrims\<close>. A Go map of options is an association list with distinct
  keys, whose order is the order in which a \<open>range\<close> visits it.
\<close>

section \<open>Keys\<close>

text \<open>\<open>OtherCurve\<close> is a curve that is none of the three supported ones, with its bit size.\<close>

datatype ecCurve = P256 | P384 | P521 | OtherCurve nat

primrec curveBits :: "ecCurve \<Rightarrow> nat" where
  "curveBits P256 = 256"
| "curveBits P384 = 384"
| "curveBits P521 = 521"
| "curveBits (OtherCurve n) = n"

datatype publicKey =
    RSAPublicKey (rsa_E: int) (rsa_N: int)
  | DSAPublicKey (dsa_P: int) (dsa_Q: int) (dsa_G: int) (dsa_Y: int)
  | ECDSAPublicKey (ec_Curve: ecCurve) (ec_X: int) (ec_Y: int)
  | ED25519PublicKey (ed_Key: bytes)
  | CertPublicKey (thecert: certificate)
and certificate =
    Certificate (c_Nonce: bytes) (c_Key: publicKey) (c_Serial: u64) (c_CertType: u32) (c_KeyId: string)
      (c_ValidPrincipals: "string list") (c_ValidAfter: u64) (c_ValidBefore: u64)
      (c_CriticalOptions: "(string \<times> string) list") (c_Extensions: "(string \<times> string) list")
      (c_Reserved: bytes) (c_SignatureKey: publicKey) (c_Signature: "Signature option")

text \<open>
  The primitives: curves, hashes, \<open>rsa.VerifyPKCS1v15\<close> (on a SHA-1 digest), \<open>dsa.Verify\<close>,
  \<open>ecdsa.Verify\<close> and \<open>ed25519.Verify\<close>, which may panic.
\<close>

record keyPrims =
  kp_curve :: "ecCurve \<Rightarrow> curve"
  kp_hash :: "cryptoHash \<Rightarrow> hashFn"
  kp_rsaVerify :: "int \<times> int \<Rightarrow> bytes \<Rightarrow> bytes \<Rightarrow> unit res"
  kp_dsaVerify :: "int \<times> int \<times> int \<times> int \<Rightarrow> bytes \<Rightarrow> int \<Rightarrow> int \<Rightarrow> bool"
  kp_ecdsaVerify :: "ecCurve \<times> int \<times> int \<Rightarrow> bytes \<Rightarrow> int \<Rightarrow> int \<Rightarrow> bool"
  kp_edVerify :: "bytes \<Rightarrow> bytes \<Rightarrow> bytes \<Rightarrow> bool res"

section \<open>Types and marshalling\<close>

definition nistID :: "ecCurve \<Rightarrow> string res" where
  "nistID c =
     (if curveBits c = 256 then Ok ''nistp256''
      else if curveBits c = 384 then Ok ''nistp384''
      else if curveBits c = 521 then Ok ''nistp521''
      else Panic ''ssh: unsupported ecdsa key size'')"

definition certAlgoNames :: "(string \<times> string) list" where
  "certAlgoNames = [(KeyAlgoRSA, CertAlgoRSAv01), (KeyAlgoDSA, CertAlgoDSAv01),
     (KeyAlgoECDSA256, CertAlgoECDSA256v01), (KeyAlgoECDSA384, CertAlgoECDSA384v01),
     (KeyAlgoECDSA521, CertAlgoECDSA521v01), (KeyAlgoED25519, CertAlgoED25519v01)]"

definition ecdsa_Type :: "ecCurve \<Rightarrow> string res" where
  "ecdsa_Type c = res_bind (nistID c) (\<lambda>i. Ok (''ecdsa-sha2-'' @ i))"

definition certTypeOf :: "string res \<Rightarrow> string res" where
  "certTypeOf keyType =
     res_bind keyType (\<lambda>t.
       case map_of certAlgoNames t of Some a \<Rightarrow> Ok a | None \<Rightarrow> Panic (''unknown cert key type '' @ t))"

declare ecdsa_Type_def [simp] certTypeOf_def [simp]

text \<open>The method \<open>Type\<close> of the interface \<open>PublicKey\<close>, dispatched on the dynamic type.\<close>

primrec pk_Type :: "publicKey \<Rightarrow> string res" and cert_Type :: "certificate \<Rightarrow> string res" where
  "pk_Type (RSAPublicKey e n) = Ok KeyAlgoRSA"
| "pk_Type (DSAPublicKey p q g y) = Ok KeyAlgoDSA"
| "pk_Type (ECDSAPublicKey c x y) = ecdsa_Type c"
| "pk_Type (ED25519PublicKey k) = Ok KeyAlgoED25519"
| "pk_Type (CertPublicKey c) = cert_Type c"
| "cert_Type (Certificate nonce key serial ty kid ps va vb crit ext reserved sk sig) = certTypeOf (pk_Type key)"

primrec certToPrivAlgoLoop :: "(string \<times> string) list \<Rightarrow> string \<Rightarrow> string res" where
  "certToPrivAlgoLoop [] algo = Panic ''unknown cert algorithm''"
| "certToPrivAlgoLoop (a # as) algo = (if snd a = algo then Ok (fst a) else certToPrivAlgoLoop as algo)"

definition certToPrivAlgo :: "string \<Rightarrow> string res" where
  "certToPrivAlgo algo = certToPrivAlgoLoop certAlgoNames algo"

text \<open>The anonymous structs of the key formats.\<close>

definition anonStruct :: "(string \<times> fkind) list \<Rightarrow> structType" where
  "anonStruct fs = \<lparr>sname = [], sshtype = [], sfields = fs\<rparr>"

definition rsaWire :: structType where
  "rsaWire = anonStruct [(''E'', KBigInt), (''N'', KBigInt), (''Rest'', KRest)]"

definition dsaWire :: structType where
  "dsaWire = anonStruct [(''P'', KBigInt), (''Q'', KBigInt), (''G'', KBigInt), (''Y'', KBigInt), (''Rest'', KRest)]"

definition ecWire :: structType where
  "ecWire = anonStruct [(''Curve'', KString), (''KeyBytes'', KBytes), (''Rest'', KRest)]"

definition edWire :: structType where
  "edWire = anonStruct [(''KeyBytes'', KBytes), (''Rest'', KRest)]"

definition genericCertStruct :: structType where
  "genericCertStruct = \<lparr>sname = ''genericCertData'', sshtype = [], sfields =
     [(''Serial'', KUint64), (''CertType'', KUint32), (''KeyId'', KString), (''ValidPrincipals'', KBytes),
      (''ValidAfter'', KUint64), (''ValidBefore'', KUint64), (''CriticalOptions'', KBytes), (''Extensions'', KBytes),
      (''Reserved'', KBytes), (''SignatureKey'', KBytes), (''Signature'', KBytes)]\<rparr>"

record genericCertData =
  gc_Serial :: u64
  gc_CertType :: u32
  gc_KeyId :: string
  gc_ValidPrincipals :: bytes
  gc_ValidAfter :: u64
  gc_ValidBefore :: u64
  gc_CriticalOptions :: bytes
  gc_Extensions :: bytes
  gc_Reserved :: bytes
  gc_SignatureKey :: bytes
  gc_Signature :: bytes

primrec marshalStringList :: "string list \<Rightarrow> bytes res" where
  "marshalStringList [] = Ok []"
| "marshalStringList (n # ns) =
     res_bind (Marshal (anonStruct [(''N'', KString)]) [VString n]) (\<lambda>b.
     res_bind (marshalStringList ns) (\<lambda>bs. Ok (b @ bs)))"

text \<open>The value of a missing key is the empty string.\<close>

definition optionValue :: "(string \<times> string) list \<Rightarrow> string \<Rightarrow> string" where
  "optionValue tups key = (case map_of tups key of Some v \<Rightarrow> v | None \<Rightarrow> [])"

definition optionsTupleStruct :: structType where
  "optionsTupleStruct = \<lparr>sname = ''optionsTuple'', sshtype = [], sfields = [(''Key'', KString), (''Value'', KBytes)]\<rparr>"

primrec marshalTupleKeys :: "(string \<times> string) list \<Rightarrow> string list \<Rightarrow> bytes res" where
  "marshalTupleKeys tups [] = Ok []"
| "marshalTupleKeys tups (key # keys) =
     res_bind (if length (optionValue tups key) > 0 then Marshal (anonStruct [(''Value'', KString)]) [VString (optionValue tups key)] else Ok []) (\<lambda>v.
     res_bind (Marshal optionsTupleStruct [VString key, VBytes v]) (\<lambda>b.
     res_bind (marshalTupleKeys tups keys) (\<lambda>bs. Ok (b @ bs))))"

definition marshalTuples :: "(string \<times> string) list \<Rightarrow> bytes res" where
  "marshalTuples tups = marshalTupleKeys tups (sort (map fst tups))"

definition marshalSignature :: "Signature \<Rightarrow> bytes res" where
  "marshalSignature sig = Marshal signatureStruct [VString (sig_Format sig), VBytes (sig_Blob sig)]"

definition rsa_Marshal :: "int \<Rightarrow> int \<Rightarrow> bytes res" where
  "rsa_Marshal e n =
     Marshal (anonStruct [(''Name'', KString), (''E'', KBigInt), (''N'', KBigInt)]) [VString KeyAlgoRSA, VInt e, VInt n]"

definition dsa_Marshal :: "int \<Rightarrow> int \<Rightarrow> int \<Rightarrow> int \<Rightarrow> bytes res" where
  "dsa_Marshal p q g y =
     Marshal (anonStruct [(''Name'', KString), (''P'', KBigInt), (''Q'', KBigInt), (''G'', KBigInt), (''Y'', KBigInt)])
       [VString KeyAlgoDSA, VInt p, VInt q, VInt g, VInt y]"

definition ecdsa_Marshal :: "keyPrims \<Rightarrow> ecCurve \<Rightarrow> int \<Rightarrow> int \<Rightarrow> bytes res" where
  "ecdsa_Marshal E c x y =
     (let keyBytes = cv_Marshal (kp_curve E c) x y in
      res_bind (ecdsa_Type c) (\<lambda>t.
      res_bind (nistID c) (\<lambda>i.
        Marshal (anonStruct [(''Name'', KString), (''ID'', KString), (''Key'', KBytes)]) [VString t, VString i, VBytes keyBytes])))"

definition ed_Marshal :: "bytes \<Rightarrow> bytes res" where
  "ed_Marshal k = Marshal (anonStruct [(''Name'', KString), (''KeyBytes'', KBytes)]) [VString KeyAlgoED25519, VBytes k]"

text \<open>
  \<open>Certificate.Marshal\<close>: the arguments after the fields are the outcomes of \<open>Marshal\<close> for the signature key and the key
  and of \<open>Type\<close>, in the order in which the code asks for them.
\<close>

definition certMarshal ::
    "bytes \<Rightarrow> u64 \<Rightarrow> u32 \<Rightarrow> string \<Rightarrow> string list \<Rightarrow> u64 \<Rightarrow> u64 \<Rightarrow> (string \<times> string) list \<Rightarrow> (string \<times> string) list \<Rightarrow>
       bytes \<Rightarrow> Signature option \<Rightarrow> bytes res \<Rightarrow> bytes res \<Rightarrow> string res \<Rightarrow> bytes res" where
  "certMarshal nonce serial ty kid ps va vb crit ext reserved sig skMarshal keyMarshal certType =
     res_bind (marshalStringList ps) (\<lambda>principals.
     res_bind (marshalTuples crit) (\<lambda>critical.
     res_bind (marshalTuples ext) (\<lambda>extensions.
     res_bind skMarshal (\<lambda>sigKey.
     res_bind (case sig of Some s \<Rightarrow> marshalSignature s | None \<Rightarrow> Ok []) (\<lambda>sigBytes.
     res_bind (Marshal genericCertStruct
         [VU64 serial, VU32 ty, VString kid, VBytes principals, VU64 va, VU64 vb, VBytes critical, VBytes extensions,
          VBytes reserved, VBytes sigKey, VBytes sigBytes]) (\<lambda>genericBytes.
     res_bind keyMarshal (\<lambda>keyBytes0.
     let keyBytes = (case parseString keyBytes0 of Some (_, r) \<Rightarrow> r | None \<Rightarrow> []) in
     res_bind certType (\<lambda>t.
     res_bind (Marshal (anonStruct [(''Name'', KString), (''Nonce'', KBytes), (''Key'', KRest)])
         [VString t, VBytes nonce, VBytes keyBytes]) (\<lambda>prefix.
       Ok (prefix @ genericBytes))))))))))"

declare rsa_Marshal_def [simp] dsa_Marshal_def [simp] ecdsa_Marshal_def [simp] ed_Marshal_def [simp] certMarshal_def [simp]

primrec pk_Marshal :: "keyPrims \<Rightarrow> publicKey \<Rightarrow> bytes res" and cert_Marshal :: "keyPrims \<Rightarrow> certificate \<Rightarrow> bytes res" where
  "pk_Marshal E (RSAPublicKey e n) = rsa_Marshal e n"
| "pk_Marshal E (DSAPublicKey p q g y) = dsa_Marshal p q g y"
| "pk_Marshal E (ECDSAPublicKey c x y) = ecdsa_Marshal E c x y"
| "pk_Marshal E (ED25519PublicKey k) = ed_Marshal k"
| "pk_Marshal E (CertPublicKey c) = cert_Marshal E c"
| "cert_Marshal E (Certificate nonce key serial ty kid ps va vb crit ext reserved sk sig) =
     certMarshal nonce serial ty kid ps va vb crit ext reserved sig (pk_Marshal E sk) (pk_Marshal E key) (certTypeOf (pk_Type key))"

primrec withoutSignature :: "certificate \<Rightarrow> certificate" where
  "withoutSignature (Certificate nonce key serial ty kid ps va vb crit ext reserved sk sig) =
     Certificate nonce key serial ty kid ps va vb crit ext reserved sk None"

definition bytesForSigning :: "keyPrims \<Rightarrow> certificate \<Rightarrow> bytes res" where
  "bytesForSigning E cert =
     res_bind (cert_Marshal E (withoutSignature cert)) (\<lambda>out.
       if length out < 4 then Panic ''slice bounds out of range'' else Ok (take (length out - 4) out))"

section \<open>Parsing\<close>

definition parseRSA :: "bytes \<Rightarrow> (publicKey \<times> bytes) res" where
  "parseRSA inp =
     res_bind (Unmarshal rsaWire inp) (\<lambda>w.
       case w of
         [VInt e, VInt n, VBytes rest] \<Rightarrow>
           if bitLen (nat \<bar>e\<bar>) > 24 then Err (ErrNew ''ssh: exponent too large'')
           else if e < 3 \<or> even e then Err (ErrNew ''ssh: incorrect exponent'')
           else Ok (RSAPublicKey e n, rest)
       | _ \<Rightarrow> wrongKind)"

definition parseDSA :: "bytes \<Rightarrow> (publicKey \<times> bytes) res" where
  "parseDSA inp =
     res_bind (Unmarshal dsaWire inp) (\<lambda>w.
       case w of
         [VInt p, VInt q, VInt g, VInt y, VBytes rest] \<Rightarrow> Ok (DSAPublicKey p q g y, rest)
       | _ \<Rightarrow> wrongKind)"

definition namedCurve :: "string \<Rightarrow> ecCurve option" where
  "namedCurve n =
     (if n = ''nistp256'' then Some P256
      else if n = ''nistp384'' then Some P384
      else if n = ''nistp521'' then Some P521
      else None)"

definition parseECDSA :: "keyPrims \<Rightarrow> bytes \<Rightarrow> (publicKey \<times> bytes) res" where
  "parseECDSA E inp =
     res_bind (Unmarshal ecWire inp) (\<lambda>w.
       case w of
         [VString cn, VBytes keyBytes, VBytes rest] \<Rightarrow>
           (case namedCurve cn of
              None \<Rightarrow> Err (ErrNew ''ssh: unsupported curve'')
            | Some c \<Rightarrow>
                (case cv_Unmarshal (kp_curve E c) keyBytes of
                   None \<Rightarrow> Err (ErrNew ''ssh: invalid curve point'')
                 | Some (x, y) \<Rightarrow> Ok (ECDSAPublicKey c x y, rest)))
       | _ \<Rightarrow> wrongKind)"

definition parseED25519 :: "bytes \<Rightarrow> (publicKey \<times> bytes) res" where
  "parseED25519 inp =
     res_bind (Unmarshal edWire inp) (\<lambda>w.
       case w of
         [VBytes k, VBytes rest] \<Rightarrow> Ok (ED25519PublicKey k, rest)
       | _ \<Rightarrow> wrongKind)"

text \<open>\<open>parsePubKey\<close> for an algorithm that is not a certificate algorithm.\<close>

definition parsePlainKey :: "keyPrims \<Rightarrow> bytes \<Rightarrow> string \<Rightarrow> (publicKey \<times> bytes) res" where
  "parsePlainKey E inp algo =
     (if algo = KeyAlgoRSA then parseRSA inp
      else if algo = KeyAlgoDSA then parseDSA inp
      else if algo = KeyAlgoECDSA256 \<or> algo = KeyAlgoECDSA384 \<or> algo = KeyAlgoECDSA521 then parseECDSA E inp
      else if algo = KeyAlgoED25519 then parseED25519 inp
      else Err (Errorf ''ssh: unknown key algorithm: %v'' [] [algo]))"

definition unmarshalGeneric :: "bytes \<Rightarrow> genericCertData res" where
  "unmarshalGeneric inp =
     res_bind (Unmarshal genericCertStruct inp) (\<lambda>w.
       case w of
         [VU64 serial, VU32 ty, VString kid, VBytes ps, VU64 va, VU64 vb, VBytes crit, VBytes ext, VBytes reserved, VBytes sk, VBytes sig] \<Rightarrow>
           Ok \<lparr>gc_Serial = serial, gc_CertType = ty, gc_KeyId = kid, gc_ValidPrincipals = ps, gc_ValidAfter = va,
               gc_ValidBefore = vb, gc_CriticalOptions = crit, gc_Extensions = ext, gc_Reserved = reserved,
               gc_SignatureKey = sk, gc_Signature = sig\<rparr>
       | _ \<Rightarrow> wrongKind)"

lemma parseString_less: "parseString inp = Some (s, r) \<Longrightarrow> length s + length r + 4 = length inp"
  by (auto dest!: parseString_SomeD)

function parsePrincipals :: "bytes \<Rightarrow> string list res" where
  "parsePrincipals principals =
     (if principals = [] then Ok []
      else
        (case parseString principals of
           None \<Rightarrow> Err errShortRead
         | Some (pr, rest) \<Rightarrow> res_bind (parsePrincipals rest) (\<lambda>ps. Ok (string_of_bytes pr # ps))))"
  by auto
termination by (relation "measure length") (auto dest: parseString_less)

declare parsePrincipals.simps [simp del]

text \<open>The value of an option: empty, or one embedded string and nothing else.\<close>

definition tupleValue :: "bytes \<Rightarrow> string res" where
  "tupleValue val =
     (if length val > 0 then
        (case parseString val of
           None \<Rightarrow> Err errShortRead
         | Some (v, extra) \<Rightarrow>
             if length extra > 0 then Err (ErrNew ''ssh: unexpected trailing data after certificate option value'')
             else Ok (string_of_bytes v))
      else Ok [])"

function parseTuplesLoop :: "string option \<Rightarrow> (string \<times> string) list \<Rightarrow> bytes \<Rightarrow> (string \<times> string) list res" where
  "parseTuplesLoop lastKey tups inp =
     (if inp = [] then Ok tups
      else
        (case parseString inp of
           None \<Rightarrow> Err errShortRead
         | Some (key, inp1) \<Rightarrow>
             if (case lastKey of Some k \<Rightarrow> string_of_bytes key \<le> k | None \<Rightarrow> False)
             then Err (ErrNew ''ssh: certificate options are not in lexical order'')
             else
               (case parseString inp1 of
                  None \<Rightarrow> Err errShortRead
                | Some (val, inp2) \<Rightarrow>
                    res_bind (tupleValue val) (\<lambda>v.
                      parseTuplesLoop (Some (string_of_bytes key)) (AList.update (string_of_bytes key) v tups) inp2))))"
  by auto
termination by (relation "measure (\<lambda>(_, _, inp). length inp)") (auto dest!: parseString_less)

declare parseTuplesLoop.simps [simp del]

definition parseTuples :: "bytes \<Rightarrow> (string \<times> string) list res" where
  "parseTuples inp = parseTuplesLoop None [] inp"

text \<open>
  \<open>parseCert\<close> up to the parse of the signature key, and from there. The parser of the signature
  key, which may be a certificate again, is an argument of \<open>parseCertWith\<close>.
\<close>

record certParts =
  cp_Nonce :: bytes
  cp_Key :: publicKey
  cp_generic :: genericCertData
  cp_Principals :: "string list"
  cp_Critical :: "(string \<times> string) list"
  cp_Extensions :: "(string \<times> string) list"

definition certHead :: "keyPrims \<Rightarrow> bytes \<Rightarrow> string \<Rightarrow> certParts res" where
  "certHead E inp privAlgo =
     (case parseString inp of
        None \<Rightarrow> Err errShortRead
      | Some (nonce, rest) \<Rightarrow>
          res_bind (parsePlainKey E rest privAlgo) (\<lambda>(key, rest1).
          res_bind (unmarshalGeneric rest1) (\<lambda>g.
          res_bind (parsePrincipals (gc_ValidPrincipals g)) (\<lambda>ps.
          res_bind (parseTuples (gc_CriticalOptions g)) (\<lambda>crit.
          res_bind (parseTuples (gc_Extensions g)) (\<lambda>ext.
            Ok \<lparr>cp_Nonce = nonce, cp_Key = key, cp_generic = g, cp_Principals = ps, cp_Critical = crit, cp_Extensions = ext\<rparr>))))))"

definition certTail :: "certParts \<Rightarrow> publicKey \<Rightarrow> certificate res" where
  "certTail p k =
     (let g = cp_generic p in
      case parseSignatureBody (gc_Signature g) of
        None \<Rightarrow> Err (ErrNew ''ssh: signature parse error'')
      | Some (sig, rest) \<Rightarrow>
          if length rest > 0 then Err (ErrNew ''ssh: signature parse error'')
          else Ok (Certificate (cp_Nonce p) (cp_Key p) (gc_Serial g) (gc_CertType g) (gc_KeyId g) (cp_Principals p)
                    (gc_ValidAfter g) (gc_ValidBefore g) (cp_Critical p) (cp_Extensions p) (gc_Reserved g) k (Some sig)))"

definition isCertAlgo :: "string \<Rightarrow> bool" where
  "isCertAlgo algo \<longleftrightarrow> algo = CertAlgoRSAv01 \<or> algo = CertAlgoDSAv01 \<or> algo = CertAlgoECDSA256v01 \<or>
     algo = CertAlgoECDSA384v01 \<or> algo = CertAlgoECDSA521v01 \<or> algo = CertAlgoED25519v01"

text \<open>What is left of the input is never longer than it, and the signature key is part of it.\<close>

lemma unmarshalField_less:
  assumes "unmarshalField sn fn k data = Ok (v, r)"
  shows "length r \<le> length data \<and> (\<forall>b. v = VBytes b \<longrightarrow> length b + length r \<le> length data)"
  using assms
  by (cases k) (auto simp: opt_res_def parseUint64_def parseUint32_def parseInt_def parseNameList_def
    dest!: parseString_less split: list.splits option.splits if_splits)

lemma unmarshalFields_less:
  "unmarshalFields sn fs data = Ok (vs, r) \<Longrightarrow> length r \<le> length data \<and> (\<forall>b. VBytes b \<in> set vs \<longrightarrow> length b \<le> length data)"
proof (induction sn fs data arbitrary: vs rule: unmarshalFields.induct)
  case (2 sn fn k fs data)
  then show ?case by (fastforce simp: res_simps split: prod.splits dest: unmarshalField_less)
qed simp

lemma Unmarshal_less: "Unmarshal st data = Ok vs \<Longrightarrow> VBytes b \<in> set vs \<Longrightarrow> length b \<le> length data"
  by (fastforce simp: Unmarshal_def Let_def res_simps split: if_splits prod.splits dest: unmarshalFields_less)

lemma Unmarshal_length:
  assumes "Unmarshal st data = Ok vs"
  shows "length vs = length (sfields st)"
proof -
  have "unmarshalFields sn fs d = Ok (vs, r) \<Longrightarrow> length vs = length fs" for sn fs d r
    by (induction sn fs d arbitrary: vs rule: unmarshalFields.induct) (auto simp: res_simps split: prod.splits)
  then show ?thesis using assms by (auto simp: Unmarshal_def Let_def res_simps split: if_splits prod.splits)
qed

lemma Unmarshal_fits:
  assumes "Unmarshal st data = Ok vs"
  shows "list_all2 (\<lambda>f v. fits (snd f) v) (sfields st) vs"
  using assms by (auto simp: Unmarshal_def Let_def res_simps split: if_splits prod.splits dest: unmarshalFields_fits)

lemma rsaWire_shape: "Unmarshal rsaWire d = Ok w \<Longrightarrow> \<exists>e n rest. w = [VInt e, VInt n, VBytes rest]"
  by (drule Unmarshal_fits) (auto simp: rsaWire_def anonStruct_def list_all2_Cons1)

lemma dsaWire_shape: "Unmarshal dsaWire d = Ok w \<Longrightarrow> \<exists>p q g y rest. w = [VInt p, VInt q, VInt g, VInt y, VBytes rest]"
  by (drule Unmarshal_fits) (auto simp: dsaWire_def anonStruct_def list_all2_Cons1)

lemma ecWire_shape: "Unmarshal ecWire d = Ok w \<Longrightarrow> \<exists>c k rest. w = [VString c, VBytes k, VBytes rest]"
  by (drule Unmarshal_fits) (auto simp: ecWire_def anonStruct_def list_all2_Cons1)

lemma edWire_shape: "Unmarshal edWire d = Ok w \<Longrightarrow> \<exists>k rest. w = [VBytes k, VBytes rest]"
  by (drule Unmarshal_fits) (auto simp: edWire_def anonStruct_def list_all2_Cons1)

lemma genericCert_shape:
  "Unmarshal genericCertStruct d = Ok w \<Longrightarrow>
     \<exists>a b c e f g h i j k l. w = [VU64 a, VU32 b, VString c, VBytes e, VU64 f, VU64 g, VBytes h, VBytes i, VBytes j, VBytes k, VBytes l]"
  by (drule Unmarshal_fits) (auto simp: genericCertStruct_def list_all2_Cons1)

lemma parseRSA_Ok:
  assumes "parseRSA inp = Ok (k, r)"
  shows "\<exists>e n. Unmarshal rsaWire inp = Ok [VInt e, VInt n, VBytes r] \<and>
    k = RSAPublicKey e n \<and> bitLen (nat \<bar>e\<bar>) \<le> 24 \<and> 3 \<le> e \<and> odd e"
proof -
  obtain w where w: "Unmarshal rsaWire inp = Ok w" using assms by (auto simp: parseRSA_def res_simps)
  with rsaWire_shape [OF w] assms show ?thesis by (auto simp: parseRSA_def split: if_splits)
qed

lemma parseDSA_Ok:
  assumes "parseDSA inp = Ok (k, r)"
  shows "\<exists>p q g y. Unmarshal dsaWire inp = Ok [VInt p, VInt q, VInt g, VInt y, VBytes r] \<and>
    k = DSAPublicKey p q g y"
proof -
  obtain w where w: "Unmarshal dsaWire inp = Ok w" using assms by (auto simp: parseDSA_def res_simps)
  with dsaWire_shape [OF w] assms show ?thesis by (auto simp: parseDSA_def)
qed

lemma parseECDSA_Ok:
  assumes "parseECDSA E inp = Ok (k, r)"
  shows "\<exists>n b c x y. Unmarshal ecWire inp = Ok [VString n, VBytes b, VBytes r] \<and>
    namedCurve n = Some c \<and> cv_Unmarshal (kp_curve E c) b = Some (x, y) \<and> k = ECDSAPublicKey c x y"
proof -
  obtain w where w: "Unmarshal ecWire inp = Ok w" using assms by (auto simp: parseECDSA_def res_simps)
  with ecWire_shape [OF w] assms show ?thesis by (auto simp: parseECDSA_def split: option.splits)
qed

lemma parseED25519_Ok:
  assumes "parseED25519 inp = Ok (k, r)"
  shows "\<exists>b. Unmarshal edWire inp = Ok [VBytes b, VBytes r] \<and> k = ED25519PublicKey b"
proof -
  obtain w where w: "Unmarshal edWire inp = Ok w" using assms by (auto simp: parseED25519_def res_simps)
  with edWire_shape [OF w] assms show ?thesis by (auto simp: parseED25519_def)
qed

lemma parsePlainKey_cases:
  assumes "parsePlainKey E inp algo = Ok (k, r)"
  shows "algo = KeyAlgoRSA \<and> parseRSA inp = Ok (k, r) \<or> algo = KeyAlgoDSA \<and> parseDSA inp = Ok (k, r) \<or>
    algo \<in> {KeyAlgoECDSA256, KeyAlgoECDSA384, KeyAlgoECDSA521} \<and> parseECDSA E inp = Ok (k, r) \<or>
    algo = KeyAlgoED25519 \<and> parseED25519 inp = Ok (k, r)"
  using assms unfolding parsePlainKey_def by (simp split: if_splits)

lemma parsePlainKey_rest:
  assumes "parsePlainKey E inp algo = Ok (k, r)"
  shows "\<exists>st w. Unmarshal st inp = Ok w \<and> VBytes r \<in> set w"
  using parsePlainKey_cases [OF assms]
proof (elim disjE conjE)
  assume "parseRSA inp = Ok (k, r)" from parseRSA_Ok [OF this] show ?thesis by fastforce
next
  assume "parseDSA inp = Ok (k, r)" from parseDSA_Ok [OF this] show ?thesis by fastforce
next
  assume "parseECDSA E inp = Ok (k, r)" from parseECDSA_Ok [OF this] show ?thesis by fastforce
next
  assume "parseED25519 inp = Ok (k, r)" from parseED25519_Ok [OF this] show ?thesis by fastforce
qed

lemma parsePlainKey_less: "parsePlainKey E inp algo = Ok (k, r) \<Longrightarrow> length r \<le> length inp"
  using parsePlainKey_rest Unmarshal_less by blast

lemma certHead_less:
  assumes "certHead E inp a = Ok p"
  shows "length (gc_SignatureKey (cp_generic p)) < length inp"
proof -
  obtain n rest k rest1 g where g: "parseString inp = Some (n, rest)" "parsePlainKey E rest a = Ok (k, rest1)"
      "unmarshalGeneric rest1 = Ok g" "cp_generic p = g"
    using assms by (auto simp: certHead_def res_simps split: option.splits prod.splits)
  obtain w where w: "Unmarshal genericCertStruct rest1 = Ok w" using g(3) by (auto simp: unmarshalGeneric_def res_simps)
  then have "VBytes (gc_SignatureKey g) \<in> set w"
    using g(3) genericCert_shape [OF w] by (auto simp: unmarshalGeneric_def)
  then have "length (gc_SignatureKey g) \<le> length rest1" using Unmarshal_less w by blast
  then show ?thesis using g parseString_less [OF g(1)] parsePlainKey_less [OF g(2)] by simp
qed

function ParsePublicKey :: "keyPrims \<Rightarrow> bytes \<Rightarrow> publicKey res" where
  "ParsePublicKey E inp =
     (case parseString inp of
        None \<Rightarrow> Err errShortRead
      | Some (algo, rest) \<Rightarrow>
          if isCertAlgo (string_of_bytes algo) then
            (case certToPrivAlgo (string_of_bytes algo) of
               Err e \<Rightarrow> Err e
             | Panic x \<Rightarrow> Panic x
             | Ok privAlgo \<Rightarrow>
                 (case certHead E rest privAlgo of
                    Err e \<Rightarrow> Err e
                  | Panic x \<Rightarrow> Panic x
                  | Ok p \<Rightarrow>
                      (case ParsePublicKey E (gc_SignatureKey (cp_generic p)) of
                         Err e \<Rightarrow> Err e
                       | Panic x \<Rightarrow> Panic x
                       | Ok k \<Rightarrow> res_bind (certTail p k) (\<lambda>c. Ok (CertPublicKey c)))))
          else
            res_bind (parsePlainKey E rest (string_of_bytes algo)) (\<lambda>(k, junk).
              if length junk > 0 then Err (ErrNew ''ssh: trailing junk in public key'') else Ok k))"
  by auto
termination by (relation "measure (\<lambda>(_, inp). length inp)") (auto dest!: parseString_less certHead_less)

declare ParsePublicKey.simps [simp del]

definition parseCert :: "keyPrims \<Rightarrow> bytes \<Rightarrow> string \<Rightarrow> certificate res" where
  "parseCert E inp privAlgo =
     res_bind (certHead E inp privAlgo) (\<lambda>p.
     res_bind (ParsePublicKey E (gc_SignatureKey (cp_generic p))) (certTail p))"

definition parsePubKey :: "keyPrims \<Rightarrow> bytes \<Rightarrow> string \<Rightarrow> (publicKey \<times> bytes) res" where
  "parsePubKey E inp algo =
     (if isCertAlgo algo then
        res_bind (certToPrivAlgo algo) (\<lambda>privAlgo.
        res_bind (parseCert E inp privAlgo) (\<lambda>cert. Ok (CertPublicKey cert, [])))
      else parsePlainKey E inp algo)"

lemma res_bind_assoc: "res_bind (res_bind r f) g = res_bind r (\<lambda>x. res_bind (f x) g)"
  by (cases r) simp_all

text \<open>\<open>ParsePublicKey\<close> is the function of the source, over \<open>parsePubKey\<close>.\<close>

lemma ParsePublicKey_eq:
  "ParsePublicKey E inp =
     (case parseString inp of
        None \<Rightarrow> Err errShortRead
      | Some (algo, rest) \<Rightarrow>
          res_bind (parsePubKey E rest (string_of_bytes algo)) (\<lambda>(out, junk).
            if length junk > 0 then Err (ErrNew ''ssh: trailing junk in public key'') else Ok out))"
  by (simp add: ParsePublicKey.simps [of E inp] parsePubKey_def parseCert_def res_bind_assoc split: option.split prod.split res.split)

section \<open>Verification and signing\<close>

definition wrongSigType :: "string \<Rightarrow> string \<Rightarrow> gerror" where
  "wrongSigType f t = Errorf ''ssh: signature type %s for key type %s'' [] [f, t]"

definition didNotVerify :: gerror where
  "didNotVerify = ErrNew ''ssh: signature did not verify''"

definition ecSigStruct :: structType where
  "ecSigStruct = anonStruct [(''R'', KBigInt), (''S'', KBigInt)]"

definition rsa_Verify :: "keyPrims \<Rightarrow> int \<Rightarrow> int \<Rightarrow> bytes \<Rightarrow> Signature \<Rightarrow> unit res" where
  "rsa_Verify E e n data sig =
     (if sig_Format sig \<noteq> KeyAlgoRSA then Err (wrongSigType (sig_Format sig) KeyAlgoRSA)
      else kp_rsaVerify E (e, n) (h_sum (kp_hash E SHA1) data) (sig_Blob sig))"

definition dsa_Verify :: "keyPrims \<Rightarrow> int \<Rightarrow> int \<Rightarrow> int \<Rightarrow> int \<Rightarrow> bytes \<Rightarrow> Signature \<Rightarrow> unit res" where
  "dsa_Verify E p q g y data sig =
     (if sig_Format sig \<noteq> KeyAlgoDSA then Err (wrongSigType (sig_Format sig) KeyAlgoDSA)
      else if length (sig_Blob sig) \<noteq> 40 then Err (ErrNew ''ssh: DSA signature parse error'')
      else if kp_dsaVerify E (p, q, g, y) (h_sum (kp_hash E SHA1) data)
           (int (setBytes (take 20 (sig_Blob sig)))) (int (setBytes (drop 20 (sig_Blob sig)))) then Ok ()
      else Err didNotVerify)"

definition ecdsa_Verify :: "keyPrims \<Rightarrow> ecCurve \<Rightarrow> int \<Rightarrow> int \<Rightarrow> bytes \<Rightarrow> Signature \<Rightarrow> unit res" where
  "ecdsa_Verify E c x y data sig =
     res_bind (ecdsa_Type c) (\<lambda>t.
       if sig_Format sig \<noteq> t then Err (wrongSigType (sig_Format sig) t)
       else
         res_bind (Unmarshal ecSigStruct (sig_Blob sig)) (\<lambda>w.
           case w of
             [VInt r, VInt s] \<Rightarrow>
               if kp_ecdsaVerify E (c, x, y) (h_sum (kp_hash E (ecHash (kp_curve E c))) data) r s then Ok ()
               else Err didNotVerify
           | _ \<Rightarrow> wrongKind))"

definition ed_Verify :: "keyPrims \<Rightarrow> bytes \<Rightarrow> bytes \<Rightarrow> Signature \<Rightarrow> unit res" where
  "ed_Verify E k data sig =
     (if sig_Format sig \<noteq> KeyAlgoED25519 then Err (wrongSigType (sig_Format sig) KeyAlgoED25519)
      else res_bind (kp_edVerify E k data (sig_Blob sig)) (\<lambda>ok. if \<not> ok then Err didNotVerify else Ok ()))"

declare rsa_Verify_def [simp] dsa_Verify_def [simp] ecdsa_Verify_def [simp] ed_Verify_def [simp]

primrec pk_Verify :: "keyPrims \<Rightarrow> publicKey \<Rightarrow> bytes \<Rightarrow> Signature \<Rightarrow> unit res"
  and cert_Verify :: "keyPrims \<Rightarrow> certificate \<Rightarrow> bytes \<Rightarrow> Signature \<Rightarrow> unit res" where
  "pk_Verify E (RSAPublicKey e n) data sig = rsa_Verify E e n data sig"
| "pk_Verify E (DSAPublicKey p q g y) data sig = dsa_Verify E p q g y data sig"
| "pk_Verify E (ECDSAPublicKey c x y) data sig = ecdsa_Verify E c x y data sig"
| "pk_Verify E (ED25519PublicKey k) data sig = ed_Verify E k data sig"
| "pk_Verify E (CertPublicKey c) data sig = cert_Verify E c data sig"
| "cert_Verify E (Certificate nonce key serial ty kid ps va vb crit ext reserved sk sg) data sig = pk_Verify E key data sig"

text \<open>
  A DSA signature is two integers in twenty bytes each; \<open>copy(sig[20-len(r):20], r)\<close> panics for a longer one.
\<close>

definition dsaBlob :: "int \<Rightarrow> int \<Rightarrow> bytes res" where
  "dsaBlob r s =
     (let rb = natBytes (nat \<bar>r\<bar>); sb = natBytes (nat \<bar>s\<bar>) in
      if length rb > 20 \<or> length sb > 40 then Panic ''slice bounds out of range''
      else Ok (copy_at (copy_at (replicate 40 0) (20 - length rb) rb) (40 - length sb) sb))"

text \<open>\<open>dsa.Sign\<close> is an argument: it returns the two integers for a digest.\<close>

definition dsa_Sign :: "keyPrims \<Rightarrow> (bytes \<Rightarrow> (int \<times> int) res) \<Rightarrow> bytes \<Rightarrow> Signature res" where
  "dsa_Sign E signf data =
     res_bind (signf (h_sum (kp_hash E SHA1) data)) (\<lambda>(r, s).
     res_bind (dsaBlob r s) (\<lambda>blob. Ok \<lparr>sig_Format = KeyAlgoDSA, sig_Blob = blob\<rparr>))"

text \<open>
  The \<open>crypto.Signer\<close> of a \<open>wrappedSigner\<close> is an argument, called with the digest and the hash, which
  is \<open>None\<close> for Ed25519; so is \<open>asn1.Unmarshal\<close> of its two integers.
\<close>

definition wrapped_hash :: "keyPrims \<Rightarrow> publicKey \<Rightarrow> cryptoHash option res" where
  "wrapped_hash E pub =
     (case pub of
        RSAPublicKey _ _ \<Rightarrow> Ok (Some SHA1)
      | DSAPublicKey _ _ _ _ \<Rightarrow> Ok (Some SHA1)
      | ECDSAPublicKey c _ _ \<Rightarrow> Ok (Some (ecHash (kp_curve E c)))
      | ED25519PublicKey _ \<Rightarrow> Ok None
      | CertPublicKey _ \<Rightarrow> Err (Errorf ''ssh: unsupported key type %T'' [] [''*ssh.Certificate'']))"

definition wrapped_Sign ::
    "keyPrims \<Rightarrow> (bytes \<Rightarrow> cryptoHash option \<Rightarrow> bytes res) \<Rightarrow> (bytes \<Rightarrow> (int \<times> int) res) \<Rightarrow> publicKey \<Rightarrow> bytes \<Rightarrow> Signature res" where
  "wrapped_Sign E signf asn1 pub data =
     res_bind (wrapped_hash E pub) (\<lambda>hashFunc.
     let digest = (case hashFunc of Some h \<Rightarrow> h_sum (kp_hash E h) data | None \<Rightarrow> data) in
     res_bind (signf digest hashFunc) (\<lambda>signature.
     res_bind (case pub of
         ECDSAPublicKey _ _ _ \<Rightarrow>
           res_bind (asn1 signature) (\<lambda>(r, s). Marshal (anonStruct [(''R'', KBigInt), (''S'', KBigInt)]) [VInt r, VInt s])
       | DSAPublicKey _ _ _ _ \<Rightarrow> res_bind (asn1 signature) (\<lambda>(r, s). dsaBlob r s)
       | _ \<Rightarrow> Ok signature) (\<lambda>blob.
     res_bind (pk_Type pub) (\<lambda>t. Ok \<lparr>sig_Format = t, sig_Blob = blob\<rparr>))))"

section \<open>Key objects\<close>

text \<open>
  The values of \<open>interface{}\<close> that \<open>NewPublicKey\<close> distinguishes are the public keys that are not
  certificates; \<open>OtherKey\<close> is any other, with the name of its type. For \<open>NewSignerFromKey\<close> a private key
  is a \<open>crypto.Signer\<close> with its public part, or a DSA key.
\<close>

datatype goKey = GoKey publicKey | OtherKey string

definition supportedEllipticCurve :: "ecCurve \<Rightarrow> bool" where
  "supportedEllipticCurve c \<longleftrightarrow> c = P256 \<or> c = P384 \<or> c = P521"

definition NewPublicKey :: "goKey \<Rightarrow> publicKey res" where
  "NewPublicKey key =
     (case key of
        GoKey (ECDSAPublicKey c x y) \<Rightarrow>
          if \<not> supportedEllipticCurve c then Err (ErrNew ''ssh: only P-256, P-384 and P-521 EC keys are supported.'')
          else Ok (ECDSAPublicKey c x y)
      | GoKey (CertPublicKey c) \<Rightarrow> Err (Errorf ''ssh: unsupported key type %T'' [] [''*ssh.Certificate''])
      | GoKey k \<Rightarrow> Ok k
      | OtherKey t \<Rightarrow> Err (Errorf ''ssh: unsupported key type %T'' [] [t]))"

datatype goSigner = CryptoSigner goKey "bytes \<Rightarrow> cryptoHash option \<Rightarrow> bytes res"
  | DSAPrivateKey publicKey "bytes \<Rightarrow> (int \<times> int) res" | NoSigner string

record sshSigner =
  ss_pub :: publicKey
  ss_Sign :: "bytes \<Rightarrow> Signature res"

definition NewSignerFromSigner :: "keyPrims \<Rightarrow> (bytes \<Rightarrow> (int \<times> int) res) \<Rightarrow> goKey \<Rightarrow> (bytes \<Rightarrow> cryptoHash option \<Rightarrow> bytes res) \<Rightarrow> sshSigner res" where
  "NewSignerFromSigner E asn1 pub signf =
     res_bind (NewPublicKey pub) (\<lambda>k. Ok \<lparr>ss_pub = k, ss_Sign = wrapped_Sign E signf asn1 k\<rparr>)"

definition NewSignerFromKey :: "keyPrims \<Rightarrow> (bytes \<Rightarrow> (int \<times> int) res) \<Rightarrow> goSigner \<Rightarrow> sshSigner res" where
  "NewSignerFromKey E asn1 key =
     (case key of
        CryptoSigner pub signf \<Rightarrow> NewSignerFromSigner E asn1 pub signf
      | DSAPrivateKey pub signf \<Rightarrow> Ok \<lparr>ss_pub = pub, ss_Sign = dsa_Sign E signf\<rparr>
      | NoSigner t \<Rightarrow> Err (Errorf ''ssh: unsupported key type %T'' [] [t]))"

section \<open>Private key files\<close>

record pemBlock =
  pb_Type :: string
  pb_Headers :: "(string \<times> string) list"
  pb_Bytes :: bytes
  pb_Spare :: bytes

text \<open>
  The results of the parsers, with the type \<open>'p\<close> of private keys of the library. \<open>rsa.PrivateKey.Validate\<close>,
  \<open>x509\<close> and \<open>asn1\<close> are arguments. \<open>pb_Spare\<close> holds the bytes of the backing array behind the slice
  \<open>Bytes\<close>, which \<open>key[0:n]\<close> reaches. The text of a wrapped error is left out.
\<close>

record 'p privPrims =
  pv_PKCS1 :: "bytes \<Rightarrow> 'p res"
  pv_EC :: "bytes \<Rightarrow> 'p res"
  pv_asn1DSA :: "bytes \<Rightarrow> ((int \<times> int \<times> int \<times> int \<times> int) \<times> bytes) res"
  pv_mkDSA :: "int \<Rightarrow> int \<Rightarrow> int \<Rightarrow> int \<Rightarrow> int \<Rightarrow> 'p"
  pv_mkRSA :: "int \<Rightarrow> int \<Rightarrow> int \<Rightarrow> int list \<Rightarrow> 'p res"
  pv_mkED :: "bytes \<Rightarrow> 'p"
  pv_isEncrypted :: "pemBlock \<Rightarrow> bool"
  pv_decrypt :: "pemBlock \<Rightarrow> bytes \<Rightarrow> bytes res"

definition incorrectPassword :: gerror where
  "incorrectPassword = ErrNew ''x509: decryption password incorrect''"

text \<open>\<open>strings.Contains\<close>.\<close>

fun containsSub :: "string \<Rightarrow> string \<Rightarrow> bool" where
  "containsSub [] t = (t = [])"
| "containsSub (c # cs) t = (take (length t) (c # cs) = t \<or> containsSub cs t)"

definition encryptedBlock :: "pemBlock \<Rightarrow> bool" where
  "encryptedBlock block = containsSub (optionValue (pb_Headers block) ''Proc-Type'') ''ENCRYPTED''"

definition ParseDSAPrivateKey :: "'p privPrims \<Rightarrow> bytes \<Rightarrow> 'p res" where
  "ParseDSAPrivateKey V der =
     (case pv_asn1DSA V der of
        Err e \<Rightarrow> Err (ErrNew ''ssh: failed to parse DSA key: '')
      | Panic x \<Rightarrow> Panic x
      | Ok ((p, q, g, pub, priv), rest) \<Rightarrow>
          if length rest > 0 then Err (ErrNew ''ssh: garbage after DSA key'') else Ok (pv_mkDSA V p q g pub priv))"

fun padOk :: "nat \<Rightarrow> bytes \<Rightarrow> bool" where
  "padOk i [] = True"
| "padOk i (b # bs) = (unat b = i + 1 \<and> padOk (i + 1) bs)"

definition opensshMagic :: bytes where
  "opensshMagic = bytes_of_string ''openssh-key-v1'' @ [0]"

definition opensshWire :: structType where
  "opensshWire = anonStruct [(''CipherName'', KString), (''KdfName'', KString), (''KdfOpts'', KString),
     (''NumKeys'', KUint32), (''PubKey'', KBytes), (''PrivKeyBlock'', KBytes)]"

definition pk1Wire :: structType where
  "pk1Wire = anonStruct [(''Check1'', KUint32), (''Check2'', KUint32), (''Keytype'', KString), (''Rest'', KRest)]"

definition rsaPrivWire :: structType where
  "rsaPrivWire = anonStruct [(''N'', KBigInt), (''E'', KBigInt), (''D'', KBigInt), (''Iqmp'', KBigInt), (''P'', KBigInt),
     (''Q'', KBigInt), (''Comment'', KString), (''Pad'', KRest)]"

definition edPrivWire :: structType where
  "edPrivWire = anonStruct [(''Pub'', KBytes), (''Priv'', KBytes), (''Comment'', KString), (''Pad'', KRest)]"

text \<open>\<open>big.Int.Int64\<close>: the low 64 bits as a signed number.\<close>

definition int64Of :: "int \<Rightarrow> int" where
  "int64Of x = sint (word_of_int x :: 64 word)"

definition parseOpenSSHRSA :: "'p privPrims \<Rightarrow> bytes \<Rightarrow> 'p res" where
  "parseOpenSSHRSA V rest =
     res_bind (Unmarshal rsaPrivWire rest) (\<lambda>w.
       case w of
         [VInt n, VInt e, VInt d, VInt iqmp, VInt p, VInt q, VString comment, VBytes pad] \<Rightarrow>
           if \<not> padOk 0 pad then Err (ErrNew ''ssh: padding not as expected'')
           else pv_mkRSA V n (int64Of e) d [p, q]
       | _ \<Rightarrow> wrongKind)"

definition parseOpenSSHED :: "'p privPrims \<Rightarrow> bytes \<Rightarrow> 'p res" where
  "parseOpenSSHED V rest =
     res_bind (Unmarshal edPrivWire rest) (\<lambda>w.
       case w of
         [VBytes pub, VBytes priv, VString comment, VBytes pad] \<Rightarrow>
           if length priv \<noteq> 64 then Err (ErrNew ''ssh: private key unexpected length'')
           else if \<not> padOk 0 pad then Err (ErrNew ''ssh: padding not as expected'')
           else Ok (pv_mkED V priv)
       | _ \<Rightarrow> wrongKind)"

definition parseOpenSSHBlock :: "'p privPrims \<Rightarrow> bytes \<Rightarrow> 'p res" where
  "parseOpenSSHBlock V block =
     res_bind (Unmarshal pk1Wire block) (\<lambda>w.
       case w of
         [VU32 check1, VU32 check2, VString keytype, VBytes rest] \<Rightarrow>
           if check1 \<noteq> check2 then Err (ErrNew ''ssh: checkint mismatch'')
           else if keytype = KeyAlgoRSA then parseOpenSSHRSA V rest
           else if keytype = KeyAlgoED25519 then parseOpenSSHED V rest
           else Err (ErrNew ''ssh: unhandled key type'')
       | _ \<Rightarrow> wrongKind)"

definition parseOpenSSHPrivateKey :: "'p privPrims \<Rightarrow> bytes \<Rightarrow> bytes \<Rightarrow> 'p res" where
  "parseOpenSSHPrivateKey V key spare =
     (if length (key @ spare) < length opensshMagic then Panic ''slice bounds out of range''
      else if opensshMagic \<noteq> take (length opensshMagic) (key @ spare) then Err (ErrNew ''ssh: invalid openssh private key format'')
      else if length key < length opensshMagic then Panic ''slice bounds out of range''
      else
        res_bind (Unmarshal opensshWire (drop (length opensshMagic) key)) (\<lambda>w.
          case w of
            [VString cipher, VString kdf, VString kdfOpts, VU32 numKeys, VBytes pub, VBytes block] \<Rightarrow>
              if kdf \<noteq> ''none'' \<or> cipher \<noteq> ''none'' then Err (ErrNew ''ssh: cannot decode encrypted private keys'')
              else parseOpenSSHBlock V block
          | _ \<Rightarrow> wrongKind))"

definition parsePEMType :: "'p privPrims \<Rightarrow> string \<Rightarrow> bytes \<Rightarrow> bytes \<Rightarrow> 'p res" where
  "parsePEMType V ty buf spare =
     (if ty = ''RSA PRIVATE KEY'' then pv_PKCS1 V buf
      else if ty = ''EC PRIVATE KEY'' then pv_EC V buf
      else if ty = ''DSA PRIVATE KEY'' then ParseDSAPrivateKey V buf
      else if ty = ''OPENSSH PRIVATE KEY'' then parseOpenSSHPrivateKey V buf spare
      else Err (Errorf ''ssh: unsupported key type %q'' [] [ty]))"

text \<open>\<open>pem.Decode\<close> is the first argument: the block, if one is found.\<close>

definition ParseRawPrivateKey :: "(bytes \<Rightarrow> pemBlock option) \<Rightarrow> 'p privPrims \<Rightarrow> bytes \<Rightarrow> 'p res" where
  "ParseRawPrivateKey pem V pemBytes =
     (case pem pemBytes of
        None \<Rightarrow> Err (ErrNew ''ssh: no key found'')
      | Some block \<Rightarrow>
          if encryptedBlock block then Err (ErrNew ''ssh: cannot decode encrypted private keys'')
          else parsePEMType V (pb_Type block) (pb_Bytes block) (pb_Spare block))"

definition ParseRawPrivateKeyWithPassphrase ::
    "(bytes \<Rightarrow> pemBlock option) \<Rightarrow> 'p privPrims \<Rightarrow> bytes \<Rightarrow> bytes \<Rightarrow> bytes \<Rightarrow> 'p res" where
  "ParseRawPrivateKeyWithPassphrase pem V spare pemBytes passPhrase =
     (case pem pemBytes of
        None \<Rightarrow> Err (ErrNew ''ssh: no key found'')
      | Some block \<Rightarrow>
          if encryptedBlock block \<and> pv_isEncrypted V block then
            (case pv_decrypt V block passPhrase of
               Ok buf \<Rightarrow> parsePEMType V (pb_Type block) buf spare
             | Err e \<Rightarrow>
                 if e = incorrectPassword then Err e
                 else Err (ErrNew ''ssh: cannot decode encrypted private keys: '')
             | Panic x \<Rightarrow> Panic x)
          else parsePEMType V (pb_Type block) (pb_Bytes block) (pb_Spare block))"

end
