(* ===== verification/KeyFormat.thy ===== *)
theory KeyFormat
  imports Keys
begin

text \<open>
  Lemmas on the key formats: every well-formed key and certificate survives the wire, every parsed key can be
  named and marshalled again, and what a signer of the package produces verifies.
\<close>

section \<open>Struct lemmas\<close>

lemma tagBytes_untagged [simp]: "sshtype st = [] \<Longrightarrow> tagBytes st = []"
  by (simp add: tagBytes_def atoi_def map_filter_simps)

lemma anonStruct_simps [simp]: "sname (anonStruct fs) = []" "sshtype (anonStruct fs) = []" "sfields (anonStruct fs) = fs"
  by (simp_all add: anonStruct_def)

lemma structBytes_untagged [simp]: "sshtype st = [] \<Longrightarrow> structBytes st vs = fieldsBytes (sfields st) vs"
  by (simp add: structBytes_def)

lemma Unmarshal_untagged:
  assumes "sshtype st = []" "rest_last (sfields st)" "vals_ok (sfields st) vs" "d = fieldsBytes (sfields st) vs" "d \<noteq> []" "length d < 2 ^ 32"
  shows "Unmarshal st d = Ok vs"
  using Unmarshal_structBytes [of st vs] assms by (cases vs) (simp_all add: struct_ok_def)

lemma writeString_ne [simp]: "writeString [] b \<noteq> []"
  using length_be32 [of "word_of_nat (length b)"] by (auto simp: writeString_def simp del: length_be32)

lemma length_writeString [simp]: "length (writeString [] b) = 4 + length b"
  by (simp add: writeString_def)

lemma mpint_ne [simp]: "mpint n \<noteq> []"
  using length_mpint [of n] by (auto simp: intLength_def Let_def split: if_splits)

section \<open>Plain keys\<close>

text \<open>The bytes of a key behind its name, and the keys whose bytes are read back.\<close>

fun plainBody :: "keyPrims \<Rightarrow> publicKey \<Rightarrow> bytes" where
  "plainBody E (RSAPublicKey e n) = mpint e @ mpint n"
| "plainBody E (DSAPublicKey p q g y) = mpint p @ mpint q @ mpint g @ mpint y"
| "plainBody E (ECDSAPublicKey c x y) =
     writeString [] (bytes_of_string (case nistID c of Ok i \<Rightarrow> i | _ \<Rightarrow> [])) @ writeString [] (cv_Marshal (kp_curve E c) x y)"
| "plainBody E (ED25519PublicKey k) = writeString [] k"
| "plainBody E (CertPublicKey c) = []"

fun plainName :: "publicKey \<Rightarrow> string" where
  "plainName (RSAPublicKey e n) = KeyAlgoRSA"
| "plainName (DSAPublicKey p q g y) = KeyAlgoDSA"
| "plainName (ECDSAPublicKey c x y) =
     (case c of P256 \<Rightarrow> KeyAlgoECDSA256 | P384 \<Rightarrow> KeyAlgoECDSA384 | _ \<Rightarrow> KeyAlgoECDSA521)"
| "plainName (ED25519PublicKey k) = KeyAlgoED25519"
| "plainName (CertPublicKey c) = []"

fun plain_ok :: "keyPrims \<Rightarrow> publicKey \<Rightarrow> bool" where
  "plain_ok E (RSAPublicKey e n) = (3 \<le> e \<and> odd e \<and> bitLen (nat e) \<le> 24)"
| "plain_ok E (DSAPublicKey p q g y) = True"
| "plain_ok E (ECDSAPublicKey c x y) =
     (supportedEllipticCurve c \<and> cv_Unmarshal (kp_curve E c) (cv_Marshal (kp_curve E c) x y) = Some (x, y))"
| "plain_ok E (ED25519PublicKey k) = True"
| "plain_ok E (CertPublicKey c) = False"

text \<open>A key without a certificate whose curve has a name.\<close>

fun plain_typed :: "publicKey \<Rightarrow> bool" where
  "plain_typed (ECDSAPublicKey c x y) = supportedEllipticCurve c"
| "plain_typed (CertPublicKey c) = False"
| "plain_typed _ = True"

lemma plain_ok_typed: "plain_ok E k \<Longrightarrow> plain_typed k"
  by (cases k) simp_all

lemma nistID_simps [simp]: "nistID P256 = Ok ''nistp256''" "nistID P384 = Ok ''nistp384''" "nistID P521 = Ok ''nistp521''"
  by (simp_all add: nistID_def)

lemma plain_Type: "plain_typed k \<Longrightarrow> pk_Type k = Ok (plainName k)"
  by (cases k) (auto simp: supportedEllipticCurve_def)

lemma plain_Marshal:
  "plain_typed k \<Longrightarrow> pk_Marshal E k = Ok (writeString [] (bytes_of_string (plainName k)) @ plainBody E k)"
  by (cases k) (auto simp: supportedEllipticCurve_def Marshal_ok)

lemma plainBody_ne: "plain_typed k \<Longrightarrow> plainBody E k \<noteq> []"
  by (cases k) simp_all

lemma parsePlainKey_body:
  assumes "plain_ok E k" "length (plainBody E k @ r) < 2 ^ 32"
  shows "parsePlainKey E (plainBody E k @ r) (plainName k) = Ok (k, r)"
proof (cases k)
  case (RSAPublicKey e n)
  have "Unmarshal rsaWire (plainBody E k @ r) = Ok [VInt e, VInt n, VBytes r]"
    using assms(2) RSAPublicKey by (intro Unmarshal_untagged) (simp_all add: rsaWire_def)
  then show ?thesis using assms(1) RSAPublicKey by (simp add: parsePlainKey_def parseRSA_def)
next
  case (DSAPublicKey p q g y)
  have "Unmarshal dsaWire (plainBody E k @ r) = Ok [VInt p, VInt q, VInt g, VInt y, VBytes r]"
    using assms(2) DSAPublicKey by (intro Unmarshal_untagged) (simp_all add: dsaWire_def)
  then show ?thesis using DSAPublicKey by (simp add: parsePlainKey_def parseDSA_def)
next
  case (ECDSAPublicKey c x y)
  let ?i = "case nistID c of Ok i \<Rightarrow> i | _ \<Rightarrow> []"
  have "Unmarshal ecWire (plainBody E k @ r) = Ok [VString ?i, VBytes (cv_Marshal (kp_curve E c) x y), VBytes r]"
    using assms(2) ECDSAPublicKey by (intro Unmarshal_untagged) (simp_all add: ecWire_def)
  then have "parseECDSA E (plainBody E k @ r) = Ok (k, r)"
    using assms(1) ECDSAPublicKey by (auto simp: parseECDSA_def supportedEllipticCurve_def namedCurve_def)
  then show ?thesis using assms(1) ECDSAPublicKey by (auto simp: parsePlainKey_def supportedEllipticCurve_def)
next
  case (ED25519PublicKey b)
  have "Unmarshal edWire (plainBody E k @ r) = Ok [VBytes b, VBytes r]"
    using assms(2) ED25519PublicKey by (intro Unmarshal_untagged) (simp_all add: edWire_def)
  then show ?thesis using ED25519PublicKey by (simp add: parsePlainKey_def parseED25519_def)
qed (use assms in simp)

lemma plainName_not_cert: "plain_typed k \<Longrightarrow> \<not> isCertAlgo (plainName k)"
  by (cases k) (auto simp: isCertAlgo_def split: ecCurve.splits)

section \<open>Certificate parts\<close>

lemma parsePrincipals_bytes:
  "marshalStringList ps = Ok b \<Longrightarrow> length b < 2 ^ 32 \<Longrightarrow> parsePrincipals b = Ok ps"
proof (induction ps arbitrary: b)
  case (Cons p ps)
  then obtain bs where b: "marshalStringList ps = Ok bs" "b = writeString [] (bytes_of_string p) @ bs"
    by (auto simp: res_simps Marshal_ok)
  have "parseString b = Some (bytes_of_string p, bs)" using b(2) Cons.prems(2) strc.dec_enc by simp
  moreover have "parsePrincipals bs = Ok ps" using Cons b by simp
  moreover have "b \<noteq> []" using b(2) by simp
  ultimately show ?case by (subst parsePrincipals.simps) simp
qed (simp add: parsePrincipals.simps)

lemma tupleValue_bytes:
  "length v < 2 ^ 32 - 4 \<Longrightarrow> tupleValue (if v = [] then [] else writeString [] (bytes_of_string v)) = Ok v"
  using strc.dec_enc [of "bytes_of_string v" "[]"] by (simp add: tupleValue_def)

lemma update_new: "k \<notin> fst ` set al \<Longrightarrow> AList.update k v al = al @ [(k, v)]"
  by (induction al) auto

lemma optionValue_mem: "distinct (map fst tups) \<Longrightarrow> (k, v) \<in> set tups \<Longrightarrow> optionValue tups k = v"
  by (simp add: optionValue_def)

lemma marshalTupleKeys_bytes:
  assumes "distinct (map fst tups)" "set ts \<subseteq> set tups"
    and "marshalTupleKeys tups (map fst ts) = Ok b" "length b < 2 ^ 32"
    and "sorted_wrt (<) (map fst ts)" "\<forall>t \<in> set ts. (\<forall>k. lk = Some k \<longrightarrow> k < fst t) \<and> fst t \<notin> fst ` set acc"
  shows "parseTuplesLoop lk acc b = Ok (acc @ ts)"
  using assms(2-)
proof (induction ts arbitrary: b lk acc)
  case (Cons t ts)
  obtain k v where t: "t = (k, v)" by (cases t)
  have ov: "optionValue tups k = v" using optionValue_mem [OF assms(1)] Cons.prems(1) t by auto
  let ?v = "if v = [] then [] else writeString [] (bytes_of_string v)"
  obtain bs where b: "b = writeString [] (bytes_of_string k) @ writeString [] ?v @ bs" "marshalTupleKeys tups (map fst ts) = Ok bs"
    using Cons.prems(2) t ov by (auto simp: res_simps Marshal_ok optionsTupleStruct_def split: if_splits)
  have p: "parseString b = Some (bytes_of_string k, writeString [] ?v @ bs)" "parseString (writeString [] ?v @ bs) = Some (?v, bs)"
    using b(1) Cons.prems(3) strc.dec_enc by (auto split: if_splits)
  have v: "tupleValue ?v = Ok v" using b(1) Cons.prems(3) by (intro tupleValue_bytes) (auto split: if_splits)
  have "parseTuplesLoop (Some k) (acc @ [(k, v)]) bs = Ok ((acc @ [(k, v)]) @ ts)"
    using Cons.prems b t by (intro Cons.IH) (auto split: if_splits)
  moreover have "b \<noteq> []" using b(1) by simp
  moreover have "\<not> (case lk of Some k' \<Rightarrow> string_of_bytes (bytes_of_string k) \<le> k' | None \<Rightarrow> False)"
    using Cons.prems(5) t by (auto split: option.splits)
  ultimately show ?case
    using p v Cons.prems(5) t by (simp add: parseTuplesLoop.simps [of lk acc b] update_new)
qed (simp add: parseTuplesLoop.simps)

lemma parseTuples_bytes:
  assumes "sorted_wrt (<) (map fst ts)" "marshalTuples ts = Ok b" "length b < 2 ^ 32"
  shows "parseTuples b = Ok ts"
proof -
  have d: "distinct (map fst ts)" "sort (map fst ts) = map fst ts"
    using assms(1) by (auto simp: strict_sorted_iff sorted_sort_id)
  then show ?thesis
    using marshalTupleKeys_bytes [of ts ts b None "[]"] assms by (simp add: parseTuples_def marshalTuples_def)
qed

section \<open>Certificates\<close>

text \<open>
  Keys and certificates in the form the parser returns: a plain key in the certificate, a signature, and the
  options in the order of their names.
\<close>

primrec key_ok :: "keyPrims \<Rightarrow> publicKey \<Rightarrow> bool" and cert_ok :: "keyPrims \<Rightarrow> certificate \<Rightarrow> bool" where
  "key_ok E (RSAPublicKey e n) = plain_ok E (RSAPublicKey e n)"
| "key_ok E (DSAPublicKey p q g y) = plain_ok E (DSAPublicKey p q g y)"
| "key_ok E (ECDSAPublicKey c x y) = plain_ok E (ECDSAPublicKey c x y)"
| "key_ok E (ED25519PublicKey k) = plain_ok E (ED25519PublicKey k)"
| "key_ok E (CertPublicKey c) = cert_ok E c"
| "cert_ok E (Certificate nonce key serial ty kid ps va vb crit ext reserved sk sig) =
     (plain_ok E key \<and> length (plainBody E key) < 2 ^ 31 \<and> sorted_wrt (<) (map fst crit) \<and> sorted_wrt (<) (map fst ext) \<and>
      key_ok E sk \<and> sig \<noteq> None)"

lemma certName:
  assumes "plain_typed k"
  shows "\<exists>a. map_of certAlgoNames (plainName k) = Some a \<and> isCertAlgo a \<and> certToPrivAlgo a = Ok (plainName k) \<and> length a < 100"
  using assms by (cases k) (auto simp: certAlgoNames_def isCertAlgo_def certToPrivAlgo_def split: ecCurve.splits)

lemma parse_plain:
  assumes "plain_ok E k" "length (plainBody E k) < 2 ^ 31"
  shows "parseString (writeString [] (bytes_of_string (plainName k)) @ plainBody E k) = Some (bytes_of_string (plainName k), plainBody E k)"
proof -
  have "length (plainName k) < 100" using assms by (cases k) (auto split: ecCurve.splits)
  then show ?thesis using strc.dec_enc [of "bytes_of_string (plainName k)" "plainBody E k"] assms(2) by simp
qed

definition genericBytes :: "u64 \<Rightarrow> u32 \<Rightarrow> string \<Rightarrow> bytes \<Rightarrow> u64 \<Rightarrow> u64 \<Rightarrow> bytes \<Rightarrow> bytes \<Rightarrow> bytes \<Rightarrow> bytes \<Rightarrow> bytes \<Rightarrow> bytes" where
  "genericBytes serial ty kid ps va vb crit ext reserved sk sig =
     fieldsBytes (sfields genericCertStruct) [VU64 serial, VU32 ty, VString kid, VBytes ps, VU64 va, VU64 vb, VBytes crit, VBytes ext,
       VBytes reserved, VBytes sk, VBytes sig]"

lemma cert_Marshal_bytes:
  assumes "cert_Marshal E (Certificate nonce key serial ty kid ps va vb crit ext reserved sk sig) = Ok b"
    and "plain_ok E key" "length (plainBody E key) < 2 ^ 31" "map_of certAlgoNames (plainName key) = Some a"
  shows "\<exists>psb critb extb skb sigb. marshalStringList ps = Ok psb \<and> marshalTuples crit = Ok critb \<and> marshalTuples ext = Ok extb \<and>
    pk_Marshal E sk = Ok skb \<and> (case sig of Some s \<Rightarrow> marshalSignature s | None \<Rightarrow> Ok []) = Ok sigb \<and>
    b = writeString [] (bytes_of_string a) @ writeString [] nonce @ plainBody E key @
      genericBytes serial ty kid psb va vb critb extb reserved skb sigb"
proof -
  have t: "plain_typed key" by (rule plain_ok_typed [OF assms(2)])
  have g: "Marshal genericCertStruct vs = Ok (fieldsBytes (sfields genericCertStruct) vs)" if "vals_ok (sfields genericCertStruct) vs" for vs
    using that by (cases vs) (simp_all add: Marshal_ok genericCertStruct_def)
  show ?thesis
    using assms(1)
    by (auto simp: res_simps Let_def plain_Type [OF t] plain_Marshal [OF t] parse_plain [OF assms(2,3)] assms(4) Marshal_ok
      genericBytes_def genericCertStruct_def)
qed

lemma unmarshalGeneric_bytes:
  assumes "length (genericBytes serial ty kid ps va vb crit ext reserved sk sig) < 2 ^ 32"
  shows "unmarshalGeneric (genericBytes serial ty kid ps va vb crit ext reserved sk sig) =
    Ok \<lparr>gc_Serial = serial, gc_CertType = ty, gc_KeyId = kid, gc_ValidPrincipals = ps, gc_ValidAfter = va,
        gc_ValidBefore = vb, gc_CriticalOptions = crit, gc_Extensions = ext, gc_Reserved = reserved,
        gc_SignatureKey = sk, gc_Signature = sig\<rparr>"
proof -
  have "Unmarshal genericCertStruct (genericBytes serial ty kid ps va vb crit ext reserved sk sig) =
     Ok [VU64 serial, VU32 ty, VString kid, VBytes ps, VU64 va, VU64 vb, VBytes crit, VBytes ext, VBytes reserved, VBytes sk, VBytes sig]"
    using assms by (intro Unmarshal_untagged) (simp_all add: genericBytes_def genericCertStruct_def)
  then show ?thesis by (simp add: unmarshalGeneric_def)
qed

lemma signature_bytes:
  assumes "marshalSignature s = Ok b" "length b < 2 ^ 32"
  shows "parseSignatureBody b = Some (s, [])"
  using signature_roundtrip [of "sig_Format s" "sig_Blob s" b "[]"] assms by (simp add: marshalSignature_def)

lemma plain_roundtrip:
  assumes "plain_ok E k" "pk_Marshal E k = Ok b" "length b < 2 ^ 32"
  shows "ParsePublicKey E b = Ok k"
proof -
  have t: "plain_typed k" by (rule plain_ok_typed [OF assms(1)])
  have b: "b = writeString [] (bytes_of_string (plainName k)) @ plainBody E k" using assms(2) plain_Marshal [OF t] by simp
  have "parseString b = Some (bytes_of_string (plainName k), plainBody E k)"
    using b assms(3) strc.dec_enc [of "bytes_of_string (plainName k)" "plainBody E k"] by simp
  moreover have "parsePlainKey E (plainBody E k) (plainName k) = Ok (k, [])"
    using parsePlainKey_body [of E k "[]"] assms(1,3) b by simp
  ultimately show ?thesis using plainName_not_cert [OF t] by (simp add: ParsePublicKey_eq parsePubKey_def)
qed

lemma cert_roundtrip_step:
  assumes ok: "cert_ok E (Certificate nonce key serial ty kid ps va vb crit ext reserved sk sig)"
    and b: "cert_Marshal E (Certificate nonce key serial ty kid ps va vb crit ext reserved sk sig) = Ok b" "length b < 2 ^ 32"
    and sk: "\<And>d. pk_Marshal E sk = Ok d \<Longrightarrow> length d < 2 ^ 32 \<Longrightarrow> ParsePublicKey E d = Ok sk"
  shows "ParsePublicKey E b = Ok (CertPublicKey (Certificate nonce key serial ty kid ps va vb crit ext reserved sk sig))"
proof -
  have p: "plain_ok E key" "length (plainBody E key) < 2 ^ 31" using ok by simp_all
  obtain a where a: "map_of certAlgoNames (plainName key) = Some a" "isCertAlgo a" "certToPrivAlgo a = Ok (plainName key)"
    using certName [OF plain_ok_typed [OF p(1)]] by blast
  obtain s where s: "sig = Some s" using ok by auto
  obtain psb critb extb skb sigb where m: "marshalStringList ps = Ok psb" "marshalTuples crit = Ok critb" "marshalTuples ext = Ok extb"
    "pk_Marshal E sk = Ok skb" "marshalSignature s = Ok sigb"
    and be: "b = writeString [] (bytes_of_string a) @ writeString [] nonce @ plainBody E key @ genericBytes serial ty kid psb va vb critb extb reserved skb sigb"
    using cert_Marshal_bytes [OF b(1) p a(1)] s by auto
  let ?g = "genericBytes serial ty kid psb va vb critb extb reserved skb sigb"
  have len: "length psb < 2 ^ 32" "length critb < 2 ^ 32" "length extb < 2 ^ 32" "length skb < 2 ^ 32" "length sigb < 2 ^ 32" "length ?g < 2 ^ 32"
    using b(2) be by (simp_all add: genericBytes_def genericCertStruct_def)
  have s1: "parseString b = Some (bytes_of_string a, writeString [] nonce @ plainBody E key @ ?g)"
    and s2: "parseString (writeString [] nonce @ plainBody E key @ ?g) = Some (nonce, plainBody E key @ ?g)"
    using be b(2) strc.dec_enc by simp_all
  have k: "parsePlainKey E (plainBody E key @ ?g) (plainName key) = Ok (key, ?g)"
    using b(2) be by (intro parsePlainKey_body [OF p(1)]) simp
  note parts = parsePrincipals_bytes [OF m(1) len(1)] parseTuples_bytes [OF _ m(2) len(2)] parseTuples_bytes [OF _ m(3) len(3)]
    unmarshalGeneric_bytes [OF len(6)] sk [OF m(4) len(4)] signature_bytes [OF m(5) len(5)]
  show ?thesis
    using s1 s2 k parts a(2,3) ok s
    by (simp add: ParsePublicKey_eq parsePubKey_def parseCert_def certHead_def certTail_def)
qed

lemma key_roundtrip:
  fixes k :: publicKey and c :: certificate
  shows "key_ok E k \<Longrightarrow> pk_Marshal E k = Ok b \<Longrightarrow> length b < 2 ^ 32 \<Longrightarrow> ParsePublicKey E b = Ok k"
    and "cert_ok E c \<Longrightarrow> cert_Marshal E c = Ok b \<Longrightarrow> length b < 2 ^ 32 \<Longrightarrow> ParsePublicKey E b = Ok (CertPublicKey c)"
proof (induction k and c arbitrary: b and b)
  case (RSAPublicKey e n)
  then show ?case by (intro plain_roundtrip) (simp_all del: pk_Marshal.simps)
next
  case (DSAPublicKey p q g y)
  then show ?case by (intro plain_roundtrip) (simp_all del: pk_Marshal.simps)
next
  case (ECDSAPublicKey c x y)
  then show ?case by (intro plain_roundtrip) (simp_all del: pk_Marshal.simps)
next
  case (ED25519PublicKey k)
  then show ?case by (intro plain_roundtrip) (simp_all del: pk_Marshal.simps)
next
  case (CertPublicKey c)
  then show ?case by simp
next
  case (Certificate nonce key serial ty kid ps va vb crit ext reserved sk sig)
  then show ?case by (intro cert_roundtrip_step) (simp_all del: cert_Marshal.simps)
qed

section \<open>Parsed keys\<close>

primrec key_typed :: "publicKey \<Rightarrow> bool" and cert_typed :: "certificate \<Rightarrow> bool" where
  "key_typed (RSAPublicKey e n) = True"
| "key_typed (DSAPublicKey p q g y) = True"
| "key_typed (ECDSAPublicKey c x y) = supportedEllipticCurve c"
| "key_typed (ED25519PublicKey k) = True"
| "key_typed (CertPublicKey c) = cert_typed c"
| "cert_typed (Certificate nonce key serial ty kid ps va vb crit ext reserved sk sig) = (plain_typed key \<and> key_typed sk)"

lemma plain_key_typed: "plain_typed k \<Longrightarrow> key_typed k"
  by (cases k) simp_all

lemma key_ok_typed:
  fixes k :: publicKey and c :: certificate
  shows "key_ok E k \<Longrightarrow> key_typed k" and "cert_ok E c \<Longrightarrow> cert_typed c"
  by (induction k and c) (auto dest: plain_ok_typed)

lemma parsePlainKey_typed: "parsePlainKey E inp algo = Ok (k, r) \<Longrightarrow> plain_typed k"
  by (drule parsePlainKey_cases)
    (auto dest!: parseRSA_Ok parseDSA_Ok parseECDSA_Ok parseED25519_Ok simp: namedCurve_def supportedEllipticCurve_def split: if_splits)

lemma parsed_typed: "ParsePublicKey E inp = Ok k \<Longrightarrow> key_typed k"
proof (induction E inp arbitrary: k rule: ParsePublicKey.induct)
  case (1 E inp)
  obtain algo rest where a: "parseString inp = Some (algo, rest)"
    using "1.prems" by (auto simp: ParsePublicKey_eq split: option.splits)
  show ?case
  proof (cases "isCertAlgo (string_of_bytes algo)")
    case False
    then show ?thesis
      using "1.prems" a parsePlainKey_typed plain_key_typed
      by (fastforce simp: ParsePublicKey_eq parsePubKey_def res_simps split: if_splits)
  next
    case True
    obtain pa p sk c where c: "certToPrivAlgo (string_of_bytes algo) = Ok pa" "certHead E rest pa = Ok p"
        "ParsePublicKey E (gc_SignatureKey (cp_generic p)) = Ok sk" "certTail p sk = Ok c" "k = CertPublicKey c"
      using "1.prems" a True by (auto simp: ParsePublicKey_eq [of E inp] parsePubKey_def parseCert_def res_simps)
    have "key_typed sk" using "1.IH" [OF a _ True c(1,2)] c(3) by simp
    moreover have "plain_typed (cp_Key p)"
      using c(2) parsePlainKey_typed by (auto simp: certHead_def res_simps split: option.splits)
    ultimately show ?thesis using c(4,5) by (auto simp: certTail_def Let_def split: option.splits if_splits)
  qed
qed

lemma marshalStringList_total: "\<exists>b. marshalStringList ps = Ok b"
  by (induction ps) (auto simp: Marshal_ok)

lemma marshalTupleKeys_total: "\<exists>b. marshalTupleKeys tups ks = Ok b"
  by (induction ks) (auto simp: Marshal_ok optionsTupleStruct_def)

lemma typed_total:
  fixes k :: publicKey and c :: certificate
  shows "key_typed k \<Longrightarrow> (\<exists>t. pk_Type k = Ok t) \<and> (\<exists>b. pk_Marshal E k = Ok b)"
    and "cert_typed c \<Longrightarrow> (\<exists>t. cert_Type c = Ok t) \<and> (\<exists>b. cert_Marshal E c = Ok b)"
proof (induction k and c)
  case (Certificate nonce key serial ty kid ps va vb crit ext reserved sk sig)
  have p: "plain_typed key" using Certificate by simp
  obtain a where a: "map_of certAlgoNames (plainName key) = Some a" using certName [OF p] by blast
  obtain skb where sk: "pk_Marshal E sk = Ok skb" using Certificate by auto
  obtain sb where "(case sig of Some s \<Rightarrow> marshalSignature s | None \<Rightarrow> Ok []) = Ok sb"
    by (cases sig) (auto simp: marshalSignature_def signatureStruct_def Marshal_ok)
  moreover obtain psb where "marshalStringList ps = Ok psb" using marshalStringList_total by blast
  moreover obtain cb where "marshalTuples crit = Ok cb" using marshalTupleKeys_total by (auto simp: marshalTuples_def)
  moreover obtain eb where "marshalTuples ext = Ok eb" using marshalTupleKeys_total by (auto simp: marshalTuples_def)
  ultimately show ?case
    using a sk by (simp add: plain_Type [OF p] plain_Marshal [OF p] Marshal_ok genericCertStruct_def Let_def)
qed (auto simp: Marshal_ok supportedEllipticCurve_def)

section \<open>Signing\<close>

text \<open>
  The library's signers return signatures that the library verifies: the documented contract of a
  \<open>crypto.Signer\<close> for its public key. The integers of a DSA signature are below \<open>q\<close>, which has 160 bits.
\<close>

definition signerCorrect :: "keyPrims \<Rightarrow> (bytes \<Rightarrow> cryptoHash option \<Rightarrow> bytes res) \<Rightarrow> (bytes \<Rightarrow> (int \<times> int) res) \<Rightarrow> publicKey \<Rightarrow> bool" where
  "signerCorrect E signf asn1 pub \<longleftrightarrow>
     (case pub of
        RSAPublicKey e n \<Rightarrow> (\<forall>d s. signf d (Some SHA1) = Ok s \<longrightarrow> kp_rsaVerify E (e, n) d s = Ok ())
      | DSAPublicKey p q g y \<Rightarrow> (\<forall>d s r t. signf d (Some SHA1) = Ok s \<and> asn1 s = Ok (r, t) \<longrightarrow>
          0 \<le> r \<and> r < 2 ^ 160 \<and> 0 \<le> t \<and> t < 2 ^ 160 \<and> kp_dsaVerify E (p, q, g, y) d r t)
      | ECDSAPublicKey c x y \<Rightarrow> (\<forall>d h s r t. signf d (Some h) = Ok s \<and> asn1 s = Ok (r, t) \<longrightarrow>
          kp_ecdsaVerify E (c, x, y) d r t \<and> intLength r + intLength t < 2 ^ 32)
      | ED25519PublicKey k \<Rightarrow> (\<forall>d s. signf d None = Ok s \<longrightarrow> kp_edVerify E k d s = Ok True)
      | CertPublicKey c \<Rightarrow> True)"

lemma bitLen_le: "n < 2 ^ k \<Longrightarrow> bitLen n \<le> k"
proof (induction k arbitrary: n)
  case (Suc k)
  show ?case
  proof (cases "n = 0")
    case False
    then have "bitLen n = Suc (bitLen (n div 2))" by (simp add: bitLen_Suc)
    moreover have "n div 2 < 2 ^ k" using Suc.prems by (simp add: less_mult_imp_div_less mult.commute)
    ultimately show ?thesis using Suc.IH by simp
  qed simp
qed simp

lemma natBytes_20: "n < 2 ^ 160 \<Longrightarrow> length (natBytes n) \<le> 20"
  using bitLen_le [of n 160] by (simp add: natBytes_length)

lemma setBytes_zeros [simp]: "setBytes (replicate k 0 @ b) = setBytes b"
  by (induction k) simp_all

lemma copy_at_zeros:
  "off + length src \<le> n \<Longrightarrow> copy_at (replicate n 0) off src = replicate off 0 @ src @ replicate (n - off - length src) 0"
  by (simp add: copy_at_fits min_def)

lemma copy_at_behind:
  "length a \<le> off \<Longrightarrow> off + length src \<le> length (a @ b) \<Longrightarrow> copy_at (a @ b) off src = a @ copy_at b (off - length a) src"
  by (simp add: copy_at_fits)

lemma copy_halves:
  assumes "length r \<le> k" "length t \<le> k"
  shows "copy_at (copy_at (replicate (k + k) 0) (k - length r) r) (k + k - length t) t =
    (replicate (k - length r) 0 @ r) @ (replicate (k - length t) 0 @ t)"
proof -
  have "copy_at (replicate (k + k) 0) (k - length r) r = (replicate (k - length r) 0 @ r) @ replicate k 0"
    using copy_at_zeros [of "k - length r" r "k + k"] assms(1) by simp
  moreover have "copy_at ((replicate (k - length r) 0 @ r) @ replicate k 0) (k + k - length t) t =
      (replicate (k - length r) 0 @ r) @ copy_at (replicate k 0) (k + k - length t - length (replicate (k - length r) 0 @ r)) t"
    by (rule copy_at_behind) (use assms in simp_all)
  moreover have "k + k - length t - length (replicate (k - length r) 0 @ r) = k - length t" using assms by simp
  ultimately show ?thesis using copy_at_zeros [of "k - length t" t k] assms(2) by simp
qed

lemma dsaBlob_eq:
  assumes "length (natBytes (nat \<bar>r\<bar>)) \<le> 20" "length (natBytes (nat \<bar>t\<bar>)) \<le> 20"
  shows "dsaBlob r t = Ok ((replicate (20 - length (natBytes (nat \<bar>r\<bar>))) 0 @ natBytes (nat \<bar>r\<bar>)) @
    (replicate (20 - length (natBytes (nat \<bar>t\<bar>))) 0 @ natBytes (nat \<bar>t\<bar>)))"
proof -
  have "(40 :: nat) = 20 + 20" "\<not> (length (natBytes (nat \<bar>r\<bar>)) > 20 \<or> length (natBytes (nat \<bar>t\<bar>)) > 20 + 20)" using assms by linarith+
  then show ?thesis using copy_halves [OF assms] unfolding dsaBlob_def Let_def by (simp only: if_False)
qed

lemma setBytes_pad: "int (setBytes (replicate n 0 @ natBytes (nat r))) = max 0 r"
  by simp

lemma dsaBlob_parts:
  assumes "0 \<le> r" "r < 2 ^ 160" "0 \<le> t" "t < 2 ^ 160"
  shows "\<exists>b. dsaBlob r t = Ok b \<and> length b = 40 \<and> int (setBytes (take 20 b)) = r \<and> int (setBytes (drop 20 b)) = t"
proof -
  let ?r = "natBytes (nat r)" and ?t = "natBytes (nat t)"
  define R T where RT: "R = replicate (20 - length ?r) 0 @ ?r" "T = replicate (20 - length ?t) 0 @ ?t"
  have l: "length ?r \<le> 20" "length ?t \<le> 20" using assms by (intro natBytes_20; simp add: nat_less_iff)+
  have n: "length R = 20" "length T = 20" using l by (simp_all add: RT)
  have v: "int (setBytes R) = r" "int (setBytes T) = t" using assms(1,3) unfolding RT setBytes_pad by simp_all
  have "dsaBlob r t = Ok (R @ T)" using dsaBlob_eq [of r t] l assms(1,3) by (simp only: RT abs_of_nonneg)
  then show ?thesis using n v by simp
qed

lemma wrapped_verifies:
  assumes "signerCorrect E signf asn1 pub" "wrapped_Sign E signf asn1 pub data = Ok sig"
  shows "pk_Verify E pub data sig = Ok ()"
proof (cases pub)
  case (DSAPublicKey p q g y)
  obtain s r t b where s: "signf (h_sum (kp_hash E SHA1) data) (Some SHA1) = Ok s" "asn1 s = Ok (r, t)" "dsaBlob r t = Ok b"
      "sig = \<lparr>sig_Format = KeyAlgoDSA, sig_Blob = b\<rparr>"
    using assms(2) DSAPublicKey by (auto simp: wrapped_Sign_def wrapped_hash_def res_simps)
  then show ?thesis
    using assms(1) DSAPublicKey dsaBlob_parts [of r t] by (auto simp: signerCorrect_def)
next
  case (ECDSAPublicKey c x y)
  obtain s r t b ty where s: "signf (h_sum (kp_hash E (ecHash (kp_curve E c))) data) (Some (ecHash (kp_curve E c))) = Ok s" "asn1 s = Ok (r, t)"
      "b = mpint r @ mpint t" "pk_Type pub = Ok ty" "sig = \<lparr>sig_Format = ty, sig_Blob = b\<rparr>"
    using assms(2) ECDSAPublicKey by (auto simp: wrapped_Sign_def wrapped_hash_def res_simps Marshal_ok)
  have "kp_ecdsaVerify E (c, x, y) (h_sum (kp_hash E (ecHash (kp_curve E c))) data) r t" "intLength r + intLength t < 2 ^ 32"
    using assms(1) s(1,2) ECDSAPublicKey by (auto simp: signerCorrect_def)
  moreover have "Unmarshal ecSigStruct b = Ok [VInt r, VInt t]"
    using s(3) calculation(2) by (intro Unmarshal_untagged) (simp_all add: ecSigStruct_def length_mpint)
  ultimately show ?thesis using s(4,5) ECDSAPublicKey by (auto simp: res_simps)
next
  case (RSAPublicKey e n)
  obtain s where "signf (h_sum (kp_hash E SHA1) data) (Some SHA1) = Ok s" "sig = \<lparr>sig_Format = KeyAlgoRSA, sig_Blob = s\<rparr>"
    using assms(2) RSAPublicKey by (auto simp: wrapped_Sign_def wrapped_hash_def res_simps)
  then show ?thesis using assms(1) RSAPublicKey by (simp add: signerCorrect_def)
next
  case (ED25519PublicKey k)
  obtain s where "signf data None = Ok s" "sig = \<lparr>sig_Format = KeyAlgoED25519, sig_Blob = s\<rparr>"
    using assms(2) ED25519PublicKey by (auto simp: wrapped_Sign_def wrapped_hash_def res_simps)
  then show ?thesis using assms(1) ED25519PublicKey by (simp add: signerCorrect_def)
next
  case (CertPublicKey c)
  then show ?thesis using assms by (simp add: wrapped_Sign_def wrapped_hash_def)
qed

section \<open>Concrete primitives\<close>

definition echoCurve :: curve where
  "echoCurve = \<lparr>cv_P = 11, cv_BitSize = 256, cv_IsOnCurve = (\<lambda>_ _. True), cv_ScalarMult = (\<lambda>x y _. (x, y)),
     cv_Marshal = (\<lambda>x y. [4, word_of_int x, word_of_int y]),
     cv_Unmarshal = (\<lambda>b. case b of [_, x, y] \<Rightarrow> Some (uint x, uint y) | _ \<Rightarrow> None)\<rparr>"

text \<open>A signature of the data is the digest; Ed25519 panics on a key that does not have 32 bytes.\<close>

definition toyKeys :: keyPrims where
  "toyKeys = \<lparr>kp_curve = (\<lambda>_. echoCurve), kp_hash = (\<lambda>_. \<lparr>h_sum = (\<lambda>d. d), h_size = 0\<rparr>),
     kp_rsaVerify = (\<lambda>_ d s. if d = s then Ok () else Err (ErrNew ''crypto/rsa: verification error'')),
     kp_dsaVerify = (\<lambda>_ _ _ _. True), kp_ecdsaVerify = (\<lambda>_ _ _ _. True),
     kp_edVerify = (\<lambda>k d s. if length k \<noteq> 32 then Panic ''ed25519: bad public key length'' else Ok (d = s))\<rparr>"

definition toyCert :: certificate where
  "toyCert = Certificate [9] (ED25519PublicKey [1, 2]) 7 1 ''id'' [''root''] 10 20 [(''force-command'', ''ls'')] [(''permit-pty'', [])] []
     (ED25519PublicKey [3]) (Some \<lparr>sig_Format = ''ssh-ed25519'', sig_Blob = [8]\<rparr>)"

lemma toyCert_ok: "cert_ok E toyCert"
  by (simp add: toyCert_def)

lemma toyCert_Marshal: "\<exists>b. cert_Marshal E toyCert = Ok b \<and> length b < 2 ^ 32"
proof -
  have t: "marshalTuples [(a, v)] = marshalTupleKeys [(a, v)] [a]" for a v by (simp add: marshalTuples_def)
  show ?thesis
    by (simp add: toyCert_def Marshal_ok marshalSignature_def signatureStruct_def genericCertStruct_def t optionValue_def
      optionsTupleStruct_def Let_def certAlgoNames_def strc.dec_enc)
qed

section \<open>Properties\<close>

text \<open>C37: Keys and certificates survive the wire. What \<open>Marshal\<close> writes for a well-formed key of any type, certificates
  signed by certificates included, \<open>ParsePublicKey\<close> reads back as the same key.\<close>

theorem ParsePublicKey_Marshal:
  assumes "key_ok E k" "pk_Marshal E k = Ok b" "length b < 2 ^ 32"
  shows "ParsePublicKey E b = Ok k"
  by (rule key_roundtrip(1) [OF assms])

lemma ParsePublicKey_Marshal_witness:
  "\<exists>b. pk_Marshal toyKeys (CertPublicKey toyCert) = Ok b \<and> ParsePublicKey toyKeys b = Ok (CertPublicKey toyCert)"
proof -
  obtain b where b: "cert_Marshal toyKeys toyCert = Ok b" "length b < 2 ^ 32" using toyCert_Marshal by blast
  have "ParsePublicKey toyKeys b = Ok (CertPublicKey toyCert)"
    by (rule ParsePublicKey_Marshal) (use b toyCert_ok in simp_all)
  then show ?thesis using b by auto
qed

text \<open>C38: Whatever bytes a peer sends as a key, if the parser accepts them, the key is of a type with a name and a
  format: neither naming nor marshalling it can panic, and in a certificate the key is not itself a certificate.\<close>

theorem parsed_key_usable:
  assumes "ParsePublicKey E inp = Ok k"
  shows "(\<exists>t. pk_Type k = Ok t) \<and> (\<exists>b. pk_Marshal E k = Ok b) \<and> key_typed k"
  using parsed_typed [OF assms] typed_total(1) [of k E] by blast

lemma parsed_key_usable_witness:
  "\<exists>k t. ParsePublicKey toyKeys (writeString [] (bytes_of_string ''ssh-ed25519'') @ writeString [] [1]) = Ok k \<and> pk_Type k = Ok t"
proof -
  have m: "pk_Marshal toyKeys (ED25519PublicKey [1]) = Ok (writeString [] (bytes_of_string ''ssh-ed25519'') @ writeString [] [1])"
    by (simp add: Marshal_ok)
  have "ParsePublicKey toyKeys (writeString [] (bytes_of_string ''ssh-ed25519'') @ writeString [] [1]) = Ok (ED25519PublicKey [1])"
    by (rule key_roundtrip(1) [OF _ m]) simp_all
  from parsed_key_usable [OF this] this show ?thesis by blast
qed

text \<open>What a signer of the package signs, its public key verifies: for RSA, DSA, ECDSA and Ed25519 keys, given a
  library signer that is correct for the key, through the re-encoding of the two integers of DSA and ECDSA.\<close>

theorem signed_verifies:
  assumes "signerCorrect E signf asn1 pub" "wrapped_Sign E signf asn1 pub data = Ok sig"
  shows "pk_Verify E pub data sig = Ok ()"
  by (rule wrapped_verifies [OF assms])

lemma signed_verifies_witness:
  "\<exists>sig. wrapped_Sign toyKeys (\<lambda>d _. Ok d) (\<lambda>s. Ok (5, 6)) (DSAPublicKey 1 2 3 4) [7] = Ok sig \<and>
     pk_Verify toyKeys (DSAPublicKey 1 2 3 4) [7] sig = Ok ()"
proof -
  have c: "signerCorrect toyKeys (\<lambda>d _. Ok d) (\<lambda>s. Ok (5, 6)) (DSAPublicKey 1 2 3 4)"
    by (simp add: signerCorrect_def toyKeys_def)
  obtain b where "dsaBlob 5 6 = Ok b" using dsaBlob_parts [of 5 6] by auto
  then obtain sig where s: "wrapped_Sign toyKeys (\<lambda>d _. Ok d) (\<lambda>s. Ok (5, 6)) (DSAPublicKey 1 2 3 4) [7] = Ok sig"
    by (simp add: wrapped_Sign_def wrapped_hash_def)
  from signed_verifies [OF c s] s show ?thesis by blast
qed

end
