(* ===== verification/NetAddr.thy ===== *)
theory NetAddr
  imports Prelude
begin

text \<open>
  The functions of Go's package \<open>net\<close> on addresses of the form \<open>host:port\<close>, as the certificate checker, the
  known hosts database and the forwarding code use them. An address error keeps its text.
\<close>

section \<open>Searching\<close>

fun indexChar :: "string \<Rightarrow> char \<Rightarrow> nat option" where
  "indexChar [] c = None"
| "indexChar (x # xs) c = (if x = c then Some 0 else map_option Suc (indexChar xs c))"

fun lastIndexChar :: "string \<Rightarrow> char \<Rightarrow> nat option" where
  "lastIndexChar [] c = None"
| "lastIndexChar (x # xs) c =
     (case lastIndexChar xs c of Some i \<Rightarrow> Some (Suc i) | None \<Rightarrow> if x = c then Some 0 else None)"

lemma indexChar_None [simp]: "indexChar s c = None \<longleftrightarrow> c \<notin> set s"
  by (induction s) auto

lemma lastIndexChar_None [simp]: "lastIndexChar s c = None \<longleftrightarrow> c \<notin> set s"
  by (induction s) (auto split: option.splits)

lemma indexChar_append: "c \<notin> set a \<Longrightarrow> indexChar (a @ c # b) c = Some (length a)"
  by (induction a) auto

lemma lastIndexChar_append: "c \<notin> set b \<Longrightarrow> lastIndexChar (a @ c # b) c = Some (length a)"
proof (induction a)
  case Nil
  then show ?case using lastIndexChar_None [of b c] by (simp del: lastIndexChar_None)
qed simp

section \<open>Splitting and joining\<close>

definition addrErr :: "string \<Rightarrow> string \<Rightarrow> gerror" where
  "addrErr why addr = Errorf ''address %s: %s'' [] [addr, why]"

definition SplitHostPort :: "string \<Rightarrow> (string \<times> string) res" where
  "SplitHostPort hostport =
     (case lastIndexChar hostport CHR '':'' of
        None \<Rightarrow> Err (addrErr ''missing port in address'' hostport)
      | Some i \<Rightarrow>
          let finish = (\<lambda>host j k.
            if CHR ''['' \<in> set (drop j hostport) then Err (addrErr ''unexpected '[' in address'' hostport)
            else if CHR '']'' \<in> set (drop k hostport) then Err (addrErr ''unexpected ']' in address'' hostport)
            else Ok (host, drop (i + 1) hostport)) in
          if hd hostport = CHR ''['' then
            (case indexChar hostport CHR '']'' of
               None \<Rightarrow> Err (addrErr ''missing ']' in address'' hostport)
             | Some end' \<Rightarrow>
                 if end' + 1 = length hostport then Err (addrErr ''missing port in address'' hostport)
                 else if end' + 1 = i then finish (take (end' - 1) (drop 1 hostport)) 1 (end' + 1)
                 else if hostport ! (end' + 1) = CHR '':'' then Err (addrErr ''too many colons in address'' hostport)
                 else Err (addrErr ''missing port in address'' hostport))
          else if CHR '':'' \<in> set (take i hostport) then Err (addrErr ''too many colons in address'' hostport)
          else finish (take i hostport) 0 0)"

definition JoinHostPort :: "string \<Rightarrow> string \<Rightarrow> string" where
  "JoinHostPort host port =
     (if CHR '':'' \<in> set host then ''['' @ host @ '']:'' @ port else host @ '':'' @ port)"

definition noBrackets :: "string \<Rightarrow> bool" where
  "noBrackets s \<longleftrightarrow> CHR ''['' \<notin> set s \<and> CHR '']'' \<notin> set s"

lemma Split_Join:
  assumes "noBrackets host" "noBrackets port" "CHR '':'' \<notin> set port"
  shows "SplitHostPort (JoinHostPort host port) = Ok (host, port)"
proof (cases "CHR '':'' \<in> set host")
  case True
  let ?s = "''['' @ host @ '']:'' @ port"
  have l: "lastIndexChar ?s CHR '':'' = Some (length host + 2)"
    using lastIndexChar_append [OF assms(3), of "''['' @ host @ '']''"] by simp
  have r: "indexChar ?s CHR '']'' = Some (length host + 1)"
    using indexChar_append [of "CHR '']''" "''['' @ host" "'':'' @ port"] assms(1) by (simp add: noBrackets_def)
  show ?thesis using True l r assms by (simp add: JoinHostPort_def SplitHostPort_def noBrackets_def Let_def)
next
  case False
  have l: "lastIndexChar (host @ '':'' @ port) CHR '':'' = Some (length host)"
    using lastIndexChar_append [OF assms(3), of host] by simp
  have h: "hd (host @ '':'' @ port) \<noteq> CHR ''[''" using assms(1) by (cases host) (auto simp: noBrackets_def)
  show ?thesis using False l h assms by (simp add: JoinHostPort_def SplitHostPort_def noBrackets_def Let_def)
qed

end
