(* ===== verification/Certs.thy ===== *)
theory Certs
  imports KeyFormat NetAddr
begin

text \<open>
  Checking and signing certificates (\<open>src/certs.go\<close>): \<open>CertChecker\<close>, \<open>SignCert\<close> and the signer of a certificate. The
  callbacks of a checker are functions that may panic, a nil callback is \<open>None\<close>, the time of the clock is an
  argument, and a \<open>net.Addr\<close> is its string.
\<close>

section \<open>Checking\<close>

record Permissions =
  CriticalOptions :: "(string \<times> string) list"
  Extensions :: "(string \<times> string) list"

definition UserCert :: u32 where "UserCert = 1"
definition HostCert :: u32 where "HostCert = 2"
definition CertTimeInfinity :: u64 where "CertTimeInfinity = - 1"

abbreviation (input) sourceAddressCriticalOption :: string where
  "sourceAddressCriticalOption \<equiv> ''source-address''"

record 'conn CertChecker =
  SupportedCriticalOptions :: "string list"
  IsUserAuthority :: "(publicKey \<Rightarrow> bool res) option"
  IsHostAuthority :: "(publicKey \<Rightarrow> string \<Rightarrow> bool res) option"
  UserKeyFallback :: "('conn \<Rightarrow> publicKey \<Rightarrow> Permissions res) option"
  HostKeyFallback :: "(string \<Rightarrow> string \<Rightarrow> publicKey \<Rightarrow> unit res) option"
  IsRevoked :: "(certificate \<Rightarrow> bool res) option"

definition nilCall :: "'a res" where
  "nilCall = Panic ''invalid memory address or nil pointer dereference''"

primrec checkOptions :: "string list \<Rightarrow> (string \<times> string) list \<Rightarrow> unit res" where
  "checkOptions supported [] = Ok ()"
| "checkOptions supported (o' # os) =
     (if fst o' = sourceAddressCriticalOption then checkOptions supported os
      else if fst o' \<notin> set supported then Err (Errorf ''ssh: unsupported critical option %q in certificate'' [] [fst o'])
      else checkOptions supported os)"

definition checkTime :: "int \<Rightarrow> certificate \<Rightarrow> unit res" where
  "checkTime unixNow cert =
     (let after = sint (c_ValidAfter cert); before = sint (c_ValidBefore cert) in
      if after < 0 \<or> unixNow < after then Err (ErrNew ''ssh: cert is not yet valid'')
      else if c_ValidBefore cert \<noteq> CertTimeInfinity \<and> (unixNow \<ge> before \<or> before < 0) then Err (ErrNew ''ssh: cert has expired'')
      else Ok ())"

text \<open>A certificate without a signature has the nil pointer there, which \<open>Verify\<close> dereferences.\<close>

definition verifyCert :: "keyPrims \<Rightarrow> certificate \<Rightarrow> unit res" where
  "verifyCert E cert =
     res_bind (bytesForSigning E cert) (\<lambda>b.
       case c_Signature cert of
         None \<Rightarrow> nilCall
       | Some sig \<Rightarrow>
           (case pk_Verify E (c_SignatureKey cert) b sig of
              Err e \<Rightarrow> Err (ErrNew ''ssh: certificate signature does not verify'')
            | r \<Rightarrow> r))"

definition CheckCert :: "keyPrims \<Rightarrow> int \<Rightarrow> 'conn CertChecker \<Rightarrow> string \<Rightarrow> certificate \<Rightarrow> unit res" where
  "CheckCert E now c principal' cert =
     res_bind (case IsRevoked c of Some f \<Rightarrow> f cert | None \<Rightarrow> Ok False) (\<lambda>revoked.
      if revoked then Err (Errorf ''ssh: certicate serial %d revoked'' [unat (c_Serial cert)] [])
      else
        res_bind (checkOptions (SupportedCriticalOptions c) (c_CriticalOptions cert)) (\<lambda>_.
          if length (c_ValidPrincipals cert) > 0 \<and> principal' \<notin> set (c_ValidPrincipals cert)
          then Err (Errorf ''ssh: principal %q not in the set of valid principals for given certificate: %q'' []
                 (principal' # c_ValidPrincipals cert))
          else res_bind (checkTime now cert) (\<lambda>_. verifyCert E cert)))"

definition CheckHostKey :: "keyPrims \<Rightarrow> int \<Rightarrow> 'conn CertChecker \<Rightarrow> string \<Rightarrow> string \<Rightarrow> publicKey \<Rightarrow> unit res" where
  "CheckHostKey E now c addr remote key =
     (case key of
        CertPublicKey cert \<Rightarrow>
          if c_CertType cert \<noteq> HostCert
          then Err (Errorf ''ssh: certificate presented as a host key has type %d'' [unat (c_CertType cert)] [])
          else
            (case IsHostAuthority c of
               None \<Rightarrow> nilCall
             | Some f \<Rightarrow>
                 res_bind (f (c_SignatureKey cert) addr) (\<lambda>ok.
                   if \<not> ok then Err (Errorf ''ssh: no authorities for hostname: %v'' [] [addr])
                   else res_bind (SplitHostPort addr) (\<lambda>(hostname, _). CheckCert E now c hostname cert)))
      | _ \<Rightarrow>
          (case HostKeyFallback c of
             Some f \<Rightarrow> f addr remote key
           | None \<Rightarrow> Err (ErrNew ''ssh: non-certificate host key'')))"

text \<open>\<open>conn.User()\<close> is the argument \<open>user\<close>.\<close>

definition Authenticate :: "keyPrims \<Rightarrow> int \<Rightarrow> 'conn CertChecker \<Rightarrow> ('conn \<Rightarrow> string) \<Rightarrow> 'conn \<Rightarrow> publicKey \<Rightarrow> Permissions res" where
  "Authenticate E now c user conn pubKey =
     (case pubKey of
        CertPublicKey cert \<Rightarrow>
          if c_CertType cert \<noteq> UserCert then Err (Errorf ''ssh: cert has type %d'' [unat (c_CertType cert)] [])
          else
            (case IsUserAuthority c of
               None \<Rightarrow> nilCall
             | Some f \<Rightarrow>
                 res_bind (f (c_SignatureKey cert)) (\<lambda>ok.
                   if \<not> ok then Err (ErrNew ''ssh: certificate signed by unrecognized authority'')
                   else
                     res_bind (CheckCert E now c (user conn) cert) (\<lambda>_.
                       Ok \<lparr>CriticalOptions = c_CriticalOptions cert, Extensions = c_Extensions cert\<rparr>)))
      | _ \<Rightarrow>
          (case UserKeyFallback c of
             Some f \<Rightarrow> f conn pubKey
           | None \<Rightarrow> Err (ErrNew ''ssh: normal key pairs not accepted'')))"

section \<open>Signing\<close>

text \<open>The updates of the fields that \<open>SignCert\<close> assigns.\<close>

primrec withNonce :: "bytes \<Rightarrow> publicKey \<Rightarrow> certificate \<Rightarrow> certificate" where
  "withNonce nonce sk (Certificate nonce' key serial ty kid ps va vb crit ext reserved sk' sig) =
     Certificate nonce key serial ty kid ps va vb crit ext reserved sk sig"

primrec withSignature :: "Signature \<Rightarrow> certificate \<Rightarrow> certificate" where
  "withSignature s (Certificate nonce key serial ty kid ps va vb crit ext reserved sk sig) =
     Certificate nonce key serial ty kid ps va vb crit ext reserved sk (Some s)"

text \<open>\<open>rnd\<close> is what the random source delivers: 32 bytes or an error.\<close>

definition SignCert :: "keyPrims \<Rightarrow> bytes res \<Rightarrow> sshSigner \<Rightarrow> certificate \<Rightarrow> certificate res" where
  "SignCert E rnd authority c =
     res_bind rnd (\<lambda>nonce.
     let c1 = withNonce nonce (ss_pub authority) c in
     res_bind (bytesForSigning E c1) (\<lambda>b.
     res_bind (ss_Sign authority b) (\<lambda>sig. Ok (withSignature sig c1))))"

definition NewCertSigner :: "keyPrims \<Rightarrow> certificate \<Rightarrow> sshSigner \<Rightarrow> sshSigner res" where
  "NewCertSigner E cert signer' =
     res_bind (pk_Marshal E (c_Key cert)) (\<lambda>a.
     res_bind (pk_Marshal E (ss_pub signer')) (\<lambda>b.
       if a \<noteq> b then Err (ErrNew ''ssh: signer and cert have different public key'')
       else Ok \<lparr>ss_pub = CertPublicKey cert, ss_Sign = ss_Sign signer'\<rparr>))"

section \<open>Lemmas\<close>

lemma checkOptions_iff:
  "checkOptions supported os = Ok () \<longleftrightarrow> (\<forall>o' \<in> set os. fst o' = sourceAddressCriticalOption \<or> fst o' \<in> set supported)"
  by (induction os) auto

lemma sint_u64: "sint (w :: u64) = (if unat w < 2 ^ 63 then int (unat w) else int (unat w) - 2 ^ 64)"
proof -
  define M :: int where "M = 2 ^ 63"
  have M: "2 ^ 64 = 2 * M" "0 \<le> M" by (simp_all add: M_def)
  have u: "0 \<le> uint w" "uint w < 2 * M" by (rule uint_ge_0, use uint_bounded [of w] in \<open>simp add: M_def\<close>)
  have "LENGTH(64) - Suc 0 = 63" by simp
  then have s: "sint w = signed_take_bit 63 (uint w)" using sint_uint [of w] by (simp only:)
  have n: "unat w < 2 ^ 63 \<longleftrightarrow> uint w < M" using of_nat_less_iff [of "unat w" "2 ^ 63", where 'a = int] by (simp add: M_def)
  show ?thesis
  proof (cases "uint w < M")
    case True
    have "signed_take_bit 63 (uint w) = uint w"
      by (rule signed_take_bit_int_eq_self; unfold M_def [symmetric]; use True M u in linarith)
    then show ?thesis using True n s by simp
  next
    case False
    have "signed_take_bit 63 (uint w) = signed_take_bit 63 (uint w - 2 ^ 64)"
      unfolding signed_take_bit_eq_iff_take_bit_eq take_bit_eq_mod by simp
    also have "\<dots> = uint w - 2 ^ 64"
      by (rule signed_take_bit_int_eq_self; unfold M_def [symmetric] M(1); use False M u in linarith)
    finally show ?thesis using False n s by simp
  qed
qed

text \<open>The signed comparisons of the source are the unsigned ones for every time that fits \<open>int64\<close>.\<close>

lemma checkTime_iff:
  assumes "- (2 ^ 63) \<le> now" "now < 2 ^ 63"
  shows "checkTime now cert = Ok () \<longleftrightarrow> int (unat (c_ValidAfter cert)) \<le> now \<and>
    (c_ValidBefore cert = CertTimeInfinity \<or> now < int (unat (c_ValidBefore cert)) \<and> unat (c_ValidBefore cert) < 2 ^ 63)"
proof -
  have u: "unat w < 2 ^ 63 \<longleftrightarrow> uint w < 2 ^ 63" "uint w < 2 ^ 64" for w :: u64
    using of_nat_less_iff [of "unat w" "2 ^ 63", where 'a = int] uint_bounded [of w] by simp_all
  show ?thesis
    using assms u [of "c_ValidAfter cert"] u [of "c_ValidBefore cert"]
    by (auto simp: checkTime_def sint_u64 Let_def split: if_splits)
qed

lemma verifyCert_iff:
  "verifyCert E cert = Ok () \<longleftrightarrow> (\<exists>b sig. bytesForSigning E cert = Ok b \<and> c_Signature cert = Some sig \<and>
     pk_Verify E (c_SignatureKey cert) b sig = Ok ())"
  by (cases "bytesForSigning E cert"; cases "c_Signature cert") (auto simp: verifyCert_def nilCall_def split: res.splits)

lemma CheckCert_iff:
  "CheckCert E now c p cert = Ok () \<longleftrightarrow>
     (\<forall>f. IsRevoked c = Some f \<longrightarrow> f cert = Ok False) \<and>
     checkOptions (SupportedCriticalOptions c) (c_CriticalOptions cert) = Ok () \<and>
     (c_ValidPrincipals cert = [] \<or> p \<in> set (c_ValidPrincipals cert)) \<and>
     checkTime now cert = Ok () \<and> verifyCert E cert = Ok ()"
  by (auto simp: CheckCert_def res_simps split: option.splits)

lemma cert_update_simps [simp]:
  "withoutSignature (withSignature s c) = withoutSignature c"
  "c_Signature (withSignature s c) = Some s" "c_SignatureKey (withSignature s c) = c_SignatureKey c"
  "c_SignatureKey (withNonce n sk c) = sk" "c_Nonce (withNonce n sk c) = n"
  "c_ValidPrincipals (withSignature s c) = c_ValidPrincipals c" "c_ValidPrincipals (withNonce n sk c) = c_ValidPrincipals c"
  "c_CriticalOptions (withSignature s c) = c_CriticalOptions c" "c_CriticalOptions (withNonce n sk c) = c_CriticalOptions c"
  "c_ValidAfter (withSignature s c) = c_ValidAfter c" "c_ValidAfter (withNonce n sk c) = c_ValidAfter c"
  "c_ValidBefore (withSignature s c) = c_ValidBefore c" "c_ValidBefore (withNonce n sk c) = c_ValidBefore c"
  by (cases c; simp)+

lemma bytesForSigning_signed [simp]: "bytesForSigning E (withSignature s c) = bytesForSigning E c"
  by (simp add: bytesForSigning_def)

lemma checkTime_cong:
  "c_ValidAfter c = c_ValidAfter d \<Longrightarrow> c_ValidBefore c = c_ValidBefore d \<Longrightarrow> checkTime now c = checkTime now d"
  by (simp add: checkTime_def Let_def)

section \<open>What a signature covers\<close>

text \<open>The certificates the property is about: what \<open>cert_ok\<close> asks, with any signature.\<close>

definition cert_body_ok :: "keyPrims \<Rightarrow> certificate \<Rightarrow> bool" where
  "cert_body_ok E c \<longleftrightarrow> (\<forall>s. cert_ok E (withSignature s c))"

lemma signed_bytes:
  assumes "cert_body_ok E c" "bytesForSigning E c = Ok b" "marshalSignature s = Ok sb"
  shows "cert_Marshal E (withSignature s c) = Ok (b @ writeString [] sb)"
proof (cases c)
  case (Certificate nonce key serial ty kid ps va vb crit ext reserved sk sig)
  have p: "plain_ok E key" "length (plainBody E key) < 2 ^ 31" using assms(1) Certificate by (simp_all add: cert_body_ok_def)
  obtain a where a: "map_of certAlgoNames (plainName key) = Some a" using certName [OF plain_ok_typed [OF p(1)]] by blast
  obtain out where out: "cert_Marshal E (withoutSignature c) = Ok out" using assms(2) by (auto simp: bytesForSigning_def res_simps)
  then obtain psb critb extb skb where m: "marshalStringList ps = Ok psb" "marshalTuples crit = Ok critb" "marshalTuples ext = Ok extb"
      "pk_Marshal E sk = Ok skb" and oute: "out = writeString [] (bytes_of_string a) @ writeString [] nonce @ plainBody E key @
      genericBytes serial ty kid psb va vb critb extb reserved skb []"
    using cert_Marshal_bytes [of E nonce key serial ty kid ps va vb crit ext reserved sk None out, OF _ p a] Certificate by auto
  have n: "writeString [] [] = [0, 0, 0, 0 :: byte]" by (simp add: writeString_def be32_def)
  define pre where "pre = writeString [] (bytes_of_string a) @ writeString [] nonce @ plainBody E key @
      be64 serial @ be32 ty @ writeString [] (bytes_of_string kid) @ writeString [] psb @ be64 va @ be64 vb @ writeString [] critb @
      writeString [] extb @ writeString [] reserved @ writeString [] skb"
  have o2: "out = pre @ [0, 0, 0, 0]" using oute by (simp add: genericBytes_def genericCertStruct_def pre_def n)
  have b: "b = pre" using assms(2) out o2 by (auto simp: bytesForSigning_def)
  have "cert_typed (withSignature s c)" using key_ok_typed(2) [of E "withSignature s c"] assms(1) by (simp add: cert_body_ok_def)
  then obtain out2 where out2: "cert_Marshal E (withSignature s c) = Ok out2" using typed_total(2) by blast
  have "out2 = pre @ writeString [] sb"
    using cert_Marshal_bytes [of E nonce key serial ty kid ps va vb crit ext reserved sk "Some s" out2, OF _ p a] out2 m assms(3) Certificate
    by (auto simp: genericBytes_def genericCertStruct_def pre_def)
  then show ?thesis using out2 b by simp
qed

lemma binds:
  assumes ok: "cert_body_ok E c" "cert_body_ok E c'" and b: "bytesForSigning E c = Ok b" "bytesForSigning E c' = Ok b" "length b < 2 ^ 31"
  shows "withoutSignature c = withoutSignature c'"
proof -
  define s where "s = \<lparr>sig_Format = [], sig_Blob = []\<rparr>"
  obtain sb where sb: "marshalSignature s = Ok sb" "length sb = 8"
    by (simp add: s_def marshalSignature_def signatureStruct_def Marshal_ok)
  have m: "cert_Marshal E (withSignature s c) = Ok (b @ writeString [] sb)" "cert_Marshal E (withSignature s c') = Ok (b @ writeString [] sb)"
    using signed_bytes [OF ok(1) b(1) sb(1)] signed_bytes [OF ok(2) b(2) sb(1)] by simp_all
  have l: "length (b @ writeString [] sb) < 2 ^ 32" using b(3) sb(2) by simp
  have "Ok (CertPublicKey (withSignature s c)) = Ok (CertPublicKey (withSignature s c'))"
    using key_roundtrip(2) [OF _ m(1) l] key_roundtrip(2) [OF _ m(2) l] ok unfolding cert_body_ok_def by metis
  then have "withoutSignature (withSignature s c) = withoutSignature (withSignature s c')" by simp
  then show ?thesis by simp
qed

lemma SignCert_Ok:
  assumes "SignCert E rnd a c = Ok c'"
  shows "\<exists>nonce b sig. rnd = Ok nonce \<and> bytesForSigning E (withNonce nonce (ss_pub a) c) = Ok b \<and> ss_Sign a b = Ok sig \<and>
    c' = withSignature sig (withNonce nonce (ss_pub a) c)"
  using assms by (auto simp: SignCert_def Let_def res_simps)

section \<open>A concrete authority\<close>

definition toyAuthority :: sshSigner where
  "toyAuthority = \<lparr>ss_pub = ED25519PublicKey (replicate 32 5), ss_Sign = (\<lambda>d. Ok \<lparr>sig_Format = ''ssh-ed25519'', sig_Blob = d\<rparr>)\<rparr>"

definition toyChecker :: "unit CertChecker" where
  "toyChecker = \<lparr>SupportedCriticalOptions = [''force-command''], IsUserAuthority = Some (\<lambda>k. Ok (k = ss_pub toyAuthority)), IsHostAuthority = None,
     UserKeyFallback = None, HostKeyFallback = None, IsRevoked = None\<rparr>"

lemma toyAuthority_verifies: "ss_Sign toyAuthority d = Ok sig \<Longrightarrow> pk_Verify toyKeys (ss_pub toyAuthority) d sig = Ok ()"
  by (auto simp: toyAuthority_def toyKeys_def)

lemma toy_signed: "\<exists>c. SignCert toyKeys (Ok [1, 2]) toyAuthority toyCert = Ok c"
proof -
  have "cert_typed (withoutSignature (withNonce [1, 2] (ss_pub toyAuthority) toyCert))"
    by (simp add: toyCert_def toyAuthority_def)
  then obtain out where o: "cert_Marshal toyKeys (withoutSignature (withNonce [1, 2] (ss_pub toyAuthority) toyCert)) = Ok out"
    using typed_total(2) by blast
  have "\<not> length out < 4"
    using o by (auto simp: toyCert_def toyAuthority_def res_simps Let_def Marshal_ok genericCertStruct_def)
  then show ?thesis using o by (simp add: SignCert_def bytesForSigning_def toyAuthority_def Let_def)
qed

section \<open>Properties\<close>

text \<open>C39: \<open>CheckCert\<close> accepts exactly the certificates that are not revoked, have only critical options that are supported
  or the source address, name the principal or nobody, are valid at the time as unsigned seconds, and carry
  a signature of the authority over the certificate without its signature. An end of validity above the
  largest signed number counts as expired, except infinity.\<close>

theorem CheckCert_accepts_iff:
  assumes "- (2 ^ 63) \<le> now" "now < 2 ^ 63"
  shows "CheckCert E now c p cert = Ok () \<longleftrightarrow>
     (\<forall>f. IsRevoked c = Some f \<longrightarrow> f cert = Ok False) \<and>
     (\<forall>o' \<in> set (c_CriticalOptions cert). fst o' = sourceAddressCriticalOption \<or> fst o' \<in> set (SupportedCriticalOptions c)) \<and>
     (c_ValidPrincipals cert = [] \<or> p \<in> set (c_ValidPrincipals cert)) \<and>
     int (unat (c_ValidAfter cert)) \<le> now \<and>
     (c_ValidBefore cert = CertTimeInfinity \<or> now < int (unat (c_ValidBefore cert)) \<and> unat (c_ValidBefore cert) < 2 ^ 63) \<and>
     (\<exists>b sig. bytesForSigning E cert = Ok b \<and> c_Signature cert = Some sig \<and> pk_Verify E (c_SignatureKey cert) b sig = Ok ())"
  unfolding CheckCert_iff checkOptions_iff checkTime_iff [OF assms] verifyCert_iff by blast

lemma CheckCert_accepts_iff_witness: "CheckCert toyKeys 20 toyChecker ''root'' toyCert \<noteq> Ok ()"
  using CheckCert_accepts_iff [of 20 toyKeys toyChecker "''root''" toyCert] by (simp add: toyCert_def CertTimeInfinity_def)

text \<open>C40: The signature of an authority covers the whole certificate. Two certificates with the same bytes to sign
  are equal in all fields but the signature, so a signature cannot be moved to a certificate with
  other principals, options, times, type, key or signing key.\<close>

theorem certificate_signature_binds:
  assumes "cert_body_ok E c" "cert_body_ok E c'"
    and "bytesForSigning E c = Ok b" "bytesForSigning E c' = Ok b" "length b < 2 ^ 31"
  shows "withoutSignature c = withoutSignature c'"
  by (rule binds [OF assms])

lemma certificate_signature_binds_witness:
  "\<exists>b b'. bytesForSigning toyKeys toyCert = Ok b \<and> bytesForSigning toyKeys (withNonce [1] (ED25519PublicKey [3]) toyCert) = Ok b' \<and> b \<noteq> b'"
proof -
  let ?d = "withNonce [1] (ED25519PublicKey [3]) toyCert"
  have ok: "cert_body_ok toyKeys toyCert" "cert_body_ok toyKeys ?d" by (simp_all add: cert_body_ok_def toyCert_def)
  have t: "cert_typed (withoutSignature toyCert)" "cert_typed (withoutSignature ?d)" by (simp_all add: toyCert_def)
  obtain o1 o2 where o: "cert_Marshal toyKeys (withoutSignature toyCert) = Ok o1" "cert_Marshal toyKeys (withoutSignature ?d) = Ok o2"
    using typed_total(2) [OF t(1), of toyKeys] typed_total(2) [OF t(2), of toyKeys] by blast
  have l: "4 \<le> length o1" "4 \<le> length o2" "length o1 < 2 ^ 31" "length o2 < 2 ^ 31"
    using o by (auto simp: toyCert_def res_simps Let_def Marshal_ok genericCertStruct_def marshalTuples_def optionValue_def
      optionsTupleStruct_def certAlgoNames_def strc.dec_enc)
  have b: "bytesForSigning toyKeys toyCert = Ok (take (length o1 - 4) o1)" "bytesForSigning toyKeys ?d = Ok (take (length o2 - 4) o2)"
    using o l by (simp_all add: bytesForSigning_def)
  have "take (length o1 - 4) o1 \<noteq> take (length o2 - 4) o2"
  proof
    assume e: "take (length o1 - 4) o1 = take (length o2 - 4) o2"
    have "withoutSignature toyCert = withoutSignature ?d"
      by (rule certificate_signature_binds [OF ok b(1)]) (use b(2) e l in simp_all)
    then show False by (simp add: toyCert_def)
  qed
  then show ?thesis using b by blast
qed

text \<open>A certificate that \<open>SignCert\<close> signed with a correct authority passes \<open>CheckCert\<close> for each of its principals, at
  every time in its period, with a checker that supports its options and has not revoked it.\<close>

theorem signed_cert_accepted:
  assumes "SignCert E rnd a c = Ok c'" "\<And>d sig. ss_Sign a d = Ok sig \<Longrightarrow> pk_Verify E (ss_pub a) d sig = Ok ()"
    and "- (2 ^ 63) \<le> now" "now < 2 ^ 63" "int (unat (c_ValidAfter c)) \<le> now" "now < int (unat (c_ValidBefore c))" "unat (c_ValidBefore c) < 2 ^ 63"
    and "p \<in> set (c_ValidPrincipals c)" "fst ` set (c_CriticalOptions c) \<subseteq> set (SupportedCriticalOptions chk)" "IsRevoked chk = None"
  shows "CheckCert E now chk p c' = Ok () \<and> c_SignatureKey c' = ss_pub a"
proof -
  obtain nonce b sig where n: "bytesForSigning E (withNonce nonce (ss_pub a) c) = Ok b" "ss_Sign a b = Ok sig"
      "c' = withSignature sig (withNonce nonce (ss_pub a) c)" using SignCert_Ok [OF assms(1)] by blast
  have "verifyCert E c' = Ok ()" using n assms(2) by (simp add: verifyCert_iff)
  moreover have "checkTime now c' = Ok ()" using assms(5-7) n(3) by (simp add: checkTime_iff [OF assms(3,4)])
  moreover have "checkOptions (SupportedCriticalOptions chk) (c_CriticalOptions c') = Ok ()"
    using assms(9) n(3) by (auto simp: checkOptions_iff)
  ultimately show ?thesis using assms(8,10) n(3) by (simp add: CheckCert_iff)
qed

lemma signed_cert_accepted_witness:
  "\<exists>c. SignCert toyKeys (Ok [1, 2]) toyAuthority toyCert = Ok c \<and> CheckCert toyKeys 15 toyChecker ''root'' c = Ok ()"
proof -
  obtain c where c: "SignCert toyKeys (Ok [1, 2]) toyAuthority toyCert = Ok c" using toy_signed by blast
  have "CheckCert toyKeys 15 toyChecker ''root'' c = Ok () \<and> c_SignatureKey c = ss_pub toyAuthority"
    by (rule signed_cert_accepted [OF c toyAuthority_verifies]) (simp_all add: toyCert_def toyChecker_def)
  then show ?thesis using c by blast
qed

end
