(* ===== verification/AuthorizedKeys.thy ===== *)
theory AuthorizedKeys
  imports Certs "HOL-Library.Sublist"
begin

text \<open>
  The text formats of keys (\<open>src/keys.go\<close>): \<open>authorized_keys\<close> and \<open>known_hosts\<close> lines and fingerprints, with what they use
  of Go's packages \<open>bytes\<close> and \<open>encoding/base64\<close>.
\<close>

section \<open>Package bytes\<close>

abbreviation (input) chb :: "char \<Rightarrow> byte" where "chb c \<equiv> byte_of_char c"

text \<open>The UTF-8 encodings of the characters \<open>unicode.IsSpace\<close> accepts.\<close>

definition spaceSeqs :: "bytes list" where
  "spaceSeqs = [[9], [10], [11], [12], [13], [32], [0xC2, 0x85], [0xC2, 0xA0], [0xE1, 0x9A, 0x80],
     [0xE2, 0x80, 0x80], [0xE2, 0x80, 0x81], [0xE2, 0x80, 0x82], [0xE2, 0x80, 0x83], [0xE2, 0x80, 0x84], [0xE2, 0x80, 0x85],
     [0xE2, 0x80, 0x86], [0xE2, 0x80, 0x87], [0xE2, 0x80, 0x88], [0xE2, 0x80, 0x89], [0xE2, 0x80, 0x8A],
     [0xE2, 0x80, 0xA8], [0xE2, 0x80, 0xA9], [0xE2, 0x80, 0xAF], [0xE2, 0x81, 0x9F], [0xE3, 0x80, 0x80]]"

definition leadingSpace :: "bytes list \<Rightarrow> bytes \<Rightarrow> nat" where
  "leadingSpace seqs b = (case List.find (\<lambda>s. prefix s b) seqs of Some s \<Rightarrow> length s | None \<Rightarrow> 0)"

function trimLeftWith :: "bytes list \<Rightarrow> bytes \<Rightarrow> bytes" where
  "trimLeftWith seqs b =
     (if leadingSpace seqs b = 0 \<or> b = [] then b else trimLeftWith seqs (drop (leadingSpace seqs b) b))"
  by auto
termination by (relation "measure (\<lambda>(_, b). length b)") auto

declare trimLeftWith.simps [simp del]

definition TrimSpace :: "bytes \<Rightarrow> bytes" where
  "TrimSpace b = rev (trimLeftWith (map rev spaceSeqs) (rev (trimLeftWith spaceSeqs b)))"

text \<open>\<open>bytes.Fields\<close>: the word in progress, reversed, is an argument.\<close>

function fieldsLoop :: "bytes \<Rightarrow> bytes \<Rightarrow> bytes list" where
  "fieldsLoop cur b =
     (case b of
        [] \<Rightarrow> if cur = [] then [] else [rev cur]
      | x # xs \<Rightarrow>
          if leadingSpace spaceSeqs b = 0 then fieldsLoop (x # cur) xs
          else (if cur = [] then [] else [rev cur]) @ fieldsLoop [] (drop (leadingSpace spaceSeqs b) b))"
  by auto
termination by (relation "measure (\<lambda>(_, b). length b)") auto

declare fieldsLoop.simps [simp del]

definition Fields :: "bytes \<Rightarrow> bytes list" where
  "Fields b = fieldsLoop [] b"

text \<open>The position of the first byte with a property, as \<open>IndexByte\<close> and \<open>IndexAny\<close> find it.\<close>

fun indexWhere :: "(byte \<Rightarrow> bool) \<Rightarrow> bytes \<Rightarrow> nat option" where
  "indexWhere P [] = None"
| "indexWhere P (x # xs) = (if P x then Some 0 else map_option Suc (indexWhere P xs))"

abbreviation (input) blank :: "byte \<Rightarrow> bool" where
  "blank b \<equiv> b = 32 \<or> b = 9"

definition indexBlank :: "bytes \<Rightarrow> nat option" where
  "indexBlank b = indexWhere (\<lambda>x. blank x) b"

fun joinWith :: "'a list \<Rightarrow> 'a list list \<Rightarrow> 'a list" where
  "joinWith sep [] = []"
| "joinWith sep [x] = x"
| "joinWith sep (x # y # xs) = x @ sep @ joinWith sep (y # xs)"

section \<open>Base64\<close>

text \<open>The standard alphabet, as a function from six bits and back.\<close>

definition b64char :: "nat \<Rightarrow> byte" where
  "b64char n =
     (if n < 26 then word_of_nat (65 + n)
      else if n < 52 then word_of_nat (97 + (n - 26))
      else if n < 62 then word_of_nat (48 + (n - 52))
      else if n = 62 then 43 else 47)"

definition b64val :: "byte \<Rightarrow> nat option" where
  "b64val b =
     (let n = unat b in
      if 65 \<le> n \<and> n \<le> 90 then Some (n - 65)
      else if 97 \<le> n \<and> n \<le> 122 then Some (n - 97 + 26)
      else if 48 \<le> n \<and> n \<le> 57 then Some (n - 48 + 52)
      else if n = 43 then Some 62
      else if n = 47 then Some 63
      else None)"

abbreviation (input) padByte :: byte where "padByte \<equiv> 61"

definition byteN :: "nat \<Rightarrow> byte" where "byteN n = word_of_nat n"

fun b64encode :: "bytes \<Rightarrow> bytes" where
  "b64encode [] = []"
| "b64encode [a] = [b64char (unat a div 4), b64char (unat a mod 4 * 16), padByte, padByte]"
| "b64encode [a, b] =
     [b64char (unat a div 4), b64char (unat a mod 4 * 16 + unat b div 16), b64char (unat b mod 16 * 4), padByte]"
| "b64encode (a # b # c # bs) =
     [b64char (unat a div 4), b64char (unat a mod 4 * 16 + unat b div 16),
      b64char (unat b mod 16 * 4 + unat c div 64), b64char (unat c mod 64)] @ b64encode bs"

text \<open>\<open>RawStdEncoding\<close>: without the padding.\<close>

definition b64encodeRaw :: "bytes \<Rightarrow> bytes" where
  "b64encodeRaw b = filter (\<lambda>x. x \<noteq> padByte) (b64encode b)"

definition corruptInput :: gerror where
  "corruptInput = ErrNew ''illegal base64 data''"

text \<open>Newlines are skipped; the padding completes the last group of four. The error does not keep the offset it is found at.\<close>

fun b64groups :: "bytes \<Rightarrow> bytes res" where
  "b64groups [] = Ok []"
| "b64groups (a # b # c # d # bs) =
     (case (b64val a, b64val b) of
        (Some x, Some y) \<Rightarrow>
          if c = padByte then (if d = padByte \<and> bs = [] then Ok [byteN (x * 4 + y div 16)] else Err corruptInput)
          else
            (case b64val c of
               None \<Rightarrow> Err corruptInput
             | Some z \<Rightarrow>
                 if d = padByte then
                   (if bs = [] then Ok [byteN (x * 4 + y div 16), byteN (y mod 16 * 16 + z div 4)] else Err corruptInput)
                 else
                   (case b64val d of
                      None \<Rightarrow> Err corruptInput
                    | Some w \<Rightarrow>
                        res_bind (b64groups bs) (\<lambda>r.
                          Ok ([byteN (x * 4 + y div 16), byteN (y mod 16 * 16 + z div 4), byteN (z mod 4 * 64 + w)] @ r))))
      | _ \<Rightarrow> Err corruptInput)"
| "b64groups _ = Err corruptInput"

definition b64decode :: "bytes \<Rightarrow> bytes res" where
  "b64decode src = b64groups (filter (\<lambda>x. x \<noteq> 10 \<and> x \<noteq> 13) src)"

section \<open>Authorized keys\<close>

definition parseAuthorizedKey :: "keyPrims \<Rightarrow> bytes \<Rightarrow> (publicKey \<times> string) res" where
  "parseAuthorizedKey E inp0 =
     (let inp = TrimSpace inp0;
          i = (case indexBlank inp of Some i \<Rightarrow> i | None \<Rightarrow> length inp) in
      res_bind (b64decode (take i inp)) (\<lambda>key.
      res_bind (ParsePublicKey E key) (\<lambda>out.
        Ok (out, string_of_bytes (TrimSpace (drop i inp))))))"

text \<open>The line at the front of the input, without its end, and what follows it.\<close>

definition cutLine :: "bytes \<Rightarrow> bytes \<times> bytes" where
  "cutLine inp =
     (case indexWhere (\<lambda>x. x = 10) inp of
        Some end' \<Rightarrow> (take end' inp, drop (end' + 1) inp)
      | None \<Rightarrow> (inp, []))"

definition cutCR :: "bytes \<Rightarrow> bytes" where
  "cutCR inp = (case indexWhere (\<lambda>x. x = 13) inp of Some end' \<Rightarrow> take end' inp | None \<Rightarrow> inp)"

text \<open>
  The scan for options. The arguments are the position, the byte before it, whether it is inside quotes, the
  start of the current option and the options found; the result is the position of the end. Without an
  end the loop variable keeps the last position.
\<close>

fun optionScan :: "bytes \<Rightarrow> nat \<Rightarrow> byte option \<Rightarrow> bool \<Rightarrow> nat \<Rightarrow> string list \<Rightarrow> bytes \<Rightarrow> nat \<times> string list" where
  "optionScan inp i prev inQuote start opts [] = (i - 1, opts)"
| "optionScan inp i prev inQuote start opts (b # bs) =
     (let isEnd = (\<not> inQuote \<and> blank b);
          cut = (b = 44 \<and> \<not> inQuote \<or> isEnd);
          opts1 = (if cut \<and> i > start then opts @ [string_of_bytes (take (i - start) (drop start inp))] else opts);
          start1 = (if cut then i + 1 else start)
      in if isEnd then (i, opts1)
         else optionScan inp (i + 1) (Some b)
           (if b = 34 \<and> prev \<noteq> Some 92 then \<not> inQuote else inQuote) start1 opts1 bs)"

definition skipBlanks :: "bytes \<Rightarrow> nat \<Rightarrow> nat" where
  "skipBlanks inp i = i + length (takeWhile (\<lambda>x. blank x) (drop i inp))"

text \<open>One line: a key, with or without options, or nothing.\<close>

definition authorizedLine :: "keyPrims \<Rightarrow> bytes \<Rightarrow> (publicKey \<times> string \<times> string list) option res" where
  "authorizedLine E inp =
     (if inp = [] \<or> hd inp = 35 then Ok None
      else
        (case indexBlank inp of
           None \<Rightarrow> Ok None
         | Some i \<Rightarrow>
             (case parseAuthorizedKey E (drop i inp) of
                Ok (out, comment) \<Rightarrow> Ok (Some (out, comment, []))
              | Panic x \<Rightarrow> Panic x
              | Err _ \<Rightarrow>
                  (case optionScan inp 0 None False 0 [] inp of
                     (i0, opts) \<Rightarrow>
                       let i1 = skipBlanks inp i0 in
                       if i1 = length inp then Ok None
                       else
                         let inp1 = drop i1 inp in
                         (case indexBlank inp1 of
                            None \<Rightarrow> Ok None
                          | Some j \<Rightarrow>
                              (case parseAuthorizedKey E (drop j inp1) of
                                 Ok (out, comment) \<Rightarrow> Ok (Some (out, comment, opts))
                               | Panic x \<Rightarrow> Panic x
                               | Err _ \<Rightarrow> Ok None))))))"

lemma indexWhere_less: "indexWhere P b = Some i \<Longrightarrow> i < length b"
  by (induction b arbitrary: i) (auto split: if_splits)

lemma cutLine_less: "inp \<noteq> [] \<Longrightarrow> length (snd (cutLine inp)) < length inp"
  by (auto simp: cutLine_def split: option.splits dest!: indexWhere_less)

function ParseAuthorizedKey :: "keyPrims \<Rightarrow> bytes \<Rightarrow> (publicKey \<times> string \<times> string list \<times> bytes) res" where
  "ParseAuthorizedKey E inp =
     (if inp = [] then Err (ErrNew ''ssh: no key found'')
      else
        (case authorizedLine E (TrimSpace (cutCR (fst (cutLine inp)))) of
           Err e \<Rightarrow> Err e
         | Panic x \<Rightarrow> Panic x
         | Ok (Some (out, comment, options)) \<Rightarrow> Ok (out, comment, options, snd (cutLine inp))
         | Ok None \<Rightarrow> ParseAuthorizedKey E (snd (cutLine inp))))"
  by pat_completeness auto
termination by (relation "measure (\<lambda>(_, b). length b)") (auto simp: cutLine_less)

declare ParseAuthorizedKey.simps [simp del]

definition MarshalAuthorizedKey :: "keyPrims \<Rightarrow> publicKey \<Rightarrow> bytes res" where
  "MarshalAuthorizedKey E key =
     res_bind (pk_Type key) (\<lambda>t.
     res_bind (pk_Marshal E key) (\<lambda>b. Ok (bytes_of_string t @ [32] @ b64encode b @ [10])))"

section \<open>Known hosts lines\<close>

definition knownHostsLine :: "keyPrims \<Rightarrow> bytes \<Rightarrow> (string \<times> string list \<times> publicKey \<times> string) option res" where
  "knownHostsLine E inp =
     (if inp = [] \<or> hd inp = 35 then Ok None
      else if indexBlank inp = None then Ok None
      else
        let keyFields = Fields inp in
        if length keyFields < 3 \<or> length keyFields > 5 then Err (ErrNew ''ssh: invalid entry in known_hosts data'')
        else
          let marked = (hd (hd keyFields) = 64);
              marker = (if marked then string_of_bytes (tl (hd keyFields)) else []);
              fs = (if marked then tl keyFields else keyFields);
              key = joinWith [32] (drop 2 fs) in
          res_bind (parseAuthorizedKey E key) (\<lambda>(pubKey, comment).
            Ok (Some (marker, split_on CHR '','' (string_of_bytes (hd fs)), pubKey, comment))))"

function ParseKnownHosts :: "keyPrims \<Rightarrow> bytes \<Rightarrow> (string \<times> string list \<times> publicKey \<times> string \<times> bytes) res" where
  "ParseKnownHosts E inp =
     (if inp = [] then Err IoEOF
      else
        (case knownHostsLine E (TrimSpace (cutCR (fst (cutLine inp)))) of
           Err e \<Rightarrow> Err e
         | Panic x \<Rightarrow> Panic x
         | Ok (Some (marker, hosts, pubKey, comment)) \<Rightarrow> Ok (marker, hosts, pubKey, comment, snd (cutLine inp))
         | Ok None \<Rightarrow> ParseKnownHosts E (snd (cutLine inp))))"
  by pat_completeness auto
termination by (relation "measure (\<lambda>(_, b). length b)") (auto simp: cutLine_less)

declare ParseKnownHosts.simps [simp del]

section \<open>Fingerprints\<close>

definition hexDigit :: "nat \<Rightarrow> char" where
  "hexDigit n = (if n < 10 then char_of (48 + n) else char_of (97 + (n - 10)))"

definition hexByte :: "byte \<Rightarrow> string" where
  "hexByte b = [hexDigit (unat b div 16), hexDigit (unat b mod 16)]"

definition FingerprintLegacyMD5 :: "(bytes \<Rightarrow> bytes) \<Rightarrow> keyPrims \<Rightarrow> publicKey \<Rightarrow> string res" where
  "FingerprintLegacyMD5 md5 E k = res_bind (pk_Marshal E k) (\<lambda>b. Ok (joinWith '':'' (map hexByte (md5 b))))"

definition FingerprintSHA256 :: "keyPrims \<Rightarrow> publicKey \<Rightarrow> string res" where
  "FingerprintSHA256 E k =
     res_bind (pk_Marshal E k) (\<lambda>b. Ok (''SHA256:'' @ string_of_bytes (b64encodeRaw (h_sum (kp_hash E SHA256) b))))"

section \<open>Lemmas on base64\<close>

definition graphic :: "byte \<Rightarrow> bool" where
  "graphic b \<longleftrightarrow> 33 \<le> unat b \<and> unat b \<le> 126"

lemma unat_byteN: "n < 256 \<Longrightarrow> unat (word_of_nat n :: byte) = n"
  by (simp add: unat_of_nat)

lemma b64char_table:
  "list_all (\<lambda>n. b64val (b64char n) = Some n \<and> 33 \<le> unat (b64char n) \<and> unat (b64char n) \<le> 126 \<and> b64char n \<noteq> padByte) [0..<64]"
  by code_simp

lemma b64val_b64char: "n < 64 \<Longrightarrow> b64val (b64char n) = Some n"
  using b64char_table by (simp add: list_all_iff)

lemma b64char_graphic: "n < 64 \<Longrightarrow> graphic (b64char n)"
  using b64char_table by (simp add: list_all_iff graphic_def)

lemma b64char_not_pad: "n < 64 \<Longrightarrow> b64char n \<noteq> padByte"
  using b64char_table by (simp add: list_all_iff)

lemma byteN_unat [simp]: "byteN (unat b) = b"
  by (simp add: byteN_def)

lemma six_bits:
  fixes a b c :: byte
  shows "unat a div 4 < 64" "unat a mod 4 * 16 < 64" "unat a mod 4 * 16 + unat b div 16 < 64" "unat b mod 16 * 4 < 64"
    "unat b mod 16 * 4 + unat c div 64 < 64" "unat c mod 64 < 64"
  using unat_byte_less [of a] unat_byte_less [of b] unat_byte_less [of c] by linarith+

lemma joins:
  fixes b :: byte
  shows "unat b div 16 div 16 = 0" "unat b div 16 mod 16 = unat b div 16" "unat b div 64 div 4 = 0" "unat b div 64 mod 4 = unat b div 64"
proof -
  have "unat b div 16 < 16" "unat b div 64 < 4" using unat_byte_less [of b] by linarith+
  then show "unat b div 16 div 16 = 0" "unat b div 16 mod 16 = unat b div 16" "unat b div 64 div 4 = 0" "unat b div 64 mod 4 = unat b div 64"
    by (simp_all only: div_less mod_less)
qed

lemma b64encode_length: "length b \<le> length (b64encode b)"
  by (induction b rule: b64encode.induct) auto

lemma b64encode_length_upper: "length (b64encode b) \<le> 4 * length b"
  by (induction b rule: b64encode.induct) auto

lemma ParsePublicKey_empty: "ParsePublicKey E [] \<noteq> Ok k"
  by (subst ParsePublicKey.simps) (simp add: parseString_def)

lemma graphic_pad: "graphic padByte"
  by (simp add: graphic_def)

lemma b64groups_encode: "b64groups (b64encode b) = Ok b"
  by (induction b rule: b64encode.induct) (simp_all add: b64val_b64char b64char_not_pad six_bits joins)

lemma b64encode_graphic: "x \<in> set (b64encode b) \<Longrightarrow> graphic x"
  by (induction b rule: b64encode.induct) (auto simp: b64char_graphic six_bits graphic_pad)

lemma not_graphic [simp]: "\<not> graphic 9" "\<not> graphic 10" "\<not> graphic 13" "\<not> graphic 32"
  by (auto simp: graphic_def)

lemma graphic_not: "graphic x \<Longrightarrow> x \<noteq> 9 \<and> x \<noteq> 10 \<and> x \<noteq> 13 \<and> x \<noteq> 32"
  by auto

lemma b64decode_encode: "b64decode (b64encode b) = Ok b"
proof -
  have "filter (\<lambda>x. x \<noteq> 10 \<and> x \<noteq> 13) (b64encode b) = b64encode b"
    using b64encode_graphic graphic_not by (intro filter_True) blast
  then show ?thesis by (simp only: b64decode_def b64groups_encode)
qed

section \<open>Lemmas on lines\<close>

definition notGraphic :: "bytes list \<Rightarrow> bool" where
  "notGraphic seqs = list_all (\<lambda>s. s \<noteq> [] \<and> \<not> graphic (hd s)) seqs"

lemma spaceSeqs_notGraphic: "notGraphic spaceSeqs" "notGraphic (map rev spaceSeqs)"
  by (simp_all add: notGraphic_def spaceSeqs_def graphic_def)

lemma leadingSpace_graphic:
  assumes "notGraphic seqs" "graphic x"
  shows "leadingSpace seqs (x # xs) = 0"
proof -
  have "\<forall>s \<in> set seqs. \<not> prefix s (x # xs)"
    using assms by (auto simp: notGraphic_def list_all_iff prefix_Cons)
  then have "List.find (\<lambda>s. prefix s (x # xs)) seqs = None" by (simp add: find_None_iff)
  then show ?thesis by (simp add: leadingSpace_def)
qed

lemma trimLeft_graphic: "notGraphic seqs \<Longrightarrow> b = [] \<or> graphic (hd b) \<Longrightarrow> trimLeftWith seqs b = b"
  by (cases b) (auto simp: trimLeftWith.simps leadingSpace_graphic)

lemma trimLeft_space: "trimLeftWith spaceSeqs (32 # b) = trimLeftWith spaceSeqs b"
  by (subst trimLeftWith.simps) (simp add: leadingSpace_def spaceSeqs_def)

lemma TrimSpace_graphic:
  assumes "b = [] \<or> graphic (hd b) \<and> graphic (last b)"
  shows "TrimSpace b = b" "TrimSpace (32 # b) = b"
proof -
  have "rev b = [] \<or> graphic (hd (rev b))" using assms by (auto simp: hd_rev)
  then have "trimLeftWith spaceSeqs b = b" "trimLeftWith (map rev spaceSeqs) (rev b) = rev b"
    using assms trimLeft_graphic [OF spaceSeqs_notGraphic(1)] trimLeft_graphic [OF spaceSeqs_notGraphic(2)] by auto
  then show "TrimSpace b = b" "TrimSpace (32 # b) = b" by (simp_all add: TrimSpace_def trimLeft_space)
qed

lemma indexWhere_append: "\<forall>x \<in> set a. \<not> P x \<Longrightarrow> P c \<Longrightarrow> indexWhere P (a @ c # b) = Some (length a)"
  by (induction a) auto

lemma indexWhere_none: "\<forall>x \<in> set a. \<not> P x \<Longrightarrow> indexWhere P a = None"
  by (induction a) auto

lemma parseAuthorizedKey_b64:
  assumes "ParsePublicKey E b = Ok k"
  shows "parseAuthorizedKey E (32 # b64encode b) = Ok (k, [])"
proof -
  have "b64encode b = [] \<or> graphic (hd (b64encode b)) \<and> graphic (last (b64encode b))"
    using b64encode_graphic [of "hd (b64encode b)" b] b64encode_graphic [of "last (b64encode b)" b] by auto
  then have t: "TrimSpace (32 # b64encode b) = b64encode b" by (rule TrimSpace_graphic(2))
  have "indexBlank (b64encode b) = None"
    unfolding indexBlank_def by (rule indexWhere_none) (use b64encode_graphic graphic_not in blast)
  then show ?thesis
    using assms TrimSpace_graphic(1) [of "[]"] by (simp add: parseAuthorizedKey_def Let_def t b64decode_encode string_of_bytes_def)
qed

text \<open>The names of key types.\<close>

definition typeNames :: "string list" where
  "typeNames = map fst certAlgoNames @ map snd certAlgoNames"

lemma plainName_mem: "plain_typed k \<Longrightarrow> plainName k \<in> set typeNames"
  by (cases k) (auto simp: typeNames_def certAlgoNames_def split: ecCurve.splits)

lemma typed_name: "key_typed k \<Longrightarrow> pk_Type k = Ok t \<Longrightarrow> t \<in> set typeNames"
proof (cases k)
  case (CertPublicKey c)
  assume a: "key_typed k" "pk_Type k = Ok t"
  obtain nonce key serial ty kid ps va vb crit ext reserved sk sig
    where c: "c = Certificate nonce key serial ty kid ps va vb crit ext reserved sk sig" by (cases c)
  then have "plain_typed key" using a(1) CertPublicKey by simp
  then have "map_of certAlgoNames (plainName key) = Some t"
    using a(2) CertPublicKey c by (auto simp: plain_Type split: option.splits)
  from map_of_SomeD [OF this] show ?thesis unfolding typeNames_def by (auto intro: rev_image_eqI)
qed (use plain_Type [of k] plainName_mem [of k] in auto)

lemma typeNames_graphic: "t \<in> set typeNames \<Longrightarrow> t \<noteq> [] \<and> hd (bytes_of_string t) \<noteq> 35 \<and> list_all graphic (bytes_of_string t)"
  unfolding typeNames_def certAlgoNames_def
  by (auto simp: bytes_of_string_def byte_of_char_def graphic_def)

lemma authorizedLine_marshalled:
  assumes "t \<in> set typeNames" "ParsePublicKey E b = Ok k"
  shows "authorizedLine E (bytes_of_string t @ 32 # b64encode b) = Ok (Some (k, [], []))"
proof -
  let ?t = "bytes_of_string t"
  have t: "?t \<noteq> []" "hd ?t \<noteq> 35" "\<forall>x \<in> set ?t. graphic x"
    using typeNames_graphic [OF assms(1)] by (auto simp: list_all_iff bytes_of_string_def)
  have "indexBlank (?t @ 32 # b64encode b) = Some (length ?t)"
    unfolding indexBlank_def by (rule indexWhere_append) (use t(3) graphic_not in auto)
  then show ?thesis using t(1,2) parseAuthorizedKey_b64 [OF assms(2)] by (simp add: authorizedLine_def)
qed

lemma ParseAuthorizedKey_line:
  assumes "t \<in> set typeNames" "ParsePublicKey E b = Ok k" "b \<noteq> []"
  shows "ParseAuthorizedKey E (bytes_of_string t @ [32] @ b64encode b @ [10] @ rest) = Ok (k, [], [], rest)"
proof -
  let ?l = "bytes_of_string t @ 32 # b64encode b"
  have t: "t \<noteq> []" "\<forall>x \<in> set (bytes_of_string t). graphic x" using typeNames_graphic [OF assms(1)] by (auto simp: list_all_iff)
  have e: "b64encode b \<noteq> []" using assms(3) by (cases b rule: b64encode.cases) auto
  have n: "\<forall>x \<in> set ?l. x \<noteq> 10 \<and> x \<noteq> 13" using t(2) b64encode_graphic [of _ b] by fastforce
  have c: "cutLine (?l @ 10 # rest) = (?l, rest)"
    using indexWhere_append [of ?l "\<lambda>x. x = 10" 10 rest] n by (auto simp: cutLine_def)
  have r: "cutCR ?l = ?l" using indexWhere_none [of ?l "\<lambda>x. x = 13"] n by (auto simp: cutCR_def)
  have "graphic (hd ?l)" using t by (cases t) (auto simp: bytes_of_string_def)
  moreover have "graphic (last ?l)" using e b64encode_graphic [of "last (b64encode b)" b] by simp
  ultimately have "TrimSpace ?l = ?l" by (intro TrimSpace_graphic(1)) simp
  then show ?thesis
    using c r authorizedLine_marshalled [OF assms(1,2)] by (simp add: ParseAuthorizedKey.simps)
qed

section \<open>Properties\<close>

text \<open>A public key or certificate written as an authorized keys line is read back: the reader returns the
  same key, no comment, no options, and as the rest exactly what follows the line.\<close>

theorem ParseAuthorizedKey_Marshal:
  assumes "key_ok E k" "MarshalAuthorizedKey E k = Ok l" "length l < 2 ^ 32"
  shows "ParseAuthorizedKey E (l @ rest) = Ok (k, [], [], rest)"
proof -
  obtain t b where tb: "pk_Type k = Ok t" "pk_Marshal E k = Ok b" "l = bytes_of_string t @ [32] @ b64encode b @ [10]"
    using assms(2) by (auto simp: MarshalAuthorizedKey_def simp: res_simps)
  have "length b < 2 ^ 32" using assms(3) b64encode_length [of b] unfolding tb(3) by (simp del: power_numeral)
  then have p: "ParsePublicKey E b = Ok k" by (rule key_roundtrip(1) [OF assms(1) tb(2)])
  have "t \<in> set typeNames" using key_ok_typed(1) [OF assms(1)] tb(1) by (rule typed_name)
  moreover have "b \<noteq> []" using p by (auto simp: ParsePublicKey_empty)
  ultimately show ?thesis using ParseAuthorizedKey_line [OF _ p] by (simp add: tb(3))
qed

lemma ParseAuthorizedKey_Marshal_witness:
  "\<exists>l. MarshalAuthorizedKey toyKeys (ED25519PublicKey [1]) = Ok l \<and>
     ParseAuthorizedKey toyKeys (l @ [35]) = Ok (ED25519PublicKey [1], [], [], [35])"
proof -
  obtain b where b: "pk_Marshal toyKeys (ED25519PublicKey [1]) = Ok b" "length b = 20"
    by (simp add: Marshal_ok)
  let ?l = "bytes_of_string ''ssh-ed25519'' @ [32] @ b64encode b @ [10]"
  have m: "MarshalAuthorizedKey toyKeys (ED25519PublicKey [1]) = Ok ?l"
    unfolding MarshalAuthorizedKey_def b(1) by simp
  have "length ?l < 2 ^ 32" using b64encode_length_upper [of b] b(2) by (simp add: bytes_of_string_def)
  then have "ParseAuthorizedKey toyKeys (?l @ [35]) = Ok (ED25519PublicKey [1], [], [], [35])"
    by (rule ParseAuthorizedKey_Marshal [OF _ m, rotated]) simp
  then show ?thesis using m by blast
qed

end
