(* ===== verification/KnownHosts.thy ===== *)
theory KnownHosts
  imports AuthorizedKeys
begin

text \<open>
  The database of known hosts (\<open>src/knownhosts/knownhosts.go\<close>): the matching of addresses against patterns and hashed
  names, the reader of a file, the check of a key, and the functions that write lines. HMAC-SHA1 is the argument
  \<open>hmac\<close>, a \<open>net.Addr\<close> is its string, and the files that \<open>New\<close> opens are the argument \<open>open'\<close>.
\<close>

section \<open>Addresses and patterns\<close>

record addr =
  host :: string
  port :: string

definition addr_String :: "addr \<Rightarrow> string" where
  "addr_String a = (if CHR '':'' \<in> set (host a) then ''['' @ host a @ '']'' else host a) @ '':'' @ port a"

record hostPattern =
  negate :: bool
  hp_addr :: addr

definition hostPattern_String :: "hostPattern \<Rightarrow> string" where
  "hostPattern_String p = (if negate p then ''!'' else []) @ addr_String (hp_addr p)"

fun wildcardMatch :: "bytes \<Rightarrow> bytes \<Rightarrow> bool" where
  "wildcardMatch [] str \<longleftrightarrow> str = []"
| "wildcardMatch (p # pat) str \<longleftrightarrow>
     (if str = [] then False
      else if p = 42 then pat = [] \<or> list_ex (\<lambda>j. wildcardMatch pat (drop j str)) [0..<length str]
      else if p = 63 \<or> p = hd str then wildcardMatch pat (tl str)
      else False)"

definition hostPattern_match :: "hostPattern \<Rightarrow> addr \<Rightarrow> bool" where
  "hostPattern_match l a \<longleftrightarrow>
     wildcardMatch (bytes_of_string (host (hp_addr l))) (bytes_of_string (host a)) \<and> port (hp_addr l) = port a"

text \<open>The two nested loops of \<open>hostPatterns.match\<close>: \<open>None\<close> is the return from inside them.\<close>

primrec patternAddrs :: "hostPattern \<Rightarrow> addr list \<Rightarrow> bool \<Rightarrow> bool option" where
  "patternAddrs p [] matched = Some matched"
| "patternAddrs p (a # as) matched =
     (if \<not> hostPattern_match p a then patternAddrs p as matched
      else if negate p then None
      else patternAddrs p as True)"

primrec patternsLoop :: "hostPattern list \<Rightarrow> addr list \<Rightarrow> bool \<Rightarrow> bool" where
  "patternsLoop [] addrs matched = matched"
| "patternsLoop (p # ps) addrs matched =
     (case patternAddrs p addrs matched of None \<Rightarrow> False | Some m \<Rightarrow> patternsLoop ps addrs m)"

definition hostPatterns_match :: "hostPattern list \<Rightarrow> addr list \<Rightarrow> bool" where
  "hostPatterns_match ps addrs = patternsLoop ps addrs False"

section \<open>Normal forms and hashes\<close>

definition Normalize :: "string \<Rightarrow> string" where
  "Normalize address =
     (let (h, p) = (case SplitHostPort address of Ok (h, p) \<Rightarrow> (h, p) | _ \<Rightarrow> (address, ''22'')) in
      if p \<noteq> ''22'' then ''['' @ h @ '']:'' @ p
      else if CHR '':'' \<in> set h \<and> \<not> (h \<noteq> [] \<and> hd h = CHR ''['') then ''['' @ h @ '']''
      else h)"

definition hashHost :: "(bytes \<Rightarrow> bytes \<Rightarrow> bytes) \<Rightarrow> string \<Rightarrow> bytes \<Rightarrow> bytes" where
  "hashHost hmac hostname salt = hmac salt (bytes_of_string hostname)"

abbreviation (input) sha1HashType :: string where "sha1HashType \<equiv> ''1''"

definition encodeHash :: "string \<Rightarrow> bytes \<Rightarrow> bytes \<Rightarrow> string" where
  "encodeHash typ salt hash = joinWith ''|'' [[], typ, string_of_bytes (b64encode salt), string_of_bytes (b64encode hash)]"

text \<open>The random source gives 20 bytes of salt or an error.\<close>

definition HashHostname :: "(bytes \<Rightarrow> bytes \<Rightarrow> bytes) \<Rightarrow> bytes res \<Rightarrow> string \<Rightarrow> string res" where
  "HashHostname hmac rnd hostname =
     (case rnd of
        Ok salt \<Rightarrow> Ok (encodeHash sha1HashType salt (hashHost hmac hostname salt))
      | _ \<Rightarrow> Panic ''crypto/rand failure'')"

definition decodeHash :: "string \<Rightarrow> (string \<times> bytes \<times> bytes) res" where
  "decodeHash encoded =
     (if encoded = [] \<or> hd encoded \<noteq> CHR ''|'' then Err (ErrNew (''knownhosts: hashed host must start with '|'' @ [CHR 0x27]))
      else
        let components = split_on CHR ''|'' encoded in
        if length components \<noteq> 4 then Err (Errorf ''knownhosts: got %d components, want 3'' [length components] [])
        else
          res_bind (b64decode (bytes_of_string (components ! 2))) (\<lambda>salt.
          res_bind (b64decode (bytes_of_string (components ! 3))) (\<lambda>hash.
            Ok (components ! 1, salt, hash))))"

datatype matcher =
    HostPatterns "hostPattern list"
  | HashedHost bytes bytes

definition newHashedHost :: "string \<Rightarrow> matcher res" where
  "newHashedHost encoded =
     res_bind (decodeHash encoded) (\<lambda>(typ, salt, hash).
       if typ \<noteq> sha1HashType then Err (Errorf (''knownhosts: got hash type %s, must be '1'' @ [CHR 0x27]) [] [typ])
       else Ok (HashedHost salt hash))"

definition hashedHost_match :: "(bytes \<Rightarrow> bytes \<Rightarrow> bytes) \<Rightarrow> bytes \<Rightarrow> bytes \<Rightarrow> addr list \<Rightarrow> bool" where
  "hashedHost_match hmac salt hash addrs = list_ex (\<lambda>a. hashHost hmac (Normalize (addr_String a)) salt = hash) addrs"

primrec matcher_match :: "(bytes \<Rightarrow> bytes \<Rightarrow> bytes) \<Rightarrow> matcher \<Rightarrow> addr list \<Rightarrow> bool" where
  "matcher_match hmac (HostPatterns ps) addrs = hostPatterns_match ps addrs"
| "matcher_match hmac (HashedHost salt hash) addrs = hashedHost_match hmac salt hash addrs"

section \<open>The database\<close>

record KnownKey =
  Key :: publicKey
  Filename :: string
  Line :: nat

record keyDBLine =
  l_cert :: bool
  l_matcher :: matcher
  knownKey :: KnownKey

record hostKeyDB =
  revoked :: "(bytes \<times> KnownKey) list"
  db_lines :: "keyDBLine list"

definition newHostKeyDB :: hostKeyDB where
  "newHostKeyDB = \<lparr>revoked = [], db_lines = []\<rparr>"

definition serialize :: "keyPrims \<Rightarrow> publicKey \<Rightarrow> string res" where
  "serialize E k =
     res_bind (pk_Type k) (\<lambda>t.
     res_bind (pk_Marshal E k) (\<lambda>b. Ok (t @ '' '' @ string_of_bytes (b64encode b))))"

text \<open>The operands of the format \<open>%s:%d: %s\<close>.\<close>

definition KnownKey_String :: "keyPrims \<Rightarrow> KnownKey \<Rightarrow> (string \<times> nat \<times> string) res" where
  "KnownKey_String E k = res_bind (serialize E (Key k)) (\<lambda>s. Ok (Filename k, Line k, s))"

definition line_match :: "(bytes \<Rightarrow> bytes \<Rightarrow> bytes) \<Rightarrow> keyDBLine \<Rightarrow> addr list \<Rightarrow> bool" where
  "line_match hmac l addrs = matcher_match hmac (l_matcher l) addrs"

definition keyEq :: "keyPrims \<Rightarrow> publicKey \<Rightarrow> publicKey \<Rightarrow> bool res" where
  "keyEq E a b = res_bind (pk_Marshal E a) (\<lambda>x. res_bind (pk_Marshal E b) (\<lambda>y. Ok (x = y)))"

primrec authorityLoop :: "keyPrims \<Rightarrow> (bytes \<Rightarrow> bytes \<Rightarrow> bytes) \<Rightarrow> publicKey \<Rightarrow> addr \<Rightarrow> keyDBLine list \<Rightarrow> bool res" where
  "authorityLoop E hmac remote a [] = Ok False"
| "authorityLoop E hmac remote a (l # ls) =
     (if l_cert l then
        res_bind (keyEq E (Key (knownKey l)) remote) (\<lambda>eq.
          if eq \<and> line_match hmac l [a] then Ok True else authorityLoop E hmac remote a ls)
      else authorityLoop E hmac remote a ls)"

definition db_IsHostAuthority :: "keyPrims \<Rightarrow> (bytes \<Rightarrow> bytes \<Rightarrow> bytes) \<Rightarrow> hostKeyDB \<Rightarrow> publicKey \<Rightarrow> string \<Rightarrow> bool res" where
  "db_IsHostAuthority E hmac db remote address =
     (case SplitHostPort address of
        Ok (h, p) \<Rightarrow> authorityLoop E hmac remote \<lparr>host = h, port = p\<rparr> (db_lines db)
      | _ \<Rightarrow> Ok False)"

definition db_IsRevoked :: "keyPrims \<Rightarrow> hostKeyDB \<Rightarrow> certificate \<Rightarrow> bool res" where
  "db_IsRevoked E db key = res_bind (cert_Marshal E key) (\<lambda>b. Ok (map_of (revoked db) b \<noteq> None))"

section \<open>Reading\<close>

abbreviation (input) markerCert :: string where "markerCert \<equiv> ''@cert-authority''"
abbreviation (input) markerRevoked :: string where "markerRevoked \<equiv> ''@revoked''"

definition nextWord :: "bytes \<Rightarrow> string \<times> bytes" where
  "nextWord line =
     (case indexBlank line of
        None \<Rightarrow> (string_of_bytes line, [])
      | Some i \<Rightarrow> (string_of_bytes (take i line), TrimSpace (drop i line)))"

definition parseMarker :: "bytes \<Rightarrow> string \<times> bytes" where
  "parseMarker line =
     (case nextWord line of
        (w, next') \<Rightarrow> if w = markerCert \<or> w = markerRevoked then (w, next') else ([], line))"

definition parseLine :: "keyPrims \<Rightarrow> bytes \<Rightarrow> (string \<times> string \<times> publicKey) res" where
  "parseLine E line0 =
     (let (marker, line1) = parseMarker line0;
          (h, line2) = nextWord line1 in
      if line2 = [] then Err (ErrNew ''knownhosts: missing host pattern'')
      else
        let (_, line3) = nextWord line2 in
        if line3 = [] then Err (ErrNew ''knownhosts: missing key type pattern'')
        else
          let (keyBlob, _) = nextWord line3 in
          res_bind (b64decode (bytes_of_string keyBlob)) (\<lambda>keyBytes.
          res_bind (ParsePublicKey E keyBytes) (\<lambda>key. Ok (marker, h, key))))"

text \<open>One comma separated pattern; the empty ones are skipped.\<close>

definition parsePattern :: "string \<Rightarrow> hostPattern res" where
  "parsePattern p0 =
     (let neg = (hd p0 = CHR ''!''); p = (if neg then tl p0 else p0) in
      if p = [] then Err (ErrNew ''knownhosts: negation without following hostname'')
      else if hd p = CHR ''['' then
        res_bind (SplitHostPort p) (\<lambda>(h, pt). Ok \<lparr>negate = neg, hp_addr = \<lparr>host = h, port = pt\<rparr>\<rparr>)
      else
        (case SplitHostPort p of
           Ok (h, pt) \<Rightarrow> Ok \<lparr>negate = neg, hp_addr = \<lparr>host = h, port = pt\<rparr>\<rparr>
         | _ \<Rightarrow> Ok \<lparr>negate = neg, hp_addr = \<lparr>host = p, port = ''22''\<rparr>\<rparr>))"

primrec patternsOf :: "string list \<Rightarrow> hostPattern list res" where
  "patternsOf [] = Ok []"
| "patternsOf (p # ps) =
     (if p = [] then patternsOf ps
      else res_bind (parsePattern p) (\<lambda>hp. res_bind (patternsOf ps) (\<lambda>hps. Ok (hp # hps))))"

definition newHostnameMatcher :: "string \<Rightarrow> matcher res" where
  "newHostnameMatcher pattern = res_bind (patternsOf (split_on CHR '','' pattern)) (\<lambda>hps. Ok (HostPatterns hps))"

definition newMatcher :: "string \<Rightarrow> matcher res" where
  "newMatcher pattern =
     (if pattern = [] then Panic ''index out of range''
      else if hd pattern = CHR ''|'' then newHashedHost pattern
      else newHostnameMatcher pattern)"

definition db_parseLine :: "keyPrims \<Rightarrow> hostKeyDB \<Rightarrow> bytes \<Rightarrow> string \<Rightarrow> nat \<Rightarrow> hostKeyDB res" where
  "db_parseLine E db line filename linenum =
     res_bind (parseLine E line) (\<lambda>(marker, pattern, key).
       let known = \<lparr>Key = key, Filename = filename, Line = linenum\<rparr> in
       if marker = markerRevoked then
         res_bind (pk_Marshal E key) (\<lambda>b. Ok (db\<lparr>revoked := AList.update b known (revoked db)\<rparr>))
       else
         res_bind (newMatcher pattern) (\<lambda>m.
           Ok (db\<lparr>db_lines := db_lines db @ [\<lparr>l_cert = (marker = markerCert), l_matcher = m, knownKey = known\<rparr>]\<rparr>)))"

text \<open>
  \<open>bufio.Scanner\<close>: lines without their end, the last one perhaps unterminated; a line that fills the buffer of
  65536 bytes without an end is an error.
\<close>

abbreviation (input) maxTokenSize :: nat where "maxTokenSize \<equiv> 65536"

definition dropCR :: "bytes \<Rightarrow> bytes" where
  "dropCR b = (if b \<noteq> [] \<and> last b = 13 then butlast b else b)"

text \<open>
  The error of the reader ends the input; it is nil at the end of the file. The error for a line keeps the name of
  the file and the number of the line, not the text of the cause.
\<close>

function scanLoop :: "keyPrims \<Rightarrow> string \<Rightarrow> gerror option \<Rightarrow> nat \<Rightarrow> hostKeyDB \<Rightarrow> bytes \<Rightarrow> hostKeyDB res" where
  "scanLoop E filename rdErr lineNum db inp =
     (if inp = [] then (case rdErr of None \<Rightarrow> Ok db | Some e \<Rightarrow> Err e)
      else if length (fst (cutLine inp)) \<ge> maxTokenSize then Err (ErrNew ''bufio.Scanner: token too long'')
      else
        let line = TrimSpace (dropCR (fst (cutLine inp))); n = lineNum + 1 in
        if line = [] \<or> hd line = 35 then scanLoop E filename rdErr n db (snd (cutLine inp))
        else
          (case db_parseLine E db line filename n of
             Ok db1 \<Rightarrow> scanLoop E filename rdErr n db1 (snd (cutLine inp))
           | Err e \<Rightarrow> Err (Errorf ''knownhosts: %s:%d: %v'' [n] [filename])
           | Panic x \<Rightarrow> Panic x))"
  by pat_completeness auto
termination by (relation "measure (\<lambda>(_, _, _, _, _, b). length b)") (auto simp: cutLine_less)

declare scanLoop.simps [simp del]

definition db_Read :: "keyPrims \<Rightarrow> hostKeyDB \<Rightarrow> bytes \<Rightarrow> gerror option \<Rightarrow> string \<Rightarrow> hostKeyDB res" where
  "db_Read E db contents rdErr filename = scanLoop E filename rdErr 0 db contents"

section \<open>Checking\<close>

datatype checkError =
    KeyError "KnownKey list"
  | RevokedError KnownKey
  | AddrError string gerror

primrec checkError_Error :: "checkError \<Rightarrow> gerror" where
  "checkError_Error (KeyError want) =
     ErrNew (if want = [] then ''knownhosts: key is unknown'' else ''knownhosts: key mismatch'')"
| "checkError_Error (RevokedError r) = ErrNew ''knownhosts: key is revoked''"
| "checkError_Error (AddrError a e) = Errorf ''knownhosts: SplitHostPort(%s): %v'' [] [a]"

text \<open>
  The map from algorithms to keys, in the order of its first insertions; the source lists the wanted keys in the
  unspecified order of the map.
\<close>

primrec knownKeysLoop ::
  "(bytes \<Rightarrow> bytes \<Rightarrow> bytes) \<Rightarrow> addr list \<Rightarrow> (string \<times> KnownKey) list \<Rightarrow> keyDBLine list \<Rightarrow> (string \<times> KnownKey) list res" where
  "knownKeysLoop hmac addrs known [] = Ok known"
| "knownKeysLoop hmac addrs known (l # ls) =
     (if line_match hmac l addrs then
        res_bind (pk_Type (Key (knownKey l))) (\<lambda>typ.
          knownKeysLoop hmac addrs (if map_of known typ = None then known @ [(typ, knownKey l)] else known) ls)
      else knownKeysLoop hmac addrs known ls)"

definition checkAddrs ::
  "keyPrims \<Rightarrow> (bytes \<Rightarrow> bytes \<Rightarrow> bytes) \<Rightarrow> hostKeyDB \<Rightarrow> addr list \<Rightarrow> publicKey \<Rightarrow> checkError option res" where
  "checkAddrs E hmac db addrs remoteKey =
     res_bind (knownKeysLoop hmac addrs [] (db_lines db)) (\<lambda>known.
       let keyErr = KeyError (map snd known) in
       if known = [] then Ok (Some keyErr)
       else
         res_bind (pk_Type remoteKey) (\<lambda>typ.
           case map_of known typ of
             None \<Rightarrow> Ok (Some keyErr)
           | Some k \<Rightarrow> res_bind (keyEq E (Key k) remoteKey) (\<lambda>eq. Ok (if eq then None else Some keyErr))))"

definition db_check ::
  "keyPrims \<Rightarrow> (bytes \<Rightarrow> bytes \<Rightarrow> bytes) \<Rightarrow> hostKeyDB \<Rightarrow> string \<Rightarrow> string \<Rightarrow> publicKey \<Rightarrow> checkError option res" where
  "db_check E hmac db address remote remoteKey =
     res_bind (pk_Marshal E remoteKey) (\<lambda>b.
       case map_of (revoked db) b of
         Some r \<Rightarrow> Ok (Some (RevokedError r))
       | None \<Rightarrow>
           (case SplitHostPort remote of
              Panic x \<Rightarrow> Panic x
            | Err e \<Rightarrow> Ok (Some (AddrError remote e))
            | Ok (h, p) \<Rightarrow>
                if address = [] then checkAddrs E hmac db [\<lparr>host = h, port = p\<rparr>] remoteKey
                else
                  (case SplitHostPort address of
                     Panic x \<Rightarrow> Panic x
                   | Err e \<Rightarrow> Ok (Some (AddrError address e))
                   | Ok (h', p') \<Rightarrow>
                       checkAddrs E hmac db [\<lparr>host = h, port = p\<rparr>, \<lparr>host = h', port = p'\<rparr>] remoteKey)))"

definition checkCallback ::
  "keyPrims \<Rightarrow> (bytes \<Rightarrow> bytes \<Rightarrow> bytes) \<Rightarrow> hostKeyDB \<Rightarrow> string \<Rightarrow> string \<Rightarrow> publicKey \<Rightarrow> unit res" where
  "checkCallback E hmac db address remote key =
     res_bind (db_check E hmac db address remote key) (\<lambda>r.
       case r of None \<Rightarrow> Ok () | Some e \<Rightarrow> Err (checkError_Error e))"

primrec readFiles :: "keyPrims \<Rightarrow> (string \<Rightarrow> (bytes \<times> gerror option) res) \<Rightarrow> hostKeyDB \<Rightarrow> string list \<Rightarrow> hostKeyDB res" where
  "readFiles E open' db [] = Ok db"
| "readFiles E open' db (fn # fns) =
     res_bind (open' fn) (\<lambda>(contents, rdErr).
     res_bind (db_Read E db contents rdErr fn) (\<lambda>db1. readFiles E open' db1 fns))"

definition dbChecker :: "keyPrims \<Rightarrow> (bytes \<Rightarrow> bytes \<Rightarrow> bytes) \<Rightarrow> hostKeyDB \<Rightarrow> unit CertChecker" where
  "dbChecker E hmac db =
     \<lparr>SupportedCriticalOptions = [], IsUserAuthority = None, IsHostAuthority = Some (db_IsHostAuthority E hmac db),
      UserKeyFallback = None, HostKeyFallback = Some (checkCallback E hmac db), IsRevoked = Some (db_IsRevoked E db)\<rparr>"

text \<open>The callback of \<open>New\<close>; the time is the clock's at the call.\<close>

definition New ::
  "keyPrims \<Rightarrow> (bytes \<Rightarrow> bytes \<Rightarrow> bytes) \<Rightarrow> (string \<Rightarrow> (bytes \<times> gerror option) res) \<Rightarrow> string list \<Rightarrow>
     (int \<Rightarrow> string \<Rightarrow> string \<Rightarrow> publicKey \<Rightarrow> unit res) res" where
  "New E hmac open' files =
     res_bind (readFiles E open' newHostKeyDB files) (\<lambda>db. Ok (\<lambda>now. CheckHostKey E now (dbChecker E hmac db)))"

section \<open>Writing\<close>

definition LineFor :: "keyPrims \<Rightarrow> string list \<Rightarrow> publicKey \<Rightarrow> string res" where
  "LineFor E addresses key =
     res_bind (serialize E key) (\<lambda>s. Ok (joinWith '','' (map Normalize addresses) @ '' '' @ s))"

section \<open>Lemmas on matching\<close>

text \<open>What a pattern means: a star stands for any bytes, a question mark for one.\<close>

inductive globs :: "bytes \<Rightarrow> bytes \<Rightarrow> bool" where
  globs_nil: "globs [] []"
| globs_star: "globs p v \<Longrightarrow> globs (42 # p) (u @ v)"
| globs_any: "globs p v \<Longrightarrow> globs (63 # p) (c # v)"
| globs_lit: "globs p v \<Longrightarrow> c \<noteq> 42 \<Longrightarrow> c \<noteq> 63 \<Longrightarrow> globs (c # p) (c # v)"

inductive_simps globs_Nil: "globs [] s"
inductive_simps globs_Cons: "globs (c # p) s"

text \<open>The pattern with the stars at its end replaced by one star that stands for at least one byte.\<close>

fun someEnd :: "bytes \<Rightarrow> bytes" where
  "someEnd [] = []"
| "someEnd (c # p) = (if c = 42 \<and> list_all (\<lambda>x. x = 42) p then [63, 42] else c # someEnd p)"

lemma globs_question_star: "globs [63, 42] s \<longleftrightarrow> s \<noteq> []"
  by (cases s) (auto simp: globs_Cons globs_Nil)

lemma globs_star_iff: "globs (42 # p) s \<longleftrightarrow> (\<exists>u v. s = u @ v \<and> globs p v)"
  by (auto simp: globs_Cons)

lemma someEnd_stars: "p \<noteq> [] \<Longrightarrow> list_all (\<lambda>x. x = 42) p \<Longrightarrow> someEnd p = [63, 42]"
  by (cases p) auto

lemma someEnd_plain: "p = [] \<or> last p \<noteq> 42 \<Longrightarrow> someEnd p = p"
proof (induction p)
  case (Cons c p)
  then show ?case by (cases "p = []") (auto simp: list_all_iff)
qed simp

lemma wildcardMatch_empty: "p \<noteq> [] \<Longrightarrow> \<not> wildcardMatch p []"
  by (cases p) auto

lemma wildcardMatch_star:
  assumes "p \<noteq> []"
  shows "wildcardMatch (42 # p) s \<longleftrightarrow> (\<exists>u v. s = u @ v \<and> wildcardMatch p v)"
proof
  assume "wildcardMatch (42 # p) s"
  then obtain j where "wildcardMatch p (drop j s)" using assms by (auto simp: list_ex_iff split: if_splits)
  then show "\<exists>u v. s = u @ v \<and> wildcardMatch p v" by (metis append_take_drop_id)
next
  assume "\<exists>u v. s = u @ v \<and> wildcardMatch p v"
  then obtain u v where uv: "s = u @ v" "wildcardMatch p v" by blast
  then have "v \<noteq> []" using wildcardMatch_empty [OF assms] by auto
  then show "wildcardMatch (42 # p) s" using uv assms by (auto simp: list_ex_iff intro!: bexI [of _ "length u"])
qed

lemma wildcardMatch_globs: "wildcardMatch p s \<longleftrightarrow> globs (someEnd p) s"
proof (induction p arbitrary: s)
  case (Cons c p)
  show ?case
  proof (cases "c = 42")
    case star: True
    show ?thesis
    proof (cases "p = []")
      case False
      then have w: "wildcardMatch (c # p) s \<longleftrightarrow> (\<exists>u v. s = u @ v \<and> globs (someEnd p) v)"
        using wildcardMatch_star Cons.IH star by simp
      show ?thesis
      proof (cases "list_all (\<lambda>x. x = 42) p")
        case True
        then show ?thesis
          unfolding w someEnd_stars [OF False True] using star by (auto simp: globs_question_star)
      qed (use star w globs_star_iff in auto)
    qed (use star globs_question_star in simp)
  next
    case False
    then show ?thesis using Cons.IH by (cases s) (auto simp: globs_Cons)
  qed
qed (simp add: globs_Nil)

text \<open>A list of patterns matches if one of them matches and no negated one does.\<close>

lemma patternAddrs_eq:
  "patternAddrs p addrs m = (if list_ex (hostPattern_match p) addrs then (if negate p then None else Some True) else Some m)"
  by (induction addrs arbitrary: m) auto

lemma patternsLoop_iff:
  "patternsLoop ps addrs m \<longleftrightarrow>
     (m \<or> (\<exists>p \<in> set ps. \<not> negate p \<and> list_ex (hostPattern_match p) addrs)) \<and>
     (\<forall>p \<in> set ps. negate p \<longrightarrow> \<not> list_ex (hostPattern_match p) addrs)"
  by (induction ps arbitrary: m) (auto simp: patternAddrs_eq)

section \<open>Lemmas on parsing\<close>

lemma wire_no_panic [simp]:
  "\<not> is_Panic (parseRSA b)" "\<not> is_Panic (parseDSA b)" "\<not> is_Panic (parseECDSA E b)" "\<not> is_Panic (parseED25519 b)"
  "\<not> is_Panic (unmarshalGeneric b)"
proof -
  note shapes = rsaWire_shape dsaWire_shape ecWire_shape edWire_shape genericCert_shape
  have u: "\<not> is_Panic (Unmarshal rsaWire b)" "\<not> is_Panic (Unmarshal dsaWire b)" "\<not> is_Panic (Unmarshal ecWire b)"
    "\<not> is_Panic (Unmarshal edWire b)" "\<not> is_Panic (Unmarshal genericCertStruct b)"
    by (rule Unmarshal_no_panic, simp add: rsaWire_def dsaWire_def ecWire_def edWire_def genericCertStruct_def)+
  show "\<not> is_Panic (parseRSA b)" "\<not> is_Panic (parseDSA b)" "\<not> is_Panic (parseED25519 b)" "\<not> is_Panic (unmarshalGeneric b)"
    by (auto simp: parseRSA_def parseDSA_def parseED25519_def unmarshalGeneric_def res_simps u
      dest!: shapes split: if_splits)
  show "\<not> is_Panic (parseECDSA E b)"
    by (auto simp: parseECDSA_def res_simps u dest!: shapes split: option.splits)
qed

lemma parsePlainKey_no_panic [simp]: "\<not> is_Panic (parsePlainKey E b algo)"
  by (simp add: parsePlainKey_def)

lemma parsePrincipals_no_panic [simp]: "\<not> is_Panic (parsePrincipals b)"
  by (induction b rule: parsePrincipals.induct) (subst parsePrincipals.simps, auto simp: res_simps split: option.splits)

lemma parseTuples_no_panic [simp]: "\<not> is_Panic (parseTuples b)"
proof -
  have "\<not> is_Panic (tupleValue v)" for v by (auto simp: tupleValue_def split: option.splits)
  then have "\<not> is_Panic (parseTuplesLoop k t b)" for k t
    by (induction k t b rule: parseTuplesLoop.induct) (subst parseTuplesLoop.simps, auto simp: res_simps split: option.splits)
  then show ?thesis by (simp add: parseTuples_def)
qed

lemma certParts_no_panic [simp]: "\<not> is_Panic (certHead E b a)" "\<not> is_Panic (certTail p k)"
  by (auto simp: certHead_def certTail_def res_simps Let_def split: option.splits)

lemma certToPrivAlgo_no_panic: "isCertAlgo a \<Longrightarrow> \<not> is_Panic (certToPrivAlgo a)"
  by (auto simp: isCertAlgo_def certToPrivAlgo_def certAlgoNames_def)

lemma is_Panic_case [simp]:
  "is_Panic (case r of Ok x \<Rightarrow> f x | Err e \<Rightarrow> Err e | Panic m \<Rightarrow> Panic m) \<longleftrightarrow> is_Panic r \<or> (\<exists>x. r = Ok x \<and> is_Panic (f x))"
  by (cases r) auto

lemma ParsePublicKey_no_panic [simp]: "\<not> is_Panic (ParsePublicKey E b)"
proof (induction E b rule: ParsePublicKey.induct)
  case (1 E inp)
  then show ?case
    by (subst ParsePublicKey.simps)
      (auto simp: res_simps certToPrivAlgo_no_panic split: option.splits)
qed

lemma b64decode_no_panic [simp]: "\<not> is_Panic (b64decode b)"
proof -
  have "\<not> is_Panic (b64groups b)" for b
    by (induction b rule: b64groups.induct) (auto simp: res_simps corruptInput_def split: option.splits)
  then show ?thesis by (simp add: b64decode_def)
qed

lemma SplitHostPort_no_panic [simp]: "\<not> is_Panic (SplitHostPort a)"
  by (auto simp: SplitHostPort_def Let_def split: option.splits)

lemma SplitHostPort_not_Panic [simp]: "SplitHostPort a \<noteq> Panic x"
  using SplitHostPort_no_panic [of a] by (cases "SplitHostPort a") auto

lemma newMatcher_no_panic: "pattern \<noteq> [] \<Longrightarrow> \<not> is_Panic (newMatcher pattern)"
proof -
  have "\<not> is_Panic (decodeHash p)" for p by (auto simp: decodeHash_def Let_def res_simps)
  then have h: "\<not> is_Panic (newHashedHost pattern)" by (auto simp: newHashedHost_def res_simps)
  have "\<not> is_Panic (parsePattern p)" for p
    using SplitHostPort_no_panic by (auto simp: parsePattern_def Let_def res_simps split: res.splits)
  then have "\<not> is_Panic (patternsOf ps)" for ps by (induction ps) (auto simp: res_simps)
  then have "\<not> is_Panic (newHostnameMatcher pattern)" by (auto simp: newHostnameMatcher_def res_simps)
  then show "pattern \<noteq> [] \<Longrightarrow> \<not> is_Panic (newMatcher pattern)" using h by (simp add: newMatcher_def)
qed

text \<open>A trimmed line does not begin with a blank, so its first word is not empty.\<close>

lemma trimLeft_suffix: "\<exists>a. b = a @ trimLeftWith seqs b"
proof (induction seqs b rule: trimLeftWith.induct)
  case (1 seqs b)
  show ?case
  proof (cases "leadingSpace seqs b = 0 \<or> b = []")
    case False
    with 1 obtain a where "drop (leadingSpace seqs b) b = a @ trimLeftWith seqs b"
      by (metis trimLeftWith.simps)
    then show ?thesis by (metis append.assoc append_take_drop_id)
  qed (subst trimLeftWith.simps, simp)
qed

lemma trimLeft_leading: "trimLeftWith seqs b = [] \<or> leadingSpace seqs (trimLeftWith seqs b) = 0"
proof (induction seqs b rule: trimLeftWith.induct)
  case (1 seqs b)
  then show ?case by (cases "leadingSpace seqs b = 0 \<or> b = []") (metis trimLeftWith.simps)+
qed

lemma leading_not_blank: "leadingSpace spaceSeqs (x # xs) = 0 \<Longrightarrow> x \<noteq> 32 \<and> x \<noteq> 9"
  by (auto simp: leadingSpace_def spaceSeqs_def)

lemma TrimSpace_not_blank:
  assumes "TrimSpace b = x # xs"
  shows "x \<noteq> 32 \<and> x \<noteq> 9"
proof -
  let ?l = "trimLeftWith spaceSeqs b"
  obtain a where "rev ?l = a @ trimLeftWith (map rev spaceSeqs) (rev ?l)" using trimLeft_suffix by blast
  then have "?l = TrimSpace b @ rev a" unfolding TrimSpace_def by (metis rev_append rev_rev_ident)
  then have "?l = x # xs @ rev a" using assms by simp
  then show ?thesis using trimLeft_leading [of spaceSeqs b] leading_not_blank by simp
qed

definition trimmed :: "bytes \<Rightarrow> bool" where
  "trimmed b \<longleftrightarrow> b = [] \<or> \<not> blank (hd b)"

lemma trimmed_TrimSpace [simp]: "trimmed (TrimSpace b)" "trimmed []"
  using TrimSpace_not_blank [of b] by (cases "TrimSpace b"; simp add: trimmed_def)+

lemma nextWord_trimmed: "nextWord b = (w, r) \<Longrightarrow> trimmed r"
  by (auto simp: nextWord_def split: option.splits)

lemma nextWord_ne: "nextWord b = (w, r) \<Longrightarrow> trimmed b \<Longrightarrow> b \<noteq> [] \<Longrightarrow> w \<noteq> []"
  by (cases b) (auto simp: nextWord_def trimmed_def indexBlank_def string_of_bytes_def split: option.splits)

lemma parseLine_Ok:
  assumes "parseLine E line = Ok (marker, h, key)" "trimmed line"
  shows "h \<noteq> [] \<and> key_typed key"
proof -
  obtain line1 line2 where l: "parseMarker line = (marker, line1)" "nextWord line1 = (h, line2)" "line2 \<noteq> []"
    and k: "\<exists>b. ParsePublicKey E b = Ok key"
    using assms(1) by (auto simp: parseLine_def Let_def res_simps split: prod.splits if_splits)
  have "trimmed line1" using l(1) assms(2) nextWord_trimmed [of line] by (auto simp: parseMarker_def split: prod.splits if_splits)
  moreover have "line1 \<noteq> []" using l(2,3) by (auto simp: nextWord_def indexBlank_def)
  ultimately show ?thesis using nextWord_ne [OF l(2)] k parsed_typed by blast
qed

lemma parseLine_no_panic [simp]: "\<not> is_Panic (parseLine E line)"
  by (auto simp: parseLine_def Let_def res_simps split: prod.splits)

section \<open>The invariant of the database\<close>

definition db_typed :: "hostKeyDB \<Rightarrow> bool" where
  "db_typed db \<longleftrightarrow> list_all (\<lambda>l. key_typed (Key (knownKey l))) (db_lines db) \<and> list_all (\<lambda>r. key_typed (Key (snd r))) (revoked db)"

lemma update_typed:
  "list_all (\<lambda>r. P (snd r)) al \<Longrightarrow> P v \<Longrightarrow> list_all (\<lambda>r. P (snd r)) (AList.update k v al)"
  by (induction al) auto

lemma db_parseLine_typed:
  assumes "db_typed db" "trimmed line"
  shows "\<not> is_Panic (db_parseLine E db line fn n)" "db_parseLine E db line fn n = Ok db1 \<Longrightarrow> db_typed db1"
proof -
  have p: "parseLine E line = Ok (m, h, k) \<Longrightarrow> \<not> is_Panic (newMatcher h) \<and> \<not> is_Panic (pk_Marshal E k) \<and> key_typed k" for m h k
    using parseLine_Ok [OF _ assms(2)] newMatcher_no_panic typed_total(1) [of k E] by fastforce
  then show "\<not> is_Panic (db_parseLine E db line fn n)"
    by (auto simp: db_parseLine_def res_simps Let_def)
  show "db_parseLine E db line fn n = Ok db1 \<Longrightarrow> db_typed db1"
    using p assms(1) by (auto simp: db_parseLine_def res_simps Let_def db_typed_def intro!: update_typed split: if_splits)
qed

lemma scanLoop_typed:
  assumes "db_typed db"
  shows "\<not> is_Panic (scanLoop E fn e n db inp) \<and> (\<forall>db1. scanLoop E fn e n db inp = Ok db1 \<longrightarrow> db_typed db1)"
  using assms
proof (induction E fn e n db inp rule: scanLoop.induct)
  case (1 E fn e n db inp)
  note t = db_parseLine_typed [OF "1.prems" trimmed_TrimSpace(1) [of "dropCR (fst (cutLine inp))"], of E fn "n + 1"]
  show ?case
    using 1 t by (subst (1 2) scanLoop.simps) (auto simp: Let_def split: option.splits res.splits)
qed

section \<open>Lemmas on checking\<close>

text \<open>The addresses a check looks for: the remote one and, if there is one, the dialled one.\<close>

definition checkedAddrs :: "string \<Rightarrow> string \<Rightarrow> addr list option" where
  "checkedAddrs address remote =
     (case SplitHostPort remote of
        Ok (h, p) \<Rightarrow>
          if address = [] then Some [\<lparr>host = h, port = p\<rparr>]
          else
            (case SplitHostPort address of
               Ok (h', p') \<Rightarrow> Some [\<lparr>host = h, port = p\<rparr>, \<lparr>host = h', port = p'\<rparr>]
             | _ \<Rightarrow> None)
      | _ \<Rightarrow> None)"

definition firstOf :: "(bytes \<Rightarrow> bytes \<Rightarrow> bytes) \<Rightarrow> addr list \<Rightarrow> string \<Rightarrow> keyDBLine list \<Rightarrow> keyDBLine option" where
  "firstOf hmac addrs t ls = List.find (\<lambda>l. line_match hmac l addrs \<and> pk_Type (Key (knownKey l)) = Ok t) ls"

lemma knownKeysLoop_Ok:
  assumes "list_all (\<lambda>l. key_typed (Key (knownKey l))) ls"
  shows "\<exists>known'. knownKeysLoop hmac addrs known ls = Ok known' \<and>
    (\<forall>t. map_of known' t = (case map_of known t of Some k \<Rightarrow> Some k | None \<Rightarrow> map_option knownKey (firstOf hmac addrs t ls)))"
  using assms
proof (induction ls arbitrary: known)
  case Nil
  then show ?case by (simp add: firstOf_def split: option.splits)
next
  case (Cons l ls)
  obtain ty where t: "pk_Type (Key (knownKey l)) = Ok ty" using Cons.prems typed_total(1) [of "Key (knownKey l)"] by auto
  let ?k = "if line_match hmac l addrs \<and> map_of known ty = None then known @ [(ty, knownKey l)] else known"
  obtain known' where k: "knownKeysLoop hmac addrs ?k ls = Ok known'"
    "\<forall>t. map_of known' t = (case map_of ?k t of Some k \<Rightarrow> Some k | None \<Rightarrow> map_option knownKey (firstOf hmac addrs t ls))"
    using Cons.IH [of ?k] Cons.prems by auto
  have "knownKeysLoop hmac addrs known (l # ls) = Ok known'" using k(1) t by (auto split: if_splits)
  moreover have "map_of known' x = (case map_of known x of Some k \<Rightarrow> Some k | None \<Rightarrow> map_option knownKey (firstOf hmac addrs x (l # ls)))" for x
    using k(2) t by (auto simp: firstOf_def map_add_def split: option.splits if_splits)
  ultimately show ?case by blast
qed

lemma keyEq_Ok: "pk_Marshal E a = Ok x \<Longrightarrow> pk_Marshal E b = Ok y \<Longrightarrow> keyEq E a b = Ok (x = y)"
  by (simp add: keyEq_def)

lemma checkAddrs_accepts:
  assumes "list_all (\<lambda>l. key_typed (Key (knownKey l))) (db_lines db)" "pk_Type k = Ok t" "pk_Marshal E k = Ok b"
  shows "checkAddrs E hmac db addrs k = Ok None \<longleftrightarrow>
    (\<exists>l. firstOf hmac addrs t (db_lines db) = Some l \<and> pk_Marshal E (Key (knownKey l)) = Ok b)"
proof -
  obtain known where known: "knownKeysLoop hmac addrs [] (db_lines db) = Ok known"
    "\<And>t. map_of known t = map_option knownKey (firstOf hmac addrs t (db_lines db))"
    using knownKeysLoop_Ok [OF assms(1), of hmac addrs "[]"] by auto
  show ?thesis
  proof (cases "firstOf hmac addrs t (db_lines db)")
    case None
    then show ?thesis using known(1) known(2) [of t] assms(2) by (auto simp: checkAddrs_def Let_def)
  next
    case (Some l)
    then have "l \<in> set (db_lines db)" unfolding firstOf_def by (metis find_Some_iff nth_mem)
    then have "key_typed (Key (knownKey l))" using assms(1) by (simp add: list_all_iff)
    then obtain y where y: "pk_Marshal E (Key (knownKey l)) = Ok y" using typed_total(1) by blast
    have m: "map_of known t = Some (knownKey l)" using known(2) Some by simp
    then have "known \<noteq> []" by auto
    then show ?thesis
      using known(1) m Some assms(2) keyEq_Ok [OF y assms(3)] y by (auto simp: checkAddrs_def Let_def)
  qed
qed

lemma db_check_checked:
  assumes "pk_Marshal E k = Ok b"
  shows "db_check E hmac db address remote k = Ok None \<longleftrightarrow>
    map_of (revoked db) b = None \<and> (\<exists>addrs. checkedAddrs address remote = Some addrs \<and> checkAddrs E hmac db addrs k = Ok None)"
  using assms by (auto simp: db_check_def checkedAddrs_def split: option.splits res.splits)

lemma checkAddrs_no_panic:
  assumes "list_all (\<lambda>l. key_typed (Key (knownKey l))) (db_lines db)" "key_typed k"
  shows "\<not> is_Panic (checkAddrs E hmac db addrs k)"
proof -
  obtain t b where tb: "pk_Type k = Ok t" "pk_Marshal E k = Ok b" using typed_total(1) [OF assms(2)] by blast
  obtain known where known: "knownKeysLoop hmac addrs [] (db_lines db) = Ok known"
    "\<And>t. map_of known t = map_option knownKey (firstOf hmac addrs t (db_lines db))"
    using knownKeysLoop_Ok [OF assms(1), of hmac addrs "[]"] by auto
  show ?thesis
  proof (cases "firstOf hmac addrs t (db_lines db)")
    case (Some l)
    then have "l \<in> set (db_lines db)" unfolding firstOf_def by (metis find_Some_iff nth_mem)
    then have "key_typed (Key (knownKey l))" using assms(1) by (simp add: list_all_iff)
    then obtain y where y: "pk_Marshal E (Key (knownKey l)) = Ok y" using typed_total(1) by blast
    show ?thesis using known(1) known(2) [of t] Some tb(1) keyEq_Ok [OF y tb(2)] by (simp add: checkAddrs_def Let_def)
  qed (use known(1) known(2) [of t] tb(1) in \<open>simp add: checkAddrs_def Let_def\<close>)
qed

lemma db_check_no_panic:
  assumes "db_typed db" "key_typed k"
  shows "\<not> is_Panic (db_check E hmac db address remote k)"
proof -
  obtain b where "pk_Marshal E k = Ok b" using typed_total(1) [OF assms(2)] by blast
  moreover have "\<not> is_Panic (checkAddrs E hmac db addrs k)" for addrs
    using assms by (intro checkAddrs_no_panic) (auto simp: db_typed_def)
  ultimately show ?thesis
    by (auto simp: db_check_def split: option.splits res.splits)
qed

text \<open>The bytes of a certificate are longer than those of the key that signed it.\<close>

lemma cert_longer_than_authority:
  assumes "cert_typed c" "cert_Marshal E c = Ok b" "pk_Marshal E (c_SignatureKey c) = Ok skb"
  shows "length skb < length b"
proof -
  obtain nonce key serial ty kid ps va vb crit ext reserved sk sig
    where c: "c = Certificate nonce key serial ty kid ps va vb crit ext reserved sk sig" by (cases c)
  then have t: "plain_typed key" using assms(1) by simp
  show ?thesis
    using assms(2,3)
    by (auto simp: c res_simps Let_def plain_Type [OF t] plain_Marshal [OF t] Marshal_ok genericCertStruct_def split: option.splits)
qed

lemma dbChecker_simps:
  "SupportedCriticalOptions (dbChecker E hmac db) = []" "CertChecker.IsRevoked (dbChecker E hmac db) = Some (db_IsRevoked E db)"
  by (simp_all add: dbChecker_def)

section \<open>Lemmas on written lines\<close>

lemma wildcardMatch_refl: "wildcardMatch p p"
proof (induction p)
  case (Cons c p)
  show ?case
  proof (cases "p = []")
    case False
    then have "wildcardMatch (42 # p) (c # p)" using wildcardMatch_star [OF False] Cons.IH by (metis append_Cons append_Nil)
    then show ?thesis using Cons.IH by (cases "c = 42") simp_all
  qed simp
qed simp

lemma Split_bracketed:
  assumes "noBrackets h" "noBrackets p" "CHR '':'' \<notin> set p"
  shows "SplitHostPort (''['' @ h @ '']:'' @ p) = Ok (h, p)"
proof -
  let ?s = "''['' @ h @ '']:'' @ p"
  have l: "lastIndexChar ?s CHR '':'' = Some (length h + 2)"
    using lastIndexChar_append [OF assms(3), of "''['' @ h @ '']''"] by simp
  have r: "indexChar ?s CHR '']'' = Some (length h + 1)"
    using indexChar_append [of "CHR '']''" "''['' @ h" "'':'' @ p"] assms(1) by (simp add: noBrackets_def)
  show ?thesis using l r assms by (simp add: SplitHostPort_def noBrackets_def Let_def)
qed

text \<open>
  The addresses that a line can hold: graphic characters, no comma or bracket, no colon in the port, and a first
  character that has no meaning of its own. An IPv6 address at port 22 is written in brackets without a port.
\<close>

definition lineChar :: "char \<Rightarrow> bool" where
  "lineChar c \<longleftrightarrow> graphic (byte_of_char c) \<and> c \<notin> set '',[]''"

definition lineAddr :: "string \<Rightarrow> string \<Rightarrow> bool" where
  "lineAddr h p \<longleftrightarrow> h \<noteq> [] \<and> list_all lineChar h \<and> list_all lineChar p \<and> hd h \<notin> set ''#@|!'' \<and>
     CHR '':'' \<notin> set p"

definition bareV6 :: "string \<Rightarrow> string \<Rightarrow> bool" where
  "bareV6 h p \<longleftrightarrow> p = ''22'' \<and> CHR '':'' \<in> set h"

lemma lineAddr_brackets: "lineAddr h p \<Longrightarrow> noBrackets h \<and> noBrackets p"
  by (auto simp: lineAddr_def lineChar_def noBrackets_def list_all_iff)

definition entryOf :: "string \<Rightarrow> string \<Rightarrow> string" where
  "entryOf h p = (if bareV6 h p then ''['' @ h @ '']'' else if p = ''22'' then h else ''['' @ h @ '']:'' @ p)"

lemma Normalize_entry:
  assumes "lineAddr h p"
  shows "Normalize (JoinHostPort h p) = entryOf h p"
proof -
  have "SplitHostPort (JoinHostPort h p) = Ok (h, p)"
    using assms lineAddr_brackets [OF assms] by (intro Split_Join) (auto simp: lineAddr_def)
  moreover have "hd h \<noteq> CHR ''[''" if "h \<noteq> []"
    using hd_in_set [OF that] lineAddr_brackets [OF assms] by (metis noBrackets_def)
  ultimately show ?thesis using assms by (auto simp: Normalize_def entryOf_def bareV6_def lineAddr_def Let_def)
qed

lemma graphic_bracket: "graphic (byte_of_char CHR ''['')" "graphic (byte_of_char CHR '']'')" "graphic (byte_of_char CHR '':'')"
  by (simp_all add: graphic_def byte_of_char_def)

lemma entry_graphic:
  assumes "lineAddr h p" "c \<in> set (entryOf h p)"
  shows "graphic (byte_of_char c)"
proof -
  have "\<forall>c \<in> set h. graphic (byte_of_char c)" "\<forall>c \<in> set p. graphic (byte_of_char c)"
    using assms(1) unfolding lineAddr_def lineChar_def list_all_iff by blast+
  moreover have "c \<in> set h \<or> c \<in> set p \<or> c \<in> set ''[]:''" using assms(2) by (auto simp: entryOf_def split: if_splits)
  ultimately show ?thesis using graphic_bracket by auto
qed

lemma entry_hd: "lineAddr h p \<Longrightarrow> entryOf h p \<noteq> [] \<and> hd (entryOf h p) \<notin> set ''#@|!''"
  by (auto simp: lineAddr_def entryOf_def)

lemma entry_comma: "lineAddr h p \<Longrightarrow> CHR '','' \<notin> set (entryOf h p)"
  by (auto simp: lineAddr_def entryOf_def lineChar_def list_all_iff)

text \<open>The matcher of such an entry, which an IPv6 address at port 22 does not have.\<close>

lemma newMatcher_bareV6:
  assumes "lineAddr h p" "bareV6 h p"
  shows "\<exists>e. newMatcher (entryOf h p) = Err e"
proof -
  let ?s = "''['' @ h @ '']''"
  have e: "entryOf h p = ?s" using assms(2) by (simp add: entryOf_def)
  have "lastIndexChar ?s CHR '':'' \<noteq> None"
    unfolding lastIndexChar_None using assms(2) by (simp add: bareV6_def del: lastIndexChar_None)
  then obtain i where "lastIndexChar ?s CHR '':'' = Some i" by blast
  moreover have "indexChar ?s CHR '']'' = Some (length h + 1)"
    using indexChar_append [of "CHR '']''" "''['' @ h" "[]"] lineAddr_brackets [OF assms(1)] by (simp add: noBrackets_def)
  ultimately have "SplitHostPort ?s = Err (addrErr ''missing port in address'' ?s)" by (simp add: SplitHostPort_def)
  then have "\<exists>e. parsePattern ?s = Err e" by (simp add: parsePattern_def Let_def)
  then show ?thesis using entry_comma [OF assms(1)] by (auto simp: e newMatcher_def newHostnameMatcher_def split_on_no_sep)
qed

lemma newMatcher_entry:
  assumes "lineAddr h p" "\<not> bareV6 h p"
  shows "newMatcher (entryOf h p) = Ok (HostPatterns [\<lparr>negate = False, hp_addr = \<lparr>host = h, port = p\<rparr>\<rparr>])"
proof -
  have c: "CHR '','' \<notin> set (entryOf h p)" by (rule entry_comma [OF assms(1)])
  have b: "noBrackets h" "noBrackets p" "CHR '':'' \<notin> set p" using assms(1) lineAddr_brackets [OF assms(1)] by (auto simp: lineAddr_def)
  have "parsePattern (entryOf h p) = Ok \<lparr>negate = False, hp_addr = \<lparr>host = h, port = p\<rparr>\<rparr>"
  proof (cases "p = ''22''")
    case True
    then have h: "h \<noteq> []" "hd h \<noteq> CHR ''!''" "hd h \<noteq> CHR ''[''" "CHR '':'' \<notin> set h"
      using assms b(1) hd_in_set [of h] by (auto simp: lineAddr_def bareV6_def noBrackets_def simp del: hd_in_set)
    then have "lastIndexChar h CHR '':'' = None" by simp
    then have "SplitHostPort h = Err (addrErr ''missing port in address'' h)" by (simp add: SplitHostPort_def del: lastIndexChar_None)
    then show ?thesis using h True assms(2) by (simp add: parsePattern_def entryOf_def Let_def)
  next
    case False
    have "SplitHostPort (entryOf h p) = Ok (h, p)" using Split_bracketed [OF b] False assms(2) by (simp add: entryOf_def)
    then show ?thesis using False assms(2) by (simp add: parsePattern_def Let_def entryOf_def)
  qed
  then show ?thesis using entry_hd [OF assms(1)] c by (simp add: newMatcher_def newHostnameMatcher_def split_on_no_sep)
qed

lemma nextWord_word:
  assumes "\<forall>x \<in> set w. graphic x" "r = [] \<or> graphic (hd r) \<and> graphic (last r)"
  shows "nextWord (w @ 32 # r) = (string_of_bytes w, r)"
proof -
  have "indexBlank (w @ 32 # r) = Some (length w)"
    unfolding indexBlank_def by (rule indexWhere_append) (use assms(1) graphic_not in auto)
  then show ?thesis using TrimSpace_graphic(2) [OF assms(2)] by (simp add: nextWord_def)
qed

lemma nextWord_end: "\<forall>x \<in> set w. graphic x \<Longrightarrow> nextWord w = (string_of_bytes w, [])"
  using indexWhere_none [of w "\<lambda>x. blank x"] graphic_not by (fastforce simp: nextWord_def indexBlank_def)

lemma parseLine_written:
  assumes "w \<noteq> []" "\<forall>x \<in> set w. graphic x" "hd w \<noteq> 64" "t \<in> set typeNames" "ParsePublicKey E b = Ok k" "b \<noteq> []"
  shows "parseLine E (w @ 32 # bytes_of_string t @ 32 # b64encode b) = Ok ([], string_of_bytes w, k)"
proof -
  let ?t = "bytes_of_string t" and ?e = "b64encode b"
  have t: "?t \<noteq> []" "\<forall>x \<in> set ?t. graphic x" using typeNames_graphic [OF assms(4)] by (auto simp: list_all_iff bytes_of_string_def)
  have e: "?e \<noteq> []" "\<forall>x \<in> set ?e. graphic x" using b64encode_length [of b] assms(6) by (auto simp: b64encode_graphic)
  have 3: "nextWord ?e = (string_of_bytes ?e, [])" by (rule nextWord_end [OF e(2)])
  have 2: "nextWord (?t @ 32 # ?e) = (t, ?e)" using nextWord_word [OF t(2), of ?e] e by simp
  have 1: "nextWord (w @ 32 # ?t @ 32 # ?e) = (string_of_bytes w, ?t @ 32 # ?e)"
    by (rule nextWord_word [OF assms(2)]) (use t e in \<open>simp add: hd_append\<close>)
  have "string_of_bytes w \<noteq> markerCert \<and> string_of_bytes w \<noteq> markerRevoked"
  proof -
    have "hd (string_of_bytes w) \<noteq> CHR ''@''"
    proof
      assume "hd (string_of_bytes w) = CHR ''@''"
      then have "byte_of_char (hd (string_of_bytes w)) = 64" by (simp add: byte_of_char_def)
      moreover have "bytes_of_string (string_of_bytes w) = w" by simp
      ultimately show False using assms(1,3) by (metis bytes_of_string_def hd_map list.map_disc_iff)
    qed
    then show ?thesis by auto
  qed
  then have "parseMarker (w @ 32 # ?t @ 32 # ?e) = ([], w @ 32 # ?t @ 32 # ?e)" by (simp add: parseMarker_def 1)
  then show ?thesis using 1 2 3 e(1) t(1) assms(5) by (simp add: parseLine_def b64decode_encode)
qed

lemma hd_byte_of_char:
  assumes "s \<noteq> []" "hd s \<notin> set ''#@''"
  shows "hd (bytes_of_string s) \<noteq> 64 \<and> hd (bytes_of_string s) \<noteq> 35"
proof -
  have "byte_of_char (hd s) \<noteq> byte_of_char CHR ''@'' \<and> byte_of_char (hd s) \<noteq> byte_of_char CHR ''#''"
    using assms(2) char_of_byte_of_char by (metis list.set_intros)
  then show ?thesis using assms(1) by (simp add: bytes_of_string_def hd_map byte_of_char_def)
qed

lemma bytes_of_string_append: "bytes_of_string (a @ b) = bytes_of_string a @ bytes_of_string b"
  by (simp add: bytes_of_string_def)

lemma bytes_of_string_space: "bytes_of_string (CHR '' '' # s) = 32 # bytes_of_string s"
  by (simp add: bytes_of_string_def byte_of_char_def)

lemma scanLoop_line:
  assumes "cutLine inp = (l, [])" "inp \<noteq> []" "length l < maxTokenSize" "TrimSpace (dropCR l) = l" "l \<noteq> [] \<and> hd l \<noteq> 35"
    and "db_parseLine E db l fn 1 = Ok db1"
  shows "scanLoop E fn None 0 db inp = Ok db1"
  using assms by (subst scanLoop.simps) (simp add: scanLoop.simps [of _ _ _ _ _ "[]"])

lemma scanLoop_bad_line:
  assumes "cutLine inp = (l, [])" "inp \<noteq> []" "length l < maxTokenSize" "TrimSpace (dropCR l) = l" "l \<noteq> [] \<and> hd l \<noteq> 35"
    and "db_parseLine E db l fn 1 = Err e"
  shows "scanLoop E fn None 0 db inp = Err (Errorf ''knownhosts: %s:%d: %v'' [1] [fn])"
  using assms by (subst scanLoop.simps) simp

lemma Read_written:
  assumes "lineAddr h p" "t \<in> set typeNames" "ParsePublicKey E b = Ok k" "b \<noteq> []"
    and "line = entryOf h p @ '' '' @ t @ '' '' @ string_of_bytes (b64encode b)" "length line < maxTokenSize"
  shows "db_Read E newHostKeyDB (bytes_of_string line @ [10]) None fn =
    (if bareV6 h p then Err (Errorf ''knownhosts: %s:%d: %v'' [1] [fn])
     else Ok \<lparr>revoked = [], db_lines = [\<lparr>l_cert = False, l_matcher = HostPatterns [\<lparr>negate = False, hp_addr = \<lparr>host = h, port = p\<rparr>\<rparr>],
      knownKey = \<lparr>Key = k, Filename = fn, Line = 1\<rparr>\<rparr>]\<rparr>)"
proof -
  let ?w = "bytes_of_string (entryOf h p)" and ?e = "b64encode b"
  let ?l = "?w @ 32 # bytes_of_string t @ 32 # ?e"
  have w: "?w \<noteq> []" "\<forall>x \<in> set ?w. graphic x" "hd ?w \<noteq> 64" "hd ?w \<noteq> 35"
    using entry_hd [OF assms(1)] entry_graphic [OF assms(1)] hd_byte_of_char [of "entryOf h p"] by (auto simp: bytes_of_string_def)
  have t: "\<forall>x \<in> set (bytes_of_string t). graphic x" using typeNames_graphic [OF assms(2)] by (simp add: list_all_iff)
  have e: "?e \<noteq> []" "\<forall>x \<in> set ?e. graphic x" using b64encode_length [of b] assms(4) by (auto simp: b64encode_graphic)
  have l: "bytes_of_string line = ?l" by (simp add: assms(5) bytes_of_string_append bytes_of_string_space)
  have g: "\<forall>x \<in> set ?l. x \<noteq> 10 \<and> x \<noteq> 13" using w(2) t e(2) by fastforce
  have c: "cutLine (?l @ [10]) = (?l, [])" using indexWhere_append [of ?l "\<lambda>x. x = 10" 10 "[]"] g by (auto simp: cutLine_def)
  have r: "dropCR ?l = ?l" using g e(1) by (auto simp: dropCR_def)
  have tr: "TrimSpace ?l = ?l" by (rule TrimSpace_graphic(1)) (use w e in \<open>simp add: hd_append\<close>)
  have p: "parseLine E ?l = Ok ([], entryOf h p, k)" using parseLine_written [OF w(1,2,3) assms(2,3,4)] by simp
  have len: "length ?l < maxTokenSize" using assms(6) l by (metis bytes_of_string_def length_map)
  have hd: "?l \<noteq> [] \<and> hd ?l \<noteq> 35" using w by (simp add: hd_append)
  have trim: "TrimSpace (dropCR ?l) = ?l" by (simp only: r tr)
  have ne: "?l @ [10] \<noteq> []" by simp
  show ?thesis
  proof (cases "bareV6 h p")
    case True
    then obtain e where "db_parseLine E newHostKeyDB ?l fn 1 = Err e"
      using newMatcher_bareV6 [OF assms(1)] by (auto simp: db_parseLine_def p)
    from scanLoop_bad_line [OF c ne len trim hd this] True show ?thesis by (simp add: db_Read_def l)
  next
    case False
    have "db_parseLine E newHostKeyDB ?l fn 1 = Ok \<lparr>revoked = [], db_lines = [\<lparr>l_cert = False,
        l_matcher = HostPatterns [\<lparr>negate = False, hp_addr = \<lparr>host = h, port = p\<rparr>\<rparr>], knownKey = \<lparr>Key = k, Filename = fn, Line = 1\<rparr>\<rparr>]\<rparr>"
      by (simp add: db_parseLine_def p newMatcher_entry [OF assms(1) False] newHostKeyDB_def)
    from scanLoop_line [OF c ne len trim hd this] False show ?thesis by (simp add: db_Read_def l)
  qed
qed

lemma toyRaw: "\<exists>raw. ParsePublicKey toyKeys raw = Ok (ED25519PublicKey [1])"
proof -
  obtain b where "pk_Marshal toyKeys (ED25519PublicKey [1]) = Ok b" "length b = 20" by (simp add: Marshal_ok)
  then show ?thesis using key_roundtrip(1) [of toyKeys "ED25519PublicKey [1]" b] by auto
qed

section \<open>Properties\<close>

text \<open>C14: A known hosts file of any contents is read without a panic, and in the database it gives, checking any key
  that the parser accepted does not panic either.\<close>

theorem known_hosts_never_panic:
  assumes "ParsePublicKey E raw = Ok k"
  shows "\<not> is_Panic (db_Read E newHostKeyDB contents rdErr fn) \<and>
    (\<forall>db. db_Read E newHostKeyDB contents rdErr fn = Ok db \<longrightarrow> \<not> is_Panic (db_check E hmac db address remote k))"
proof -
  have "db_typed newHostKeyDB" by (simp add: db_typed_def newHostKeyDB_def)
  from scanLoop_typed [OF this] have r: "\<not> is_Panic (db_Read E newHostKeyDB contents rdErr fn)"
    "\<And>db. db_Read E newHostKeyDB contents rdErr fn = Ok db \<Longrightarrow> db_typed db" by (auto simp: db_Read_def)
  have "key_typed k" by (rule parsed_typed [OF assms])
  then show ?thesis using r db_check_no_panic by blast
qed

lemma known_hosts_never_panic_witness:
  "\<exists>raw. ParsePublicKey toyKeys raw = Ok (ED25519PublicKey [1]) \<and> \<not> is_Panic (db_Read toyKeys newHostKeyDB [64, 10] None ''known_hosts'')"
proof -
  obtain raw where "ParsePublicKey toyKeys raw = Ok (ED25519PublicKey [1])" using toyRaw by blast
  with known_hosts_never_panic [OF this, of "[64, 10]" None "''known_hosts''"] show ?thesis by blast
qed

text \<open>When a host key is accepted. A key passes the check of a database iff its bytes are not revoked, the
  addresses can be split, and of the lines that match one of the addresses and hold a key of the same
  type, the first one holds the same bytes.\<close>

theorem known_host_accepted_iff:
  assumes "db_typed db" "pk_Type k = Ok t" "pk_Marshal E k = Ok b"
  shows "db_check E hmac db address remote k = Ok None \<longleftrightarrow>
    map_of (revoked db) b = None \<and>
    (\<exists>addrs l. checkedAddrs address remote = Some addrs \<and>
       List.find (\<lambda>l. line_match hmac l addrs \<and> pk_Type (Key (knownKey l)) = Ok t) (db_lines db) = Some l \<and>
       pk_Marshal E (Key (knownKey l)) = Ok b)"
proof -
  have "list_all (\<lambda>l. key_typed (Key (knownKey l))) (db_lines db)" using assms(1) by (simp add: db_typed_def)
  from checkAddrs_accepts [OF this assms(2,3)] show ?thesis
    unfolding db_check_checked [OF assms(3)] firstOf_def by blast
qed

lemma known_host_accepted_iff_witness:
  "db_check toyKeys (\<lambda>_ m. m) newHostKeyDB [] ''10.0.0.1:22'' (ED25519PublicKey [1]) \<noteq> Ok None"
proof -
  obtain b where b: "pk_Marshal toyKeys (ED25519PublicKey [1]) = Ok b" using typed_total(1) [of "ED25519PublicKey [1]" toyKeys] by auto
  have "db_typed newHostKeyDB" by (simp add: db_typed_def newHostKeyDB_def)
  from known_host_accepted_iff [OF this _ b, of KeyAlgoED25519 "\<lambda>_ m. m" "[]" "''10.0.0.1:22''"] show ?thesis
    by (simp add: newHostKeyDB_def)
qed



text \<open>C15: A certificate signed by a revoked authority stays valid. For certificates only their own bytes are looked up
  among the revoked keys: adding the key that signed a certificate to them does not change the answer
  for it.\<close>

theorem revoked_authority_still_trusted:
  assumes "cert_typed cert" "pk_Marshal E (c_SignatureKey cert) = Ok skb"
  shows "CheckHostKey E now (dbChecker E hmac (db\<lparr>revoked := AList.update skb known (revoked db)\<rparr>)) addr remote (CertPublicKey cert) =
    CheckHostKey E now (dbChecker E hmac db) addr remote (CertPublicKey cert)"
proof -
  obtain b where b: "cert_Marshal E cert = Ok b" using typed_total(2) [OF assms(1)] by blast
  then have "skb \<noteq> b" using cert_longer_than_authority [OF assms(1) b assms(2)] by auto
  then have "db_IsRevoked E (db\<lparr>revoked := AList.update skb known (revoked db)\<rparr>) cert = db_IsRevoked E db cert"
    by (simp add: db_IsRevoked_def b update_conv')
  then have "CheckCert E now (dbChecker E hmac (db\<lparr>revoked := AList.update skb known (revoked db)\<rparr>)) h cert =
      CheckCert E now (dbChecker E hmac db) h cert" for h
    unfolding CheckCert_def dbChecker_simps option.case by (simp only:)
  moreover have "IsHostAuthority (dbChecker E hmac (db\<lparr>revoked := rv\<rparr>)) = IsHostAuthority (dbChecker E hmac db)" for rv
    by (auto simp: dbChecker_def db_IsHostAuthority_def fun_eq_iff split: res.splits)
  ultimately show ?thesis unfolding CheckHostKey_def publicKey.case by (simp only:)
qed

lemma revoked_authority_still_trusted_witness:
  "\<exists>skb known. pk_Marshal toyKeys (c_SignatureKey toyCert) = Ok skb \<and>
     CheckHostKey toyKeys 15 (dbChecker toyKeys (\<lambda>_ m. m) \<lparr>revoked = [(skb, known)], db_lines = []\<rparr>) ''gw:22'' ''gw:22'' (CertPublicKey toyCert) =
     CheckHostKey toyKeys 15 (dbChecker toyKeys (\<lambda>_ m. m) \<lparr>revoked = [], db_lines = []\<rparr>) ''gw:22'' ''gw:22'' (CertPublicKey toyCert)"
proof -
  have t: "cert_typed toyCert" by (simp add: toyCert_def)
  obtain skb where s: "pk_Marshal toyKeys (c_SignatureKey toyCert) = Ok skb"
    using typed_total(1) [of "c_SignatureKey toyCert" toyKeys] by (auto simp: toyCert_def)
  let ?known = "\<lparr>Key = c_SignatureKey toyCert, Filename = ''f'', Line = 1\<rparr>"
  from revoked_authority_still_trusted [OF t s, where now = 15 and hmac = "\<lambda>_ m. m" and db = "\<lparr>revoked = [], db_lines = []\<rparr>" and
      known = ?known and addr = "''gw:22''" and remote = "''gw:22''"] s show ?thesis
    by (intro exI [of _ skb] exI [of _ ?known]) simp
qed

text \<open>C16: What the wildcard matcher computes: the glob relation, for the pattern in which the stars at the end
  stand for at least one byte. So a pattern that ends in a star does not match the name before the star.\<close>

theorem wildcardMatch_is_glob:
  "(wildcardMatch pat str \<longleftrightarrow> globs (someEnd pat) str) \<and> (pat = [] \<or> last pat \<noteq> 42 \<longrightarrow> (wildcardMatch pat str \<longleftrightarrow> globs pat str))"
  using wildcardMatch_globs someEnd_plain by metis

lemma wildcardMatch_is_glob_witness:
  "globs [97, 42] [97] \<and> \<not> wildcardMatch [97, 42] [97] \<and> \<not> globs (someEnd [97, 42]) [97] \<and> (wildcardMatch [42, 97] [98, 97] \<longleftrightarrow> globs [42, 97] [98, 97])"
  using wildcardMatch_is_glob [of "[97, 42]" "[97]"] wildcardMatch_is_glob [of "[42, 97]" "[98, 97]"]
  by (auto simp: globs_Cons globs_Nil)

end
