(* ===== verification/HostKeys.thy ===== *)
theory HostKeys
  imports HandshakeSafety KnownHosts
begin

text \<open>
  The host key of a connection: the checks a client makes at the end of a key exchange (\<open>src/handshake.go\<close>,
  \<open>client\<close>), with the parser and the verification of \<open>src/keys.go\<close> and the callback of the known hosts database.
\<close>

text \<open>The callback gets the dialled address, the remote address and the parsed key.\<close>

definition sshChecks :: "keyPrims \<Rightarrow> (string \<Rightarrow> string \<Rightarrow> publicKey \<Rightarrow> unit res) \<Rightarrow> string \<Rightarrow> string \<Rightarrow> hostKeyChecks" where
  "sshChecks E hostKeyCallback dialAddress remoteAddr =
     \<lparr>hk_parse = (\<lambda>b. res_bind (ParsePublicKey E b) (\<lambda>hostKey. Ok (pk_Verify E hostKey))),
      hk_callback = (\<lambda>b. res_bind (ParsePublicKey E b) (\<lambda>hostKey. hostKeyCallback dialAddress remoteAddr hostKey))\<rparr>"

lemma clientAccept_iff:
  "clientAccept (sshChecks E cb dial remote) r = Ok r' \<longleftrightarrow>
     r' = r \<and> (\<exists>k sig. ParsePublicKey E (kr_HostKey r) = Ok k \<and> parseSignatureBody (kr_Signature r) = Some (sig, []) \<and>
       pk_Verify E k (kr_H r) sig = Ok () \<and> cb dial remote k = Ok ())"
proof (cases "parseSignatureBody (kr_Signature r)")
  case None
  then show ?thesis by (auto simp: clientAccept_def sshChecks_def verifyHostKeySignature_def res_simps)
next
  case (Some p)
  then show ?thesis
    by (cases p) (auto simp: clientAccept_def sshChecks_def verifyHostKeySignature_def res_simps split: if_splits)
qed

lemma plain_CheckHostKey:
  "plain_typed k \<Longrightarrow> CheckHostKey E now (dbChecker E hmac db) dial remote k = checkCallback E hmac db dial remote k"
  by (cases k) (simp_all add: CheckHostKey_def dbChecker_def)

lemma checkCallback_Ok: "checkCallback E hmac db dial remote k = Ok () \<longleftrightarrow> db_check E hmac db dial remote k = Ok None"
  by (auto simp: checkCallback_def res_simps split: option.splits)

lemma plain_pair: "plain_typed k \<Longrightarrow> pk_Type k = Ok (plainName k) \<and> (\<exists>b. pk_Marshal E k = Ok b)"
  using plain_Type typed_total(1) [OF plain_key_typed] by blast

section \<open>Properties\<close>

text \<open>C2: Whom a client talks to. When a client with a known hosts database ends a key exchange, and the host key is not
  a certificate, then the signature over the exchange hash verifies under the received host key, the key
  is not revoked, and the first line for this host with a key of its type holds the same key.\<close>

theorem client_accepts_known_host:
  assumes "db_typed db" "ParsePublicKey E (kr_HostKey r) = Ok k" "plain_typed k" "pk_Marshal E k = Ok b"
  shows "clientAccept (sshChecks E (CheckHostKey E now (dbChecker E hmac db)) dial remote) r = Ok r' \<longleftrightarrow>
    r' = r \<and> (\<exists>sig. parseSignatureBody (kr_Signature r) = Some (sig, []) \<and> pk_Verify E k (kr_H r) sig = Ok ()) \<and>
    map_of (revoked db) b = None \<and>
    (\<exists>addrs l. checkedAddrs dial remote = Some addrs \<and>
       firstOf hmac addrs (plainName k) (db_lines db) = Some l \<and> pk_Marshal E (Key (knownKey l)) = Ok b)"
proof -
  have "list_all (\<lambda>l. key_typed (Key (knownKey l))) (db_lines db)" using assms(1) by (simp add: db_typed_def)
  note c = checkAddrs_accepts [OF this plain_Type [OF assms(3)] assms(4)]
  show ?thesis
    unfolding clientAccept_iff plain_CheckHostKey [OF assms(3)]
    using assms(2) plain_CheckHostKey [OF assms(3), of E now hmac db dial remote] checkCallback_Ok [of E hmac db dial remote k]
      db_check_checked [OF assms(4), of hmac db dial remote] c [of hmac] by auto
qed

text \<open>C12: A server can crash a client. The length of an Ed25519 host key is not checked when it is parsed, and verifying a
  signature with a key that does not have 32 bytes panics. The signature is verified before the
  callback, so no callback prevents it.\<close>

theorem short_host_key_panics:
  assumes "\<And>k d s. length k \<noteq> 32 \<Longrightarrow> is_Panic (kp_edVerify E k d s)"
    and "length key \<noteq> 32" "length key < 2 ^ 31" "pk_Marshal E (ED25519PublicKey key) = Ok (kr_HostKey r)"
    and "parseSignatureBody (kr_Signature r) = Some (\<lparr>sig_Format = ''ssh-ed25519'', sig_Blob = blob\<rparr>, [])"
  shows "is_Panic (clientAccept (sshChecks E cb dial remote) r)"
proof -
  have "length (kr_HostKey r) = length key + 19" using arg_cong [OF assms(4), of "case_res length (\<lambda>_. 0) (\<lambda>_. 0)"] by (simp add: Marshal_ok bytes_of_string_def)
  then have "ParsePublicKey E (kr_HostKey r) = Ok (ED25519PublicKey key)"
    using assms(3) by (intro key_roundtrip(1) [OF _ assms(4)]) simp_all
  then show ?thesis
    using assms(1) [OF assms(2), of "kr_H r" blob] assms(5)
    by (auto simp: clientAccept_def sshChecks_def verifyHostKeySignature_def res_simps)
qed

lemma client_accepts_known_host_witness:
  "\<exists>raw b. ParsePublicKey toyKeys raw = Ok (ED25519PublicKey [1]) \<and> pk_Marshal toyKeys (ED25519PublicKey [1]) = Ok b \<and>
     clientAccept (sshChecks toyKeys (CheckHostKey toyKeys 0 (dbChecker toyKeys (\<lambda>_ m. m) newHostKeyDB)) ''gw:22'' ''gw:22'')
       \<lparr>kr_H = [], kr_K = [], kr_HostKey = raw, kr_Signature = [], kr_Hash = SHA256, kr_SessionID = []\<rparr> \<noteq>
     Ok \<lparr>kr_H = [], kr_K = [], kr_HostKey = raw, kr_Signature = [], kr_Hash = SHA256, kr_SessionID = []\<rparr>"
proof -
  obtain raw where raw: "ParsePublicKey toyKeys raw = Ok (ED25519PublicKey [1])" using toyRaw by blast
  obtain b where b: "pk_Marshal toyKeys (ED25519PublicKey [1]) = Ok b" using plain_pair [of "ED25519PublicKey [1]"] by auto
  have d: "db_typed newHostKeyDB" by (simp add: db_typed_def newHostKeyDB_def)
  let ?r = "\<lparr>kr_H = [], kr_K = [], kr_HostKey = raw, kr_Signature = [], kr_Hash = SHA256, kr_SessionID = []\<rparr>"
  have "parseSignatureBody (kr_Signature ?r) = None" by (simp add: parseSignatureBody_def parseString_def)
  then show ?thesis
    using client_accepts_known_host [OF d _ _ b, of ?r 0 "\<lambda>_ m. m" "''gw:22''" "''gw:22''" ?r] raw b by auto
qed

lemma short_host_key_panics_witness:
  "\<exists>hk sg. is_Panic (clientAccept (sshChecks toyKeys (\<lambda>_ _ _. Err (ErrNew ''unknown host'')) ''gw:22'' ''gw:22'')
     \<lparr>kr_H = [], kr_K = [], kr_HostKey = hk, kr_Signature = sg, kr_Hash = SHA256, kr_SessionID = []\<rparr>)"
proof -
  obtain hk where hk: "pk_Marshal toyKeys (ED25519PublicKey [1]) = Ok hk" using plain_pair [of "ED25519PublicKey [1]"] by auto
  let ?sg = "writeString [] (bytes_of_string ''ssh-ed25519'') @ writeString [] [7]"
  have "length k \<noteq> 32 \<Longrightarrow> is_Panic (kp_edVerify toyKeys k d s)" for k d s by (simp add: toyKeys_def)
  moreover have "parseSignatureBody ?sg = Some (\<lparr>sig_Format = ''ssh-ed25519'', sig_Blob = [7]\<rparr>, [])"
    using strc.dec_enc [of "[7]" "[]"] by (simp add: parseSignatureBody_def strc.dec_enc)
  ultimately have "is_Panic (clientAccept (sshChecks toyKeys (\<lambda>_ _ _. Err (ErrNew ''unknown host'')) ''gw:22'' ''gw:22'')
     \<lparr>kr_H = [], kr_K = [], kr_HostKey = hk, kr_Signature = ?sg, kr_Hash = SHA256, kr_SessionID = []\<rparr>)"
    by (intro short_host_key_panics [where key = "[1]" and blob = "[7]"]) (simp_all add: hk del: pk_Marshal.simps)
  then show ?thesis by blast
qed

end
