(* ===== verification/ClientAuth.thy ===== *)
theory ClientAuth
  imports Handshake Certs
begin

text \<open>
  User authentication, the side of the client (\<open>src/client_auth.go\<close>). The packet connection is what its calls
  return: the results of the reads to come and of the writes to come, and the packets written so far; a read
  without a result blocks for ever, and a call that does not return is \<open>None\<close>. A callback is a function of the
  number of the attempt, which the innermost retrying method counts, since it may answer differently each time.
\<close>

section \<open>Packet connections\<close>

record packetConn =
  pc_in :: "bytes res list"
  pc_wres :: "gerror option list"
  pc_out :: "bytes list"

type_synonym 'a act = "packetConn \<Rightarrow> ('a res \<times> packetConn) option"

definition pc_readPacket :: "bytes act" where
  "pc_readPacket c = (case pc_in c of [] \<Rightarrow> None | r # rs \<Rightarrow> Some (r, c\<lparr>pc_in := rs\<rparr>))"

definition pc_writePacket :: "bytes \<Rightarrow> unit act" where
  "pc_writePacket p c =
     (case pc_wres c of
        Some e # ws \<Rightarrow> Some (Err e, c\<lparr>pc_wres := ws\<rparr>)
      | ws \<Rightarrow> Some (Ok (), c\<lparr>pc_wres := tl ws, pc_out := pc_out c @ [p]\<rparr>))"

definition act_bind :: "'a act \<Rightarrow> ('a \<Rightarrow> 'b act) \<Rightarrow> 'b act" where
  "act_bind m f c =
     (case m c of
        None \<Rightarrow> None
      | Some (Ok x, c1) \<Rightarrow> f x c1
      | Some (Err e, c1) \<Rightarrow> Some (Err e, c1)
      | Some (Panic s, c1) \<Rightarrow> Some (Panic s, c1))"

definition act_res :: "'a res \<Rightarrow> 'a act" where
  "act_res r c = Some (r, c)"

definition writeRes :: "bytes res \<Rightarrow> unit act" where
  "writeRes r = act_bind (act_res r) pc_writePacket"

definition indexPanic :: "'a res" where
  "indexPanic = Panic ''index out of range''"

section \<open>Responses\<close>

abbreviation (input) serviceUserAuth :: string where "serviceUserAuth \<equiv> ''ssh-userauth''"
abbreviation (input) serviceSSH :: string where "serviceSSH \<equiv> ''ssh-connection''"

text \<open>
  A slice of method names is \<open>None\<close> when it is nil; the list of a failure message is never nil, even when it
  names no method.
\<close>

definition failureMethods :: "bytes \<Rightarrow> string list res" where
  "failureMethods packet =
     res_bind (UnmarshalMsg T_userAuthFailureMsg packet) (\<lambda>m.
       case m of UserAuthFailureMsg methods _ \<Rightarrow> Ok methods | _ \<Rightarrow> Ok [])"

function handleAuthResponse :: "(bool \<times> string list option) act" where
  "handleAuthResponse c =
     (case pc_readPacket c of
        None \<Rightarrow> None
      | Some (Err e, c1) \<Rightarrow> Some (Err e, c1)
      | Some (Panic s, c1) \<Rightarrow> Some (Panic s, c1)
      | Some (Ok [], c1) \<Rightarrow> Some (indexPanic, c1)
      | Some (Ok (b # packet), c1) \<Rightarrow>
          if b = msgUserAuthBanner then handleAuthResponse c1
          else if b = msgUserAuthFailure then Some (res_bind (failureMethods (b # packet)) (\<lambda>ms. Ok (False, Some ms)), c1)
          else if b = msgUserAuthSuccess then Some (Ok (True, None), c1)
          else Some (Err (unexpectedMessageError msgUserAuthSuccess b), c1))"
  by auto
termination
  by (relation "measure (\<lambda>c. length (pc_in c))") (auto simp: pc_readPacket_def split: list.splits)

section \<open>Methods\<close>

datatype authMethod =
    NoneAuth
  | PasswordAuth "nat \<Rightarrow> string res"
  | PublicKeyAuth "nat \<Rightarrow> sshSigner list res"
  | KeyboardAuth "nat \<Rightarrow> string \<Rightarrow> string \<Rightarrow> string list \<Rightarrow> bool list \<Rightarrow> string list res"
  | RetryableAuth authMethod int

primrec methodName :: "authMethod \<Rightarrow> string" where
  "methodName NoneAuth = ''none''"
| "methodName (PasswordAuth cb) = ''password''"
| "methodName (PublicKeyAuth cb) = ''publickey''"
| "methodName (KeyboardAuth cb) = ''keyboard-interactive''"
| "methodName (RetryableAuth m n) = methodName m"

definition Password :: "string \<Rightarrow> authMethod" where
  "Password secret = PasswordAuth (\<lambda>_. Ok secret)"

definition PublicKeys :: "sshSigner list \<Rightarrow> authMethod" where
  "PublicKeys signers = PublicKeyAuth (\<lambda>_. Ok signers)"

definition none_auth :: "string \<Rightarrow> (bool \<times> string list option) act" where
  "none_auth user =
     act_bind (writeRes (MarshalMsg (UserAuthRequestMsg user serviceSSH ''none'' []))) (\<lambda>_. handleAuthResponse)"

definition passwordAuthStruct :: structType where
  "passwordAuthStruct = \<lparr>sname = ''passwordAuthMsg'', sshtype = ''50'', sfields =
     [(''User'', KString), (''Service'', KString), (''Method'', KString), (''Reply'', KBool), (''Password'', KString)]\<rparr>"

definition password_auth :: "string res \<Rightarrow> string \<Rightarrow> (bool \<times> string list option) act" where
  "password_auth cb user =
     act_bind (act_res cb) (\<lambda>pw.
     act_bind (writeRes (Marshal passwordAuthStruct
         [VString user, VString serviceSSH, VString ''password'', VBool False, VString pw])) (\<lambda>_.
       handleAuthResponse))"

subsection \<open>Public keys\<close>

definition publickeyAuthStruct :: structType where
  "publickeyAuthStruct = \<lparr>sname = ''publickeyAuthMsg'', sshtype = ''50'', sfields =
     [(''User'', KString), (''Service'', KString), (''Method'', KString), (''HasSig'', KBool), (''Algoname'', KString),
      (''PubKey'', KBytes), (''Sig'', KRest)]\<rparr>"

definition publickeyAuthMsg :: "string \<Rightarrow> bool \<Rightarrow> string \<Rightarrow> bytes \<Rightarrow> bytes \<Rightarrow> bytes res" where
  "publickeyAuthMsg user hasSig algoname pubKey sig =
     Marshal publickeyAuthStruct [VString user, VString serviceSSH, VString ''publickey'', VBool hasSig, VString algoname,
       VBytes pubKey, VBytes sig]"

definition pubKeyOk :: "bytes \<Rightarrow> string \<Rightarrow> bytes \<Rightarrow> bool res" where
  "pubKeyOk packet algoname pubKey =
     res_bind (UnmarshalMsg T_userAuthPubKeyOkMsg packet) (\<lambda>m.
       case m of UserAuthPubKeyOkMsg algo k \<Rightarrow> Ok (algo = algoname \<and> k = pubKey) | _ \<Rightarrow> Ok False)"

function confirmKeyAck :: "string \<Rightarrow> bytes \<Rightarrow> bool act" where
  "confirmKeyAck algoname pubKey c =
     (case pc_readPacket c of
        None \<Rightarrow> None
      | Some (Err e, c1) \<Rightarrow> Some (Err e, c1)
      | Some (Panic s, c1) \<Rightarrow> Some (Panic s, c1)
      | Some (Ok [], c1) \<Rightarrow> Some (indexPanic, c1)
      | Some (Ok (b # packet), c1) \<Rightarrow>
          if b = msgUserAuthBanner then confirmKeyAck algoname pubKey c1
          else if b = msgUserAuthPubKeyOk then Some (pubKeyOk (b # packet) algoname pubKey, c1)
          else if b = msgUserAuthFailure then Some (Ok False, c1)
          else Some (Err (unexpectedMessageError msgUserAuthSuccess b), c1))"
  by auto
termination
  by (relation "measure (\<lambda>(_, _, c). length (pc_in c))") (auto simp: pc_readPacket_def split: list.splits)

declare handleAuthResponse.simps [simp del] confirmKeyAck.simps [simp del]

definition validateKey :: "keyPrims \<Rightarrow> publicKey \<Rightarrow> string \<Rightarrow> bool act" where
  "validateKey E key user =
     act_bind (act_res (pk_Marshal E key)) (\<lambda>pubKey.
     act_bind (act_res (pk_Type key)) (\<lambda>algoname.
     act_bind (writeRes (publickeyAuthMsg user False algoname pubKey [])) (\<lambda>_.
       confirmKeyAck algoname pubKey)))"

primrec containsMethod :: "string list \<Rightarrow> string \<Rightarrow> bool" where
  "containsMethod [] meth = False"
| "containsMethod (m # ms) meth = (m = meth \<or> containsMethod ms meth)"

text \<open>The signed request for one key: the signature covers the session, the user and the key.\<close>

definition signedRequest :: "keyPrims \<Rightarrow> sshSigner \<Rightarrow> bytes \<Rightarrow> string \<Rightarrow> bytes res" where
  "signedRequest E signer session user =
     res_bind (pk_Marshal E (ss_pub signer)) (\<lambda>pubKey.
     res_bind (pk_Type (ss_pub signer)) (\<lambda>algo.
     res_bind (buildDataSignedForAuth session user serviceSSH ''publickey'' (bytes_of_string algo) pubKey) (\<lambda>d.
     res_bind (ss_Sign signer d) (\<lambda>sign.
     res_bind (marshalSignature sign) (\<lambda>s.
       publickeyAuthMsg user True algo pubKey (writeString [] s))))))"

primrec publickeyLoop :: "keyPrims \<Rightarrow> bytes \<Rightarrow> string \<Rightarrow> string list option \<Rightarrow> sshSigner list \<Rightarrow> (bool \<times> string list option) act" where
  "publickeyLoop E session user methods [] = act_res (Ok (False, methods))"
| "publickeyLoop E session user methods (signer # signers) =
     act_bind (validateKey E (ss_pub signer) user) (\<lambda>ok.
       if \<not> ok then publickeyLoop E session user methods signers
       else
         act_bind (writeRes (signedRequest E signer session user)) (\<lambda>_.
         act_bind handleAuthResponse (\<lambda>(success, methods1).
           if success \<or> \<not> containsMethod (nilSlice methods1) ''publickey'' then act_res (Ok (success, methods1))
           else publickeyLoop E session user methods1 signers)))"

definition publickey_auth :: "keyPrims \<Rightarrow> sshSigner list res \<Rightarrow> bytes \<Rightarrow> string \<Rightarrow> (bool \<times> string list option) act" where
  "publickey_auth E cb session user = act_bind (act_res cb) (publickeyLoop E session user None)"

subsection \<open>Keyboard-interactive\<close>

definition initiateStruct :: structType where
  "initiateStruct = \<lparr>sname = ''initiateMsg'', sshtype = ''50'', sfields =
     [(''User'', KString), (''Service'', KString), (''Method'', KString), (''Language'', KString), (''Submethods'', KString)]\<rparr>"

primrec parsePrompts :: "nat \<Rightarrow> bytes \<Rightarrow> (string list \<times> bool list \<times> bytes) res" where
  "parsePrompts 0 rest = Ok ([], [], rest)"
| "parsePrompts (Suc n) rest =
     (case parseString rest of
        None \<Rightarrow> Err (ErrNew ''ssh: prompt format error'')
      | Some (_, []) \<Rightarrow> Err (ErrNew ''ssh: prompt format error'')
      | Some (prompt, e # r) \<Rightarrow>
          res_bind (parsePrompts n r) (\<lambda>(ps, es, rest1). Ok (string_of_bytes prompt # ps, (e \<noteq> 0) # es, rest1)))"

definition infoResponse :: "string list \<Rightarrow> bytes" where
  "infoResponse answers =
     msgUserAuthInfoResponse # appendU32 [] (word_of_nat (length answers)) @
       concat (map (\<lambda>a. writeString [] (bytes_of_string a)) answers)"

definition answerPrompts ::
    "(string \<Rightarrow> string \<Rightarrow> string list \<Rightarrow> bool list \<Rightarrow> string list res) \<Rightarrow> bytes \<Rightarrow> bytes res" where
  "answerPrompts cb packet =
     res_bind (UnmarshalMsg T_userAuthInfoRequestMsg packet) (\<lambda>m.
       case m of
         UserAuthInfoRequestMsg user instruction _ numPrompts prompts0 \<Rightarrow>
           res_bind (parsePrompts (unat numPrompts) prompts0) (\<lambda>(prompts, echos, rest).
             if rest \<noteq> [] then Err (ErrNew ''ssh: extra data following keyboard-interactive pairs'')
             else
               res_bind (cb user instruction prompts echos) (\<lambda>answers.
                 if length answers \<noteq> length prompts
                 then Err (ErrNew ''ssh: not enough answers from keyboard-interactive callback'')
                 else Ok (infoResponse answers)))
       | _ \<Rightarrow> Ok [])"

lemma pc_readPacket_less: "pc_readPacket c = Some (r, c1) \<Longrightarrow> length (pc_in c1) < length (pc_in c)"
  by (auto simp: pc_readPacket_def split: list.splits)

lemma pc_writePacket_in: "pc_writePacket p c = Some (r, c1) \<Longrightarrow> pc_in c1 = pc_in c"
  by (auto simp: pc_writePacket_def split: list.splits option.splits)

lemma writeRes_in: "writeRes p c = Some (r, c1) \<Longrightarrow> pc_in c1 = pc_in c"
  by (cases p) (auto simp: writeRes_def act_bind_def act_res_def dest: pc_writePacket_in)

function keyboardLoop ::
    "(string \<Rightarrow> string \<Rightarrow> string list \<Rightarrow> bool list \<Rightarrow> string list res) \<Rightarrow> (bool \<times> string list option) act" where
  "keyboardLoop cb c =
     (case pc_readPacket c of
        None \<Rightarrow> None
      | Some (Err e, c1) \<Rightarrow> Some (Err e, c1)
      | Some (Panic s, c1) \<Rightarrow> Some (Panic s, c1)
      | Some (Ok [], c1) \<Rightarrow> Some (indexPanic, c1)
      | Some (Ok (b # packet), c1) \<Rightarrow>
          if b = msgUserAuthBanner then keyboardLoop cb c1
          else if b = msgUserAuthFailure then Some (res_bind (failureMethods (b # packet)) (\<lambda>ms. Ok (False, Some ms)), c1)
          else if b = msgUserAuthSuccess then Some (Ok (True, None), c1)
          else if b \<noteq> msgUserAuthInfoRequest then Some (Err (unexpectedMessageError msgUserAuthInfoRequest b), c1)
          else
            (case writeRes (answerPrompts cb (b # packet)) c1 of
               None \<Rightarrow> None
             | Some (Ok _, c2) \<Rightarrow> keyboardLoop cb c2
             | Some (Err e, c2) \<Rightarrow> Some (Err e, c2)
             | Some (Panic s, c2) \<Rightarrow> Some (Panic s, c2)))"
  by auto
termination
  by (relation "measure (\<lambda>(_, c). length (pc_in c))") (auto dest!: pc_readPacket_less writeRes_in)

declare keyboardLoop.simps [simp del]

definition keyboard_auth ::
    "(string \<Rightarrow> string \<Rightarrow> string list \<Rightarrow> bool list \<Rightarrow> string list res) \<Rightarrow> string \<Rightarrow> (bool \<times> string list option) act" where
  "keyboard_auth cb user =
     act_bind (writeRes (Marshal initiateStruct
         [VString user, VString serviceSSH, VString ''keyboard-interactive'', VString [], VString []])) (\<lambda>_.
       keyboardLoop cb)"

subsection \<open>Retrying\<close>

text \<open>The last result is returned when the tries are used up; without a limit the loop may not end.\<close>

partial_function (option) retryLoop ::
    "(nat \<Rightarrow> (bool \<times> string list option) act) \<Rightarrow> int \<Rightarrow> nat \<Rightarrow> bool \<times> string list option \<Rightarrow> (bool \<times> string list option) act" where
  "retryLoop once maxTries i prev c =
     (if maxTries \<le> 0 \<or> int i < maxTries then
        (case once i c of
           None \<Rightarrow> None
         | Some (r, c1) \<Rightarrow>
             (case r of
                Ok (ok, methods) \<Rightarrow> if ok then Some (r, c1) else retryLoop once maxTries (i + 1) (ok, methods) c1
              | _ \<Rightarrow> Some (r, c1)))
      else Some (Ok prev, c))"

primrec auth :: "keyPrims \<Rightarrow> bytes \<Rightarrow> string \<Rightarrow> authMethod \<Rightarrow> nat \<Rightarrow> (bool \<times> string list option) act" where
  "auth E session user NoneAuth n = none_auth user"
| "auth E session user (PasswordAuth cb) n = password_auth (cb n) user"
| "auth E session user (PublicKeyAuth cb) n = publickey_auth E (cb n) session user"
| "auth E session user (KeyboardAuth cb) n = keyboard_auth (cb n) user"
| "auth E session user (RetryableAuth m maxTries) n = retryLoop (auth E session user m) maxTries 0 (False, None)"

section \<open>Authentication\<close>

definition findNext :: "string list \<Rightarrow> string list \<Rightarrow> authMethod list \<Rightarrow> authMethod option" where
  "findNext tried methods auths = List.find (\<lambda>a. methodName a \<notin> set tried \<and> methodName a \<in> set methods) auths"

lemma findNext_Some: "findNext tried methods auths = Some a \<Longrightarrow> a \<in> set auths \<and> methodName a \<notin> set tried"
  unfolding findNext_def by (metis find_Some_iff nth_mem)

text \<open>The methods tried are in reverse order; the error lists them.\<close>

definition untried :: "authMethod list \<Rightarrow> string list \<Rightarrow> string set" where
  "untried auths tried = methodName ` set auths - set tried"

lemma untried_less:
  assumes "findNext (methodName a # tried) methods auths = Some a1"
  shows "card (untried auths (methodName a1 # methodName a # tried)) < card (untried auths (methodName a # tried))"
proof -
  have "methodName a1 \<in> untried auths (methodName a # tried)" using findNext_Some [OF assms] by (auto simp: untried_def)
  moreover have "untried auths (methodName a1 # methodName a # tried) = untried auths (methodName a # tried) - {methodName a1}"
    by (auto simp: untried_def)
  moreover have "finite (untried auths (methodName a # tried))" by (simp add: untried_def)
  ultimately show ?thesis by (simp only: card_Diff1_less)
qed

function authLoop ::
    "keyPrims \<Rightarrow> bytes \<Rightarrow> string \<Rightarrow> authMethod list \<Rightarrow> authMethod \<Rightarrow> string list \<Rightarrow> string list option \<Rightarrow> unit act" where
  "authLoop E session user auths a tried lastMethods c =
     (case auth E session user a 0 c of
        None \<Rightarrow> None
      | Some (Err e, c1) \<Rightarrow> Some (Err e, c1)
      | Some (Panic s, c1) \<Rightarrow> Some (Panic s, c1)
      | Some (Ok (True, _), c1) \<Rightarrow> Some (Ok (), c1)
      | Some (Ok (False, methods0), c1) \<Rightarrow>
          let tried1 = methodName a # tried;
              methods = (if methods0 = None then lastMethods else methods0) in
          (case findNext tried1 (nilSlice methods) auths of
             Some a1 \<Rightarrow> authLoop E session user auths a1 tried1 methods c1
           | None \<Rightarrow>
               Some (Err (Errorf ''ssh: unable to authenticate, attempted methods %v, no supported methods remain'' [] tried1), c1)))"
  by pat_completeness auto
termination
  by (relation "measure (\<lambda>(_, _, _, auths, a, tried, _, _). card (untried auths (methodName a # tried)))") (auto dest: untried_less)

declare authLoop.simps [simp del]

definition clientAuthenticate :: "keyPrims \<Rightarrow> bytes \<Rightarrow> string \<Rightarrow> authMethod list \<Rightarrow> unit act" where
  "clientAuthenticate E sessionID user auths =
     act_bind (writeRes (MarshalMsg (ServiceRequestMsg serviceUserAuth))) (\<lambda>_.
     act_bind pc_readPacket (\<lambda>packet.
     act_bind (act_res (UnmarshalMsg T_serviceAcceptMsg packet)) (\<lambda>_.
       authLoop E sessionID user auths NoneAuth [] None)))"

end
