(* ===== verification/ServerAuth.thy ===== *)
theory ServerAuth
  imports ClientAuth
begin

text \<open>
  User authentication, the side of the server (\<open>src/server.go\<close>): the cache of public keys, the restriction to
  source addresses, the keyboard-interactive challenge and the loop over the requests. Parsing of IP addresses
  is a parameter. A callback gets the number of the request, since it may answer differently each time, and
  the user; a keyboard-interactive callback is the tree of the challenges it issues. \<open>AuthLogCallback\<close> says whether
  there is one, and its calls are the log of the state. The check of source addresses is an argument of the loop, for
  \<open>checkSourceAddress\<close> at the remote address of the connection.
\<close>

section \<open>Configuration\<close>

datatype kbd =
    KbdDone "Permissions option res"
  | KbdChallenge string string "string list" "bool list" "string list res \<Rightarrow> kbd"

record ServerConfig =
  hostKeys :: "sshSigner list"
  NoClientAuth :: bool
  MaxAuthTries :: int
  PasswordCallback :: "(nat \<Rightarrow> string \<Rightarrow> bytes \<Rightarrow> Permissions option res) option"
  PublicKeyCallback :: "(nat \<Rightarrow> string \<Rightarrow> publicKey \<Rightarrow> Permissions option res) option"
  KeyboardInteractiveCallback :: "(nat \<Rightarrow> string \<Rightarrow> kbd) option"
  AuthLogCallback :: bool

text \<open>The first host key of the same type is replaced. Naming a key may panic.\<close>

primrec addHostKeyLoop :: "string \<Rightarrow> sshSigner \<Rightarrow> sshSigner list \<Rightarrow> sshSigner list res" where
  "addHostKeyLoop t key [] = Ok [key]"
| "addHostKeyLoop t key (k # ks) =
     res_bind (pk_Type (ss_pub k)) (\<lambda>t'.
       if t' = t then Ok (key # ks) else res_bind (addHostKeyLoop t key ks) (\<lambda>ks'. Ok (k # ks')))"

definition AddHostKey :: "sshSigner \<Rightarrow> ServerConfig \<Rightarrow> ServerConfig res" where
  "AddHostKey key s =
     (if hostKeys s = [] then Ok (s\<lparr>hostKeys := [key]\<rparr>)
      else
        res_bind (pk_Type (ss_pub key)) (\<lambda>t.
        res_bind (addHostKeyLoop t key (hostKeys s)) (\<lambda>ks. Ok (s\<lparr>hostKeys := ks\<rparr>))))"

definition authDefaults :: "ServerConfig \<Rightarrow> ServerConfig" where
  "authDefaults c = (if MaxAuthTries c = 0 then c\<lparr>MaxAuthTries := 6\<rparr> else c)"

section \<open>The cache\<close>

record cachedPubKey =
  ck_user :: string
  ck_pubKeyData :: bytes
  ck_result :: "gerror option"
  ck_perms :: "Permissions option"

abbreviation (input) maxCachedPubKeys :: nat where "maxCachedPubKeys \<equiv> 16"

definition cache_get :: "cachedPubKey list \<Rightarrow> string \<Rightarrow> bytes \<Rightarrow> cachedPubKey option" where
  "cache_get keys user pubKeyData = List.find (\<lambda>k. ck_user k = user \<and> ck_pubKeyData k = pubKeyData) keys"

definition cache_add :: "cachedPubKey list \<Rightarrow> cachedPubKey \<Rightarrow> cachedPubKey list" where
  "cache_add keys candidate = (if length keys < maxCachedPubKeys then keys @ [candidate] else keys)"

section \<open>Checks\<close>

definition isAcceptableAlgo :: "string \<Rightarrow> bool" where
  "isAcceptableAlgo algo \<longleftrightarrow>
     algo \<in> {KeyAlgoRSA, KeyAlgoDSA, KeyAlgoECDSA256, KeyAlgoECDSA384, KeyAlgoECDSA521, KeyAlgoED25519,
       CertAlgoRSAv01, CertAlgoDSAv01, CertAlgoECDSA256v01, CertAlgoECDSA384v01, CertAlgoECDSA521v01}"

text \<open>
  \<open>ParseIP\<close> gives the address, \<open>ParseCIDR\<close> the set of the addresses of the network. A remote address that
  is not a TCP address is its string.
\<close>

record 'ip netPrims =
  np_ParseIP :: "string \<Rightarrow> 'ip option"
  np_Equal :: "'ip \<Rightarrow> 'ip \<Rightarrow> bool"
  np_ParseCIDR :: "string \<Rightarrow> ('ip \<Rightarrow> bool) res"

datatype 'ip netAddr = TCPAddr 'ip | OtherAddr string

primrec sourceLoop :: "'ip netPrims \<Rightarrow> 'ip \<Rightarrow> string list \<Rightarrow> unit res" where
  "sourceLoop P ip [] = Err (ErrNew ''ssh: remote address is not allowed because of source-address restriction'')"
| "sourceLoop P ip (s # ss) =
     (case np_ParseIP P s of
        Some allowedIP \<Rightarrow> if np_Equal P allowedIP ip then Ok () else sourceLoop P ip ss
      | None \<Rightarrow>
          (case np_ParseCIDR P s of
             Err _ \<Rightarrow> Err (Errorf ''ssh: error parsing source-address restriction %q: %v'' [] [s])
           | Panic x \<Rightarrow> Panic x
           | Ok contains \<Rightarrow> if contains ip then Ok () else sourceLoop P ip ss))"

definition checkSourceAddress :: "'ip netPrims \<Rightarrow> 'ip netAddr option \<Rightarrow> string \<Rightarrow> unit res" where
  "checkSourceAddress P addr sourceAddrs =
     (case addr of
        None \<Rightarrow> Err (ErrNew ''ssh: no address known for client, but source-address match required'')
      | Some (OtherAddr a) \<Rightarrow> Err (Errorf ''ssh: remote address %v is not an TCP address when checking source-address match'' [] [a])
      | Some (TCPAddr ip) \<Rightarrow> sourceLoop P ip (split_on CHR '','' sourceAddrs))"

text \<open>What the callback says of a key, with the restriction to source addresses; the last argument is the check of them.\<close>

definition sourceAddressOf :: "Permissions option \<Rightarrow> string" where
  "sourceAddressOf perms =
     (case perms of
        None \<Rightarrow> []
      | Some p \<Rightarrow> (case map_of (CriticalOptions p) ''source-address'' of Some v \<Rightarrow> v | None \<Rightarrow> []))"

definition askCallback :: "Permissions option res \<Rightarrow> (string \<Rightarrow> unit res) \<Rightarrow> (gerror option \<times> Permissions option) res" where
  "askCallback r srcCheck =
     (case r of
        Panic x \<Rightarrow> Panic x
      | Err e \<Rightarrow> Ok (Some e, None)
      | Ok perms \<Rightarrow>
          if sourceAddressOf perms = [] then Ok (None, perms)
          else
            (case srcCheck (sourceAddressOf perms) of
               Ok _ \<Rightarrow> Ok (None, perms)
             | Err e \<Rightarrow> Ok (Some e, perms)
             | Panic x \<Rightarrow> Panic x))"

definition candidateFor ::
    "(publicKey \<Rightarrow> Permissions option res) \<Rightarrow> (string \<Rightarrow> unit res) \<Rightarrow> string \<Rightarrow> bytes \<Rightarrow> publicKey \<Rightarrow> cachedPubKey list \<Rightarrow>
       (cachedPubKey \<times> cachedPubKey list) res" where
  "candidateFor cb srcCheck user pubKeyData pubKey cache =
     (case cache_get cache user pubKeyData of
        Some k \<Rightarrow> Ok (k, cache)
      | None \<Rightarrow>
          res_bind (askCallback (cb pubKey) srcCheck) (\<lambda>(result, perms).
            let candidate = \<lparr>ck_user = user, ck_pubKeyData = pubKeyData, ck_result = result, ck_perms = perms\<rparr> in
            Ok (candidate, cache_add cache candidate)))"

section \<open>Challenges\<close>

primrec promptBytes :: "(string \<times> bool) list \<Rightarrow> bytes \<Rightarrow> bytes" where
  "promptBytes [] prompts = prompts"
| "promptBytes (q # qs) prompts = promptBytes qs (appendBool (appendString prompts (fst q)) (snd q))"

primrec parseAnswers :: "nat \<Rightarrow> bytes \<Rightarrow> (string list \<times> bytes) res" where
  "parseAnswers 0 packet = Ok ([], packet)"
| "parseAnswers (Suc n) packet =
     (case parseString packet of
        None \<Rightarrow> Err (parseError msgUserAuthInfoResponse)
      | Some (ans, rest) \<Rightarrow> res_bind (parseAnswers n rest) (\<lambda>(as, r). Ok (string_of_bytes ans # as, r)))"

definition infoAnswers :: "nat \<Rightarrow> bytes \<Rightarrow> string list res" where
  "infoAnswers questions packet =
     (case packet of
        [] \<Rightarrow> indexPanic
      | b # packet1 \<Rightarrow>
          if b \<noteq> msgUserAuthInfoResponse then Err (unexpectedMessageError msgUserAuthInfoResponse b)
          else
            (case parseUint32 packet1 of
               None \<Rightarrow> Err (parseError msgUserAuthInfoResponse)
             | Some (n, packet2) \<Rightarrow>
                 if unat n \<noteq> questions then Err (parseError msgUserAuthInfoResponse)
                 else
                   res_bind (parseAnswers (unat n) packet2) (\<lambda>(answers, rest).
                     if rest \<noteq> [] then Err (ErrNew ''ssh: junk at end of message'') else Ok answers)))"

definition Challenge :: "string \<Rightarrow> string \<Rightarrow> string list \<Rightarrow> bool list \<Rightarrow> string list act" where
  "Challenge user instruction questions echos =
     (if length questions \<noteq> length echos then act_res (Err (ErrNew ''ssh: echos and questions must have equal length''))
      else
        act_bind (writeRes (MarshalMsg (UserAuthInfoRequestMsg [] instruction [] (word_of_nat (length questions))
            (promptBytes (zip questions echos) [])))) (\<lambda>_.
        act_bind pc_readPacket (\<lambda>packet. act_res (infoAnswers (length questions) packet))))"

primrec runKbd :: "kbd \<Rightarrow> packetConn \<Rightarrow> (Permissions option res \<times> packetConn) option" where
  "runKbd (KbdDone r) c = Some (r, c)"
| "runKbd (KbdChallenge user instruction questions echos k) c =
     (case Challenge user instruction questions echos c of
        None \<Rightarrow> None
      | Some (Panic x, c1) \<Rightarrow> Some (Panic x, c1)
      | Some (Ok a, c1) \<Rightarrow> runKbd (k (Ok a)) c1
      | Some (Err e, c1) \<Rightarrow> runKbd (k (Err e)) c1)"

section \<open>The loop\<close>

record authState =
  sa_conn :: packetConn
  sa_user :: string
  sa_cache :: "cachedPubKey list"
  authFailures :: int
  authErrs :: "gerror option list"
  sa_log :: "(string \<times> gerror option) list"

text \<open>What the switch over the methods does: it leaves an error or nil, goes on with the next request, or returns.\<close>

datatype methodResult =
    MAuth "gerror option" "Permissions option"
  | MContinue
  | MReturn gerror
  | MPanic string

definition authOf :: "Permissions option res \<Rightarrow> methodResult" where
  "authOf r = (case r of Ok p \<Rightarrow> MAuth None p | Err e \<Rightarrow> MAuth (Some e) None | Panic x \<Rightarrow> MPanic x)"

definition noneMethod :: "ServerConfig \<Rightarrow> authState \<Rightarrow> methodResult \<times> authState" where
  "noneMethod config st =
     (MAuth (if NoClientAuth config then None else Some (ErrNew ''no auth passed yet'')) None,
      if authFailures st = 0 then st\<lparr>authFailures := authFailures st - 1\<rparr> else st)"

definition passwordOf :: "bytes \<Rightarrow> bytes option" where
  "passwordOf payload =
     (case payload of
        b # payload1 \<Rightarrow>
          if b \<noteq> 0 then None
          else (case parseString payload1 of Some (password, []) \<Rightarrow> Some password | _ \<Rightarrow> None)
      | [] \<Rightarrow> None)"

definition passwordMethod :: "ServerConfig \<Rightarrow> nat \<Rightarrow> bytes \<Rightarrow> authState \<Rightarrow> methodResult" where
  "passwordMethod config n payload st =
     (case PasswordCallback config of
        None \<Rightarrow> MAuth (Some (ErrNew ''ssh: password auth not configured'')) None
      | Some cb \<Rightarrow>
          (case passwordOf payload of
             None \<Rightarrow> MReturn (parseError msgUserAuthRequest)
           | Some password \<Rightarrow> authOf (cb n (sa_user st) password)))"

definition keyboardMethod :: "ServerConfig \<Rightarrow> nat \<Rightarrow> authState \<Rightarrow> (methodResult \<times> authState) option" where
  "keyboardMethod config n st =
     (case KeyboardInteractiveCallback config of
        None \<Rightarrow> Some (MAuth (Some (ErrNew ''ssh: keyboard-interactive auth not configubred'')) None, st)
      | Some cb \<Rightarrow>
          (case runKbd (cb n (sa_user st)) (sa_conn st) of
             None \<Rightarrow> None
           | Some (r, c) \<Rightarrow> Some (authOf r, st\<lparr>sa_conn := c\<rparr>)))"

definition queryReply :: "string \<Rightarrow> bytes \<Rightarrow> cachedPubKey \<Rightarrow> bytes \<Rightarrow> authState \<Rightarrow> (methodResult \<times> authState) option" where
  "queryReply algo pubKeyData candidate payload st =
     (if payload \<noteq> [] then Some (MReturn (parseError msgUserAuthRequest), st)
      else
        (case ck_result candidate of
           Some e \<Rightarrow> Some (MAuth (Some e) None, st)
         | None \<Rightarrow>
             (case writeRes (MarshalMsg (UserAuthPubKeyOkMsg algo pubKeyData)) (sa_conn st) of
                None \<Rightarrow> None
              | Some (Ok _, c) \<Rightarrow> Some (MContinue, st\<lparr>sa_conn := c\<rparr>)
              | Some (Err e, c) \<Rightarrow> Some (MReturn e, st\<lparr>sa_conn := c\<rparr>)
              | Some (Panic x, c) \<Rightarrow> Some (MPanic x, st\<lparr>sa_conn := c\<rparr>))))"

definition signedReply ::
    "keyPrims \<Rightarrow> bytes \<Rightarrow> string \<Rightarrow> bytes \<Rightarrow> bytes \<Rightarrow> publicKey \<Rightarrow> cachedPubKey \<Rightarrow> bytes \<Rightarrow> methodResult" where
  "signedReply E sessionID user algoBytes pubKeyData pubKey candidate payload =
     (case parseSignature payload of
        Some (sig, []) \<Rightarrow>
          if \<not> isAcceptableAlgo (sig_Format sig) then MAuth (Some (ErrNew ''no auth passed yet'')) None
          else
            (case buildDataSignedForAuth sessionID user serviceSSH ''publickey'' algoBytes pubKeyData of
               Err e \<Rightarrow> MReturn e
             | Panic x \<Rightarrow> MPanic x
             | Ok signedData \<Rightarrow>
                 (case pk_Verify E pubKey signedData sig of
                    Err e \<Rightarrow> MReturn e
                  | Panic x \<Rightarrow> MPanic x
                  | Ok _ \<Rightarrow> MAuth (ck_result candidate) (ck_perms candidate)))
      | _ \<Rightarrow> MReturn (parseError msgUserAuthRequest))"

definition publickeyMethod ::
    "keyPrims \<Rightarrow> (string \<Rightarrow> unit res) \<Rightarrow> bytes \<Rightarrow> ServerConfig \<Rightarrow> nat \<Rightarrow> bytes \<Rightarrow> authState \<Rightarrow> (methodResult \<times> authState) option" where
  "publickeyMethod E srcCheck sessionID config n payload st =
     (case PublicKeyCallback config of
        None \<Rightarrow> Some (MAuth (Some (ErrNew ''ssh: publickey auth not configured'')) None, st)
      | Some cb \<Rightarrow>
          (case payload of
             [] \<Rightarrow> Some (MReturn (parseError msgUserAuthRequest), st)
           | q # payload1 \<Rightarrow>
               (case parseString payload1 of
                  None \<Rightarrow> Some (MReturn (parseError msgUserAuthRequest), st)
                | Some (algoBytes, payload2) \<Rightarrow>
                    if \<not> isAcceptableAlgo (string_of_bytes algoBytes)
                    then Some (MAuth (Some (Errorf ''ssh: algorithm %q not accepted'' [] [string_of_bytes algoBytes])) None, st)
                    else
                      (case parseString payload2 of
                         None \<Rightarrow> Some (MReturn (parseError msgUserAuthRequest), st)
                       | Some (pubKeyData, payload3) \<Rightarrow>
                           (case ParsePublicKey E pubKeyData of
                              Err e \<Rightarrow> Some (MReturn e, st)
                            | Panic x \<Rightarrow> Some (MPanic x, st)
                            | Ok pubKey \<Rightarrow>
                                (case candidateFor (cb n (sa_user st)) srcCheck (sa_user st) pubKeyData pubKey (sa_cache st) of
                                   Err e \<Rightarrow> Some (MReturn e, st)
                                 | Panic x \<Rightarrow> Some (MPanic x, st)
                                 | Ok (candidate, cache1) \<Rightarrow>
                                     let st1 = st\<lparr>sa_cache := cache1\<rparr> in
                                     if q = 0 then queryReply (string_of_bytes algoBytes) pubKeyData candidate payload3 st1
                                     else
                                       Some (signedReply E sessionID (sa_user st) algoBytes pubKeyData pubKey candidate payload3,
                                         st1)))))))"

definition methodSwitch ::
    "keyPrims \<Rightarrow> (string \<Rightarrow> unit res) \<Rightarrow> bytes \<Rightarrow> ServerConfig \<Rightarrow> nat \<Rightarrow> string \<Rightarrow> bytes \<Rightarrow> authState \<Rightarrow>
       (methodResult \<times> authState) option" where
  "methodSwitch E srcCheck sessionID config n meth payload st =
     (if meth = ''none'' then Some (noneMethod config st)
      else if meth = ''password'' then Some (passwordMethod config n payload st, st)
      else if meth = ''keyboard-interactive'' then keyboardMethod config n st
      else if meth = ''publickey'' then publickeyMethod E srcCheck sessionID config n payload st
      else Some (MAuth (Some (Errorf ''ssh: unknown method %q'' [] [meth])) None, st))"

definition failureMethodsOf :: "ServerConfig \<Rightarrow> string list" where
  "failureMethodsOf config =
     (if PasswordCallback config \<noteq> None then [''password''] else []) @
     (if PublicKeyCallback config \<noteq> None then [''publickey''] else []) @
     (if KeyboardInteractiveCallback config \<noteq> None then [''keyboard-interactive''] else [])"

datatype authResult =
    AuthOk "Permissions option"
  | AuthErr gerror
  | ServerAuthError "gerror option list"
  | AuthPanic string

text \<open>One pass of the loop: it ends with a result, or with the state for the next pass.\<close>

type_synonym loopResult = "authResult option \<times> authState"

definition writeOr :: "bytes res \<Rightarrow> authResult option \<Rightarrow> authState \<Rightarrow> loopResult option" where
  "writeOr p r st =
     (case writeRes p (sa_conn st) of
        None \<Rightarrow> None
      | Some (Ok _, c) \<Rightarrow> Some (r, st\<lparr>sa_conn := c\<rparr>)
      | Some (Err e, c) \<Rightarrow> Some (Some (AuthErr e), st\<lparr>sa_conn := c\<rparr>)
      | Some (Panic x, c) \<Rightarrow> Some (Some (AuthPanic x), st\<lparr>sa_conn := c\<rparr>))"

definition endOfPass :: "ServerConfig \<Rightarrow> string \<Rightarrow> gerror option \<Rightarrow> Permissions option \<Rightarrow> authState \<Rightarrow> loopResult option" where
  "endOfPass config meth authErr perms st =
     (let st1 = st\<lparr>authErrs := authErrs st @ [authErr],
                   sa_log := (if AuthLogCallback config then sa_log st @ [(meth, authErr)] else sa_log st)\<rparr> in
      case authErr of
        None \<Rightarrow> writeOr (Ok [msgUserAuthSuccess]) (Some (AuthOk perms)) st1
      | Some _ \<Rightarrow>
          let st2 = st1\<lparr>authFailures := authFailures st1 + 1\<rparr> in
          if failureMethodsOf config = []
          then Some (Some (AuthErr (ErrNew ''ssh: no authentication methods configured but NoClientAuth is also false'')), st2)
          else writeOr (MarshalMsg (UserAuthFailureMsg (failureMethodsOf config) False)) None st2)"

definition handleRequest ::
    "keyPrims \<Rightarrow> (string \<Rightarrow> unit res) \<Rightarrow> bytes \<Rightarrow> ServerConfig \<Rightarrow> nat \<Rightarrow> string \<Rightarrow> string \<Rightarrow> string \<Rightarrow> bytes \<Rightarrow> authState \<Rightarrow> loopResult option" where
  "handleRequest E srcCheck sessionID config n user service meth payload st =
     (if service \<noteq> serviceSSH
      then Some (Some (AuthErr (ErrNew (''ssh: client attempted to negotiate for unknown service: '' @ service))), st)
      else
        (case methodSwitch E srcCheck sessionID config n meth payload (st\<lparr>sa_user := user\<rparr>) of
           None \<Rightarrow> None
         | Some (MAuth authErr perms, st1) \<Rightarrow> endOfPass config meth authErr perms st1
         | Some (MContinue, st1) \<Rightarrow> Some (None, st1)
         | Some (MReturn e, st1) \<Rightarrow> Some (Some (AuthErr e), st1)
         | Some (MPanic x, st1) \<Rightarrow> Some (Some (AuthPanic x), st1)))"

abbreviation (input) tooManyFailures :: message where
  "tooManyFailures \<equiv> DisconnectMsg 2 ''too many authentication failures'' []"

definition authPass ::
    "keyPrims \<Rightarrow> (string \<Rightarrow> unit res) \<Rightarrow> bytes \<Rightarrow> ServerConfig \<Rightarrow> nat \<Rightarrow> authState \<Rightarrow> loopResult option" where
  "authPass E srcCheck sessionID config n st =
     (if authFailures st \<ge> MaxAuthTries config \<and> MaxAuthTries config > 0
      then writeOr (MarshalMsg tooManyFailures) (Some (AuthErr (DisconnectErr 2 ''too many authentication failures'' []))) st
      else
        (case pc_readPacket (sa_conn st) of
           None \<Rightarrow> None
         | Some (Err e, c) \<Rightarrow>
             Some (Some (if e = IoEOF then ServerAuthError (authErrs st) else AuthErr e), st\<lparr>sa_conn := c\<rparr>)
         | Some (Panic x, c) \<Rightarrow> Some (Some (AuthPanic x), st\<lparr>sa_conn := c\<rparr>)
         | Some (Ok packet, c) \<Rightarrow>
             (case UnmarshalMsg T_userAuthRequestMsg packet of
                Ok (UserAuthRequestMsg user service meth payload) \<Rightarrow>
                  handleRequest E srcCheck sessionID config n user service meth payload (st\<lparr>sa_conn := c\<rparr>)
              | Ok _ \<Rightarrow> Some (Some (AuthPanic ''reflect: call on a value of the wrong kind''), st\<lparr>sa_conn := c\<rparr>)
              | Err e \<Rightarrow> Some (Some (AuthErr e), st\<lparr>sa_conn := c\<rparr>)
              | Panic x \<Rightarrow> Some (Some (AuthPanic x), st\<lparr>sa_conn := c\<rparr>))))"

text \<open>No step adds to what is still to be read.\<close>

definition shrinks :: "'a act \<Rightarrow> bool" where
  "shrinks m \<longleftrightarrow> (\<forall>c r c1. m c = Some (r, c1) \<longrightarrow> length (pc_in c1) \<le> length (pc_in c))"

lemma shrinks_bind: "shrinks m \<Longrightarrow> (\<And>x. shrinks (f x)) \<Longrightarrow> shrinks (act_bind m f)"
  unfolding shrinks_def act_bind_def by (fastforce split: option.splits res.splits prod.splits)

lemma shrinks_basic: "shrinks (act_res r)" "shrinks (writeRes p)" "shrinks pc_readPacket"
  by (auto simp: shrinks_def act_res_def dest: writeRes_in pc_readPacket_less)

lemma shrinks_Challenge: "shrinks (Challenge user instruction questions echos)"
  unfolding Challenge_def by (auto intro!: shrinks_bind shrinks_basic)

lemma shrinks_runKbd: "runKbd k c = Some (r, c1) \<Longrightarrow> length (pc_in c1) \<le> length (pc_in c)"
proof (induction k arbitrary: c)
  case (KbdChallenge user instruction questions echos k)
  then obtain r2 c2 where c2: "Challenge user instruction questions echos c = Some (r2, c2)"
    by (auto split: option.splits)
  then have l: "length (pc_in c2) \<le> length (pc_in c)" using shrinks_Challenge by (auto simp: shrinks_def)
  show ?case
  proof (cases r2)
    case (Ok a)
    then have "length (pc_in c1) \<le> length (pc_in c2)" using KbdChallenge c2 by auto
    then show ?thesis using l by simp
  next
    case (Err e)
    then have "length (pc_in c1) \<le> length (pc_in c2)" using KbdChallenge c2 by auto
    then show ?thesis using l by simp
  qed (use KbdChallenge.prems c2 l in auto)
qed simp

lemma queryReply_in: "queryReply algo d cand payload st = Some (r, st1) \<Longrightarrow> pc_in (sa_conn st1) = pc_in (sa_conn st)"
  by (auto simp: queryReply_def split: if_splits option.splits prod.splits res.splits dest: writeRes_in)

lemma publickeyMethod_in:
  "publickeyMethod E srcCheck sid config n payload st = Some (r, st1) \<Longrightarrow> pc_in (sa_conn st1) = pc_in (sa_conn st)"
  by (auto simp: publickeyMethod_def Let_def split: option.splits list.splits if_splits prod.splits res.splits dest: queryReply_in)

lemma methodSwitch_in:
  assumes "methodSwitch E srcCheck sid config n meth payload st = Some (r, st1)"
  shows "length (pc_in (sa_conn st1)) \<le> length (pc_in (sa_conn st))"
  using assms
  by (auto simp: methodSwitch_def noneMethod_def keyboardMethod_def split: if_splits option.splits dest: shrinks_runKbd publickeyMethod_in)

lemma writeOr_in: "writeOr p r st = Some (r1, st1) \<Longrightarrow> pc_in (sa_conn st1) = pc_in (sa_conn st)"
  by (auto simp: writeOr_def split: option.splits prod.splits res.splits dest: writeRes_in)

lemma endOfPass_in: "endOfPass config meth e p st = Some (r, st1) \<Longrightarrow> pc_in (sa_conn st1) = pc_in (sa_conn st)"
  by (auto simp: endOfPass_def Let_def split: option.splits if_splits dest: writeOr_in)

lemma handleRequest_in:
  assumes "handleRequest E srcCheck sid config n user service meth payload st = Some (r, st1)"
  shows "length (pc_in (sa_conn st1)) \<le> length (pc_in (sa_conn st))"
proof (cases "service = serviceSSH")
  case True
  then obtain m st2 where m: "methodSwitch E srcCheck sid config n meth payload (st\<lparr>sa_user := user\<rparr>) = Some (m, st2)"
    using assms by (auto simp: handleRequest_def split: option.splits)
  have "length (pc_in (sa_conn st2)) \<le> length (pc_in (sa_conn st))" using methodSwitch_in [OF m] by simp
  moreover have "pc_in (sa_conn st1) = pc_in (sa_conn st2)"
    using assms True m by (auto simp: handleRequest_def split: methodResult.splits dest: endOfPass_in)
  ultimately show ?thesis by simp
qed (use assms in \<open>simp add: handleRequest_def\<close>)

lemma authPass_less:
  assumes "authPass E srcCheck sid config n st = Some (None, st1)"
  shows "length (pc_in (sa_conn st1)) < length (pc_in (sa_conn st))"
proof -
  have n: "\<not> (authFailures st \<ge> MaxAuthTries config \<and> MaxAuthTries config > 0)"
    using assms by (auto simp: authPass_def writeOr_def split: if_splits option.splits prod.splits res.splits)
  obtain r c where r: "pc_readPacket (sa_conn st) = Some (r, c)"
    using assms n by (auto simp: authPass_def split: if_splits option.splits)
  obtain packet where p: "r = Ok packet" using assms n r by (auto simp: authPass_def split: if_splits res.splits)
  obtain user service meth payload where "UnmarshalMsg T_userAuthRequestMsg packet = Ok (UserAuthRequestMsg user service meth payload)"
    using assms n r p by (auto simp: authPass_def split: if_splits res.splits message.splits)
  then have "handleRequest E srcCheck sid config n user service meth payload (st\<lparr>sa_conn := c\<rparr>) = Some (None, st1)"
    using assms n r p by (auto simp: authPass_def split: if_splits)
  from handleRequest_in [OF this] show ?thesis using pc_readPacket_less [OF r] by simp
qed

function authPasses ::
    "keyPrims \<Rightarrow> (string \<Rightarrow> unit res) \<Rightarrow> bytes \<Rightarrow> ServerConfig \<Rightarrow> nat \<Rightarrow> authState \<Rightarrow> (authResult \<times> authState) option" where
  "authPasses E srcCheck sessionID config n st =
     (case authPass E srcCheck sessionID config n st of
        None \<Rightarrow> None
      | Some (Some r, st1) \<Rightarrow> Some (r, st1)
      | Some (None, st1) \<Rightarrow> authPasses E srcCheck sessionID config (n + 1) st1)"
  by pat_completeness auto
termination
  by (relation "measure (\<lambda>(_, _, _, _, _, st). length (pc_in (sa_conn st)))") (auto dest: authPass_less)

declare authPasses.simps [simp del]

definition serverAuthenticate ::
    "keyPrims \<Rightarrow> (string \<Rightarrow> unit res) \<Rightarrow> bytes \<Rightarrow> ServerConfig \<Rightarrow> packetConn \<Rightarrow> (authResult \<times> authState) option" where
  "serverAuthenticate E srcCheck sessionID config c =
     authPasses E srcCheck sessionID config 0
       \<lparr>sa_conn = c, sa_user = [], sa_cache = [], authFailures = 0, authErrs = [], sa_log = []\<rparr>"

section \<open>The handshake\<close>

text \<open>The checks of the configuration, and the part of the handshake behind the key exchange.\<close>

definition serverPrecheck :: "ServerConfig \<Rightarrow> unit res" where
  "serverPrecheck config =
     (if hostKeys config = [] then Err (ErrNew ''ssh: server has no host keys'')
      else if \<not> NoClientAuth config \<and> PasswordCallback config = None \<and> PublicKeyCallback config = None \<and>
        KeyboardInteractiveCallback config = None
      then Err (ErrNew ''ssh: no authentication methods configured but NoClientAuth is also false'')
      else Ok ())"

definition acceptService :: "unit act" where
  "acceptService =
     act_bind pc_readPacket (\<lambda>packet.
     act_bind (act_res (UnmarshalMsg T_serviceRequestMsg packet)) (\<lambda>m.
       case m of
         ServiceRequestMsg service \<Rightarrow>
           if service \<noteq> serviceUserAuth
           then act_res (Err (ErrNew (''ssh: requested service '' @ [CHR 0x27] @ service @ [CHR 0x27] @ '' before authenticating'')))
           else writeRes (MarshalMsg (ServiceAcceptMsg serviceUserAuth))
       | _ \<Rightarrow> act_res (Panic ''reflect: call on a value of the wrong kind'')))"

definition serverHandshake ::
    "keyPrims \<Rightarrow> (string \<Rightarrow> unit res) \<Rightarrow> bytes \<Rightarrow> ServerConfig \<Rightarrow> packetConn \<Rightarrow> (authResult \<times> packetConn) option" where
  "serverHandshake E srcCheck sessionID config c =
     (case serverPrecheck config of
        Err e \<Rightarrow> Some (AuthErr e, c)
      | Panic x \<Rightarrow> Some (AuthPanic x, c)
      | Ok _ \<Rightarrow>
          (case acceptService c of
             None \<Rightarrow> None
           | Some (Err e, c1) \<Rightarrow> Some (AuthErr e, c1)
           | Some (Panic x, c1) \<Rightarrow> Some (AuthPanic x, c1)
           | Some (Ok _, c1) \<Rightarrow>
               map_option (\<lambda>(r, st). (r, sa_conn st)) (serverAuthenticate E srcCheck sessionID config c1)))"

end
