(* ===== verification/AuthSafety.thy ===== *)
theory AuthSafety
  imports ServerAuth
begin

text \<open>
  What authentication guarantees (\<open>src/server.go\<close>, \<open>src/client_auth.go\<close>): whom the server lets in, how often a
  client may fail, and that the two sides together reach the result their configuration calls for.
\<close>

section \<open>The cache of public keys\<close>

text \<open>Every entry is what the callback once said of the key.\<close>

definition entry_ok ::
    "keyPrims \<Rightarrow> (string \<Rightarrow> unit res) \<Rightarrow> (nat \<Rightarrow> string \<Rightarrow> publicKey \<Rightarrow> Permissions option res) \<Rightarrow> cachedPubKey \<Rightarrow> bool" where
  "entry_ok E srcCheck cb k \<longleftrightarrow>
     (\<exists>n key. ParsePublicKey E (ck_pubKeyData k) = Ok key \<and>
        askCallback (cb n (ck_user k) key) srcCheck = Ok (ck_result k, ck_perms k))"

definition cache_ok :: "keyPrims \<Rightarrow> (string \<Rightarrow> unit res) \<Rightarrow> ServerConfig \<Rightarrow> authState \<Rightarrow> bool" where
  "cache_ok E srcCheck config st \<longleftrightarrow>
     (\<forall>cb. PublicKeyCallback config = Some cb \<longrightarrow> (\<forall>k \<in> set (sa_cache st). entry_ok E srcCheck cb k))"

lemma candidateFor_ok:
  assumes "\<forall>k \<in> set cache. entry_ok E srcCheck cb k" "ParsePublicKey E d = Ok pubKey"
    and "candidateFor (cb n user) srcCheck user d pubKey cache = Ok (k, cache1)"
  shows "entry_ok E srcCheck cb k \<and> ck_user k = user \<and> ck_pubKeyData k = d \<and> (\<forall>k \<in> set cache1. entry_ok E srcCheck cb k)"
proof (cases "cache_get cache user d")
  case None
  then obtain e p where a: "askCallback (cb n user pubKey) srcCheck = Ok (e, p)"
      "k = \<lparr>ck_user = user, ck_pubKeyData = d, ck_result = e, ck_perms = p\<rparr>" "cache1 = cache_add cache k"
    using assms(3) by (auto simp: candidateFor_def res_simps Let_def)
  then have "entry_ok E srcCheck cb k" using assms(2) by (auto simp: entry_ok_def)
  then show ?thesis using a assms(1) by (auto simp: cache_add_def split: if_splits)
next
  case (Some k')
  then have "k' \<in> set cache" "ck_user k' = user" "ck_pubKeyData k' = d" by (auto simp: cache_get_def find_Some_iff)
  then show ?thesis using assms(1,3) Some by (auto simp: candidateFor_def)
qed

text \<open>What a callback, or a missing need for one, makes acceptable.\<close>

definition pubkey_grant ::
    "keyPrims \<Rightarrow> (string \<Rightarrow> unit res) \<Rightarrow> bytes \<Rightarrow> ServerConfig \<Rightarrow> string \<Rightarrow> Permissions option \<Rightarrow> bool" where
  "pubkey_grant E srcCheck sid config user perms \<longleftrightarrow>
     (\<exists>cb n data key algo sig signed.
        PublicKeyCallback config = Some cb \<and> ParsePublicKey E data = Ok key \<and> cb n user key = Ok perms \<and>
        (sourceAddressOf perms = [] \<or> srcCheck (sourceAddressOf perms) = Ok ()) \<and>
        buildDataSignedForAuth sid user serviceSSH ''publickey'' algo data = Ok signed \<and> pk_Verify E key signed sig = Ok ())"

definition grants ::
    "keyPrims \<Rightarrow> (string \<Rightarrow> unit res) \<Rightarrow> bytes \<Rightarrow> ServerConfig \<Rightarrow> string \<Rightarrow> Permissions option \<Rightarrow> bool" where
  "grants E srcCheck sid config user perms \<longleftrightarrow>
     NoClientAuth config \<and> perms = None \<or>
     (\<exists>cb n pw. PasswordCallback config = Some cb \<and> cb n user pw = Ok perms) \<or>
     (\<exists>cb n c c1. KeyboardInteractiveCallback config = Some cb \<and> runKbd (cb n user) c = Some (Ok perms, c1)) \<or>
     pubkey_grant E srcCheck sid config user perms"

lemma askCallback_grant:
  "askCallback r srcCheck = Ok (None, perms) \<Longrightarrow>
     r = Ok perms \<and> (sourceAddressOf perms = [] \<or> srcCheck (sourceAddressOf perms) = Ok ())"
  by (auto simp: askCallback_def split: res.splits if_splits)

lemma signedReply_grant:
  assumes "signedReply E sid user algo d key k payload = MAuth None perms"
    and "ParsePublicKey E d = Ok key" "entry_ok E srcCheck cb k" "ck_user k = user" "ck_pubKeyData k = d"
    and "PublicKeyCallback config = Some cb"
  shows "pubkey_grant E srcCheck sid config user perms"
proof -
  obtain sig signed where s: "buildDataSignedForAuth sid user serviceSSH ''publickey'' algo d = Ok signed"
      "pk_Verify E key signed sig = Ok ()" "ck_result k = None" "ck_perms k = perms"
    using assms(1) by (auto simp: signedReply_def split: option.splits prod.splits list.splits if_splits res.splits)
  obtain n where "askCallback (cb n user key) srcCheck = Ok (None, perms)"
    using assms(2-5) s(3,4) by (auto simp: entry_ok_def)
  from askCallback_grant [OF this] show ?thesis using assms(2,6) s unfolding pubkey_grant_def by blast
qed

lemma queryReply_facts:
  "queryReply algo d k payload st = Some (r, st1) \<Longrightarrow>
     sa_cache st1 = sa_cache st \<and> sa_user st1 = sa_user st \<and> (\<forall>p. r \<noteq> MAuth None p)"
  by (auto simp: queryReply_def split: if_splits option.splits prod.splits res.splits)

lemma publickeyMethod_facts:
  assumes "publickeyMethod E srcCheck sid config n payload st = Some (r, st1)" "cache_ok E srcCheck config st"
  shows "cache_ok E srcCheck config st1 \<and> sa_user st1 = sa_user st \<and>
    (\<forall>perms. r = MAuth None perms \<longrightarrow> pubkey_grant E srcCheck sid config (sa_user st) perms)"
proof (cases "PublicKeyCallback config")
  case None
  then show ?thesis using assms by (auto simp: publickeyMethod_def)
next
  case (Some cb)
  consider (early) "st1 = st \<and> (\<forall>p. r \<noteq> MAuth None p)"
    | (late) q algo d payload3 key k cache1 where "ParsePublicKey E d = Ok key"
      "candidateFor (cb n (sa_user st)) srcCheck (sa_user st) d key (sa_cache st) = Ok (k, cache1)"
      "(if q = (0::byte) then queryReply (string_of_bytes algo) d k payload3 (st\<lparr>sa_cache := cache1\<rparr>)
        else Some (signedReply E sid (sa_user st) algo d key k payload3, st\<lparr>sa_cache := cache1\<rparr>)) = Some (r, st1)"
    using assms(1) Some
    by (auto simp: publickeyMethod_def Let_def split: list.splits option.splits if_splits prod.splits res.splits)
  then show ?thesis
  proof cases
    case early
    then show ?thesis using assms(2) by auto
  next
    case late
    have c: "\<forall>k \<in> set (sa_cache st). entry_ok E srcCheck cb k" using assms(2) Some by (simp add: cache_ok_def)
    note k = candidateFor_ok [OF c late(1,2)]
    show ?thesis
    proof (cases "q = 0")
      case True
      then show ?thesis using late(3) k Some queryReply_facts [of _ d k payload3 "st\<lparr>sa_cache := cache1\<rparr>" r st1]
        by (auto simp: cache_ok_def)
    next
      case False
      then show ?thesis
        using late k Some signedReply_grant [of E sid "sa_user st" algo d key k payload3 _ srcCheck cb config] by (auto simp: cache_ok_def)
    qed
  qed
qed

lemma methodSwitch_facts:
  assumes "methodSwitch E srcCheck sid config n meth payload st = Some (r, st1)" "cache_ok E srcCheck config st"
  shows "cache_ok E srcCheck config st1 \<and> sa_user st1 = sa_user st \<and>
    (\<forall>perms. r = MAuth None perms \<longrightarrow> grants E srcCheck sid config (sa_user st) perms)"
proof (cases "meth = ''publickey''")
  case True
  then show ?thesis using assms publickeyMethod_facts [of E srcCheck sid config n payload st r st1]
    by (auto simp: methodSwitch_def grants_def)
next
  case False
  then show ?thesis
    using assms
    by (auto simp: methodSwitch_def noneMethod_def passwordMethod_def keyboardMethod_def authOf_def cache_ok_def grants_def
      split: if_splits option.splits res.splits)
qed

section \<open>The success message\<close>

lemma MarshalMsg_first_byte:
  assumes "msg_ok m"
  shows "\<exists>bs. MarshalMsg m = Ok (hd (tagOf (mtypeOf m)) # bs)"
  using MarshalMsg_ok [OF assms] msgBytes_tag [of m] assms by (auto simp: msg_ok_def)

lemma comma_names: "comma \<notin> set (bytes_of_string ''password'')" "comma \<notin> set (bytes_of_string ''publickey'')"
  "comma \<notin> set (bytes_of_string ''keyboard-interactive'')"
  by (simp_all add: comma_def bytes_of_string_def byte_of_char_def)

lemma failureMethodsOf_ok: "names_ok (failureMethodsOf config)"
  by (auto simp: failureMethodsOf_def names_ok_def comma_names)

lemma auth_messages:
  "\<exists>bs. MarshalMsg (UserAuthFailureMsg (failureMethodsOf config) b) = Ok (51 # bs)"
  "\<exists>bs. MarshalMsg (UserAuthPubKeyOkMsg algo k) = Ok (60 # bs)"
  "\<exists>bs. MarshalMsg (UserAuthInfoRequestMsg u i l n p) = Ok (60 # bs)"
  "\<exists>bs. MarshalMsg (DisconnectMsg r m l) = Ok (1 # bs)"
  using MarshalMsg_first_byte [of "UserAuthFailureMsg (failureMethodsOf config) b"] MarshalMsg_first_byte [of "UserAuthPubKeyOkMsg algo k"]
    MarshalMsg_first_byte [of "UserAuthInfoRequestMsg u i l n p"] MarshalMsg_first_byte [of "DisconnectMsg r m l"]
  by (simp_all add: msg_ok_def failureMethodsOf_ok)

definition quietConn :: "packetConn \<Rightarrow> bool" where
  "quietConn c \<longleftrightarrow> [52] \<notin> set (pc_out c)"

lemma writeRes_cases:
  "writeRes (Ok p) c = Some (r, c1) \<Longrightarrow> pc_out c1 = pc_out c @ [p] \<and> r = Ok () \<or> pc_out c1 = pc_out c \<and> (\<exists>e. r = Err e)"
  by (auto simp: writeRes_def act_bind_def act_res_def pc_writePacket_def split: list.splits option.splits)

lemma writeRes_quiet:
  assumes "writeRes m c = Some (r, c1)" "\<exists>b bs. m = Ok (b # bs) \<and> b \<noteq> 52" "quietConn c"
  shows "quietConn c1"
proof -
  obtain b bs where m: "m = Ok (b # bs)" "b \<noteq> 52" using assms(2) by blast
  show ?thesis using writeRes_cases [OF assms(1) [unfolded m(1)]] m(2) assms(3) by (auto simp: quietConn_def)
qed

lemma readPacket_out: "pc_readPacket c = Some (r, c1) \<Longrightarrow> pc_out c1 = pc_out c"
  by (auto simp: pc_readPacket_def split: list.splits)

lemma Challenge_quiet: "Challenge u i qs es c = Some (r, c1) \<Longrightarrow> quietConn c \<Longrightarrow> quietConn c1"
proof (cases "length qs = length es")
  case True
  let ?m = "MarshalMsg (UserAuthInfoRequestMsg [] i [] (word_of_nat (length qs)) (promptBytes (zip qs es) []))"
  assume a: "Challenge u i qs es c = Some (r, c1)" "quietConn c"
  obtain r2 c2 where w: "writeRes ?m c = Some (r2, c2)" using a(1) True by (auto simp: Challenge_def act_bind_def split: option.splits)
  have "quietConn c2" by (rule writeRes_quiet [OF w _ a(2)]) (use auth_messages(3) in fastforce)
  then show ?thesis
    using a(1) True w readPacket_out [of c2] by (auto simp: Challenge_def act_bind_def act_res_def quietConn_def split: option.splits prod.splits res.splits)
qed (auto simp: Challenge_def act_res_def)

lemma runKbd_quiet: "runKbd k c = Some (r, c1) \<Longrightarrow> quietConn c \<Longrightarrow> quietConn c1"
  by (induction k arbitrary: c) (auto split: option.splits prod.splits res.splits dest: Challenge_quiet)

lemma queryReply_quiet: "queryReply algo d k payload st = Some (r, st1) \<Longrightarrow> quietConn (sa_conn st) \<Longrightarrow> quietConn (sa_conn st1)"
  using auth_messages(2) [of algo d]
  by (auto simp: queryReply_def split: if_splits option.splits prod.splits res.splits dest!: writeRes_quiet)

lemma methodSwitch_quiet:
  assumes "methodSwitch E srcCheck sid config n meth payload st = Some (r, st1)" "quietConn (sa_conn st)"
  shows "quietConn (sa_conn st1)"
  using assms
  by (auto simp: methodSwitch_def noneMethod_def keyboardMethod_def publickeyMethod_def Let_def
    split: if_splits option.splits list.splits prod.splits res.splits dest: runKbd_quiet queryReply_quiet)

text \<open>The end of a pass sends the success message exactly when it ends with success.\<close>

definition successIff :: "authResult option \<Rightarrow> authState \<Rightarrow> bool" where
  "successIff r st \<longleftrightarrow> ([52] \<in> set (pc_out (sa_conn st)) \<longleftrightarrow> (\<exists>perms. r = Some (AuthOk perms)))"

lemma writeOr_other:
  assumes "writeOr m r st = Some (r1, st1)" "\<exists>b bs. m = Ok (b # bs) \<and> b \<noteq> 52" "quietConn (sa_conn st)" "\<forall>p. r \<noteq> Some (AuthOk p)"
  shows "successIff r1 st1"
  using assms
  by (auto simp: writeOr_def successIff_def split: option.splits prod.splits res.splits dest!: writeRes_quiet) (simp_all add: quietConn_def)

lemma writeOr_success:
  assumes "writeOr (Ok [52]) (Some (AuthOk perms)) st = Some (r1, st1)" "quietConn (sa_conn st)"
  shows "successIff r1 st1 \<and> (\<forall>p. r1 = Some (AuthOk p) \<longrightarrow> p = perms)"
proof -
  obtain r c where w: "writeRes (Ok [52]) (sa_conn st) = Some (r, c)" using assms(1) by (auto simp: writeOr_def split: option.splits)
  show ?thesis using writeRes_cases [OF w] w assms by (auto simp: writeOr_def successIff_def quietConn_def)
qed

lemma endOfPass_success:
  assumes "endOfPass config meth e perms st = Some (r, st1)" "quietConn (sa_conn st)"
  shows "successIff r st1 \<and> sa_user st1 = sa_user st \<and> sa_cache st1 = sa_cache st \<and> (\<forall>p. r = Some (AuthOk p) \<longrightarrow> e = None \<and> p = perms)"
proof -
  have w: "writeOr m r0 st0 = Some (r, st1) \<Longrightarrow> sa_user st1 = sa_user st0 \<and> sa_cache st1 = sa_cache st0" for m r0 st0
    by (auto simp: writeOr_def split: option.splits prod.splits res.splits)
  show ?thesis
  proof (cases e)
    case None
    then show ?thesis using assms writeOr_success w by (fastforce simp: endOfPass_def Let_def)
  next
    case (Some x)
    have m: "\<exists>b bs. MarshalMsg (UserAuthFailureMsg (failureMethodsOf config) False) = Ok (b # bs) \<and> b \<noteq> 52"
      using auth_messages(1) by fastforce
    have "\<forall>p. r \<noteq> Some (AuthOk p)"
      using assms(1) Some by (auto simp: endOfPass_def Let_def writeOr_def split: if_splits option.splits prod.splits res.splits)
    then show ?thesis
      using assms Some writeOr_other [OF _ m] w by (fastforce simp: endOfPass_def Let_def successIff_def quietConn_def split: if_splits)
  qed
qed

definition authInv :: "keyPrims \<Rightarrow> (string \<Rightarrow> unit res) \<Rightarrow> ServerConfig \<Rightarrow> authState \<Rightarrow> bool" where
  "authInv E srcCheck config st \<longleftrightarrow> cache_ok E srcCheck config st \<and> quietConn (sa_conn st)"

lemma handleRequest_facts:
  assumes "handleRequest E srcCheck sid config n user service meth payload st = Some (r, st1)" "authInv E srcCheck config st"
  shows "successIff r st1 \<and> cache_ok E srcCheck config st1 \<and> (\<forall>p. r = Some (AuthOk p) \<longrightarrow> grants E srcCheck sid config (sa_user st1) p)"
proof (cases "service = serviceSSH")
  case True
  then obtain m st2 where m: "methodSwitch E srcCheck sid config n meth payload (st\<lparr>sa_user := user\<rparr>) = Some (m, st2)"
    using assms by (auto simp: handleRequest_def split: option.splits)
  have c: "cache_ok E srcCheck config (st\<lparr>sa_user := user\<rparr>)" using assms(2) by (simp add: authInv_def cache_ok_def)
  note f = methodSwitch_facts [OF m c]
  have q: "quietConn (sa_conn st2)" using methodSwitch_quiet [OF m] assms(2) by (simp add: authInv_def)
  show ?thesis
  proof (cases m)
    case (MAuth e p)
    then have "endOfPass config meth e p st2 = Some (r, st1)" using assms(1) True m by (simp add: handleRequest_def)
    from endOfPass_success [OF this q] show ?thesis using f MAuth by (auto simp: cache_ok_def)
  qed (use assms(1) True m f q in \<open>auto simp: handleRequest_def successIff_def quietConn_def\<close>)
qed (use assms in \<open>auto simp: handleRequest_def authInv_def successIff_def quietConn_def\<close>)

lemma authPass_facts:
  assumes "authPass E srcCheck sid config n st = Some (r, st1)" "authInv E srcCheck config st"
  shows "successIff r st1 \<and> cache_ok E srcCheck config st1 \<and> (\<forall>p. r = Some (AuthOk p) \<longrightarrow> grants E srcCheck sid config (sa_user st1) p)"
proof (cases "authFailures st \<ge> MaxAuthTries config \<and> MaxAuthTries config > 0")
  case True
  have m: "\<exists>b bs. MarshalMsg tooManyFailures = Ok (b # bs) \<and> b \<noteq> 52" using auth_messages(4) by fastforce
  have "writeOr (MarshalMsg tooManyFailures) (Some (AuthErr (DisconnectErr 2 ''too many authentication failures'' []))) st = Some (r, st1)"
    using assms(1) True by (simp add: authPass_def)
  then show ?thesis
    using writeOr_other [OF _ m] assms(2) by (auto simp: authInv_def cache_ok_def writeOr_def split: option.splits prod.splits res.splits)
next
  case False
  then obtain p c where p: "pc_readPacket (sa_conn st) = Some (p, c)" using assms(1) by (auto simp: authPass_def split: option.splits if_splits)
  have i: "authInv E srcCheck config (st\<lparr>sa_conn := c\<rparr>)"
    using assms(2) readPacket_out [OF p] by (simp add: authInv_def cache_ok_def quietConn_def)
  have e: "successIff r st1 \<and> cache_ok E srcCheck config st1 \<and> (\<forall>p. r = Some (AuthOk p) \<longrightarrow> grants E srcCheck sid config (sa_user st1) p)"
    if "st1 = st\<lparr>sa_conn := c\<rparr>" "\<forall>p. r \<noteq> Some (AuthOk p)"
    using that i by (simp add: authInv_def successIff_def quietConn_def)
  show ?thesis
  proof (cases p)
    case (Ok packet)
    show ?thesis
    proof (cases "\<exists>user service meth payload. UnmarshalMsg T_userAuthRequestMsg packet = Ok (UserAuthRequestMsg user service meth payload)")
      case True
      then obtain user service meth payload where
        u: "UnmarshalMsg T_userAuthRequestMsg packet = Ok (UserAuthRequestMsg user service meth payload)" by blast
      have "handleRequest E srcCheck sid config n user service meth payload (st\<lparr>sa_conn := c\<rparr>) = Some (r, st1)"
        using assms(1) False p Ok u by (auto simp: authPass_def split: if_splits)
      from handleRequest_facts [OF this i] show ?thesis .
    next
      case no: False
      then show ?thesis
        using assms(1) False p Ok by (intro e) (auto simp: authPass_def split: if_splits res.splits message.splits)
    qed
  qed (use assms(1) False p e in \<open>auto simp: authPass_def split: if_splits\<close>)
qed

lemma authPasses_facts:
  assumes "authPasses E srcCheck sid config n st = Some (r, st1)" "authInv E srcCheck config st"
  shows "successIff (Some r) st1 \<and> (\<forall>p. r = AuthOk p \<longrightarrow> grants E srcCheck sid config (sa_user st1) p)"
  using assms
proof (induction E srcCheck sid config n st rule: authPasses.induct)
  case (1 E srcCheck sid config n st)
  obtain r2 st2 where p: "authPass E srcCheck sid config n st = Some (r2, st2)"
    using "1.prems"(1) by (subst (asm) authPasses.simps) (auto split: option.splits)
  note f = authPass_facts [OF p "1.prems"(2)]
  show ?case
  proof (cases r2)
    case None
    then have "authInv E srcCheck config st2" using f by (auto simp: authInv_def successIff_def quietConn_def)
    moreover have "authPasses E srcCheck sid config (n + 1) st2 = Some (r, st1)"
      using "1.prems"(1) p None by (subst (asm) authPasses.simps) simp
    ultimately show ?thesis using "1.IH" p None by simp
  next
    case (Some x)
    then have "r = x \<and> st1 = st2" using "1.prems"(1) p by (subst (asm) authPasses.simps) simp
    then show ?thesis using f Some by simp
  qed
qed

section \<open>Counting failures\<close>

text \<open>The failed requests of the log, without those for the method \<open>none\<close>.\<close>

definition failedOthers :: "authState \<Rightarrow> nat" where
  "failedOthers st = length (filter (\<lambda>(m, e). m \<noteq> ''none'' \<and> e \<noteq> None) (sa_log st))"

definition countInv :: "ServerConfig \<Rightarrow> authState \<Rightarrow> bool" where
  "countInv config st \<longleftrightarrow> 0 \<le> authFailures st \<and> int (failedOthers st) \<le> authFailures st \<and> authFailures st \<le> MaxAuthTries config"

lemma writeOr_count:
  "writeOr p r st = Some (r1, st1) \<Longrightarrow>
     authFailures st1 = authFailures st \<and> failedOthers st1 = failedOthers st \<and> (r1 = None \<longrightarrow> r = None)"
  by (auto simp: writeOr_def failedOthers_def split: option.splits prod.splits res.splits)

lemma methodSwitch_count:
  assumes "methodSwitch E srcCheck sid config n meth payload st = Some (r, st1)"
  shows "sa_log st1 = sa_log st \<and>
    authFailures st1 = (if meth = ''none'' \<and> authFailures st = 0 then -1 else authFailures st) \<and>
    (meth = ''none'' \<longrightarrow> (\<exists>e p. r = MAuth e p))"
  using assms
  by (auto simp: methodSwitch_def noneMethod_def keyboardMethod_def publickeyMethod_def queryReply_def Let_def
    split: if_splits option.splits list.splits prod.splits res.splits)

lemma endOfPass_count:
  assumes "endOfPass config meth e p st = Some (r, st1)" "AuthLogCallback config"
    and "int (failedOthers st) \<le> max 0 (authFailures st)" "authFailures st < MaxAuthTries config" "-1 \<le> authFailures st"
    and "authFailures st = -1 \<longrightarrow> meth = ''none''" "0 < MaxAuthTries config"
  shows "int (failedOthers st1) \<le> MaxAuthTries config \<and> (r = None \<longrightarrow> countInv config st1)"
proof (cases e)
  case None
  then show ?thesis
    using assms by (auto simp: endOfPass_def Let_def countInv_def failedOthers_def dest!: writeOr_count)
next
  case (Some x)
  define st2 where "st2 = st\<lparr>authErrs := authErrs st @ [e], sa_log := sa_log st @ [(meth, e)], authFailures := authFailures st + 1\<rparr>"
  have s: "authFailures st1 = authFailures st2 \<and> failedOthers st1 = failedOthers st2"
    using assms(1,2) Some by (auto simp: endOfPass_def Let_def st2_def dest!: writeOr_count split: if_splits)
  have "failedOthers st2 = failedOthers st + (if meth = ''none'' then 0 else 1)" using Some by (auto simp: failedOthers_def st2_def)
  moreover have "authFailures st2 = authFailures st + 1" by (simp add: st2_def)
  ultimately show ?thesis using s assms(3-7) by (auto simp: countInv_def split: if_splits)
qed

lemma handleRequest_count:
  assumes "handleRequest E srcCheck sid config n user service meth payload st = Some (r, st1)" "AuthLogCallback config"
    and "countInv config st" "authFailures st < MaxAuthTries config"
  shows "int (failedOthers st1) \<le> MaxAuthTries config \<and> (r = None \<longrightarrow> countInv config st1)"
proof (cases "service = serviceSSH")
  case True
  then obtain m st2 where m: "methodSwitch E srcCheck sid config n meth payload (st\<lparr>sa_user := user\<rparr>) = Some (m, st2)"
    using assms by (auto simp: handleRequest_def split: option.splits)
  note f = methodSwitch_count [OF m]
  have l: "failedOthers st2 = failedOthers st" using f by (simp add: failedOthers_def)
  show ?thesis
  proof (cases m)
    case (MAuth e p)
    then have "endOfPass config meth e p st2 = Some (r, st1)" using assms(1) True m by (simp add: handleRequest_def)
    then show ?thesis
      by (rule endOfPass_count) (use assms(2-4) f l in \<open>auto simp: countInv_def split: if_splits\<close>)
  qed (use assms True m f l in \<open>auto simp: handleRequest_def countInv_def split: if_splits\<close>)
qed (use assms in \<open>auto simp: handleRequest_def countInv_def\<close>)

lemma authPass_count:
  assumes "authPass E srcCheck sid config n st = Some (r, st1)" "AuthLogCallback config" "countInv config st" "0 < MaxAuthTries config"
  shows "int (failedOthers st1) \<le> MaxAuthTries config \<and> (r = None \<longrightarrow> countInv config st1)"
proof (cases "authFailures st \<ge> MaxAuthTries config")
  case True
  then show ?thesis using assms by (auto simp: authPass_def countInv_def dest!: writeOr_count)
next
  case False
  then obtain p c where p: "pc_readPacket (sa_conn st) = Some (p, c)" using assms(1) by (auto simp: authPass_def split: option.splits if_splits)
  have i: "countInv config (st\<lparr>sa_conn := c\<rparr>)" "authFailures (st\<lparr>sa_conn := c\<rparr>) < MaxAuthTries config"
    using assms(3) False by (auto simp: countInv_def failedOthers_def)
  show ?thesis
    using assms(1,3) False p handleRequest_count [OF _ assms(2) i]
    by (auto simp: authPass_def countInv_def failedOthers_def split: if_splits res.splits message.splits)
qed

lemma authPasses_count:
  assumes "authPasses E srcCheck sid config n st = Some (r, st1)" "AuthLogCallback config" "countInv config st" "0 < MaxAuthTries config"
  shows "int (failedOthers st1) \<le> MaxAuthTries config"
  using assms
proof (induction E srcCheck sid config n st rule: authPasses.induct)
  case (1 E srcCheck sid config n st)
  obtain r2 st2 where p: "authPass E srcCheck sid config n st = Some (r2, st2)"
    using "1.prems"(1) by (subst (asm) authPasses.simps) (auto split: option.splits)
  note f = authPass_count [OF p "1.prems"(2-4)]
  show ?case
  proof (cases r2)
    case None
    moreover have "authPasses E srcCheck sid config (n + 1) st2 = Some (r, st1)"
      using "1.prems"(1) p None by (subst (asm) authPasses.simps) simp
    ultimately show ?thesis using "1.IH" p "1.prems"(2,4) f by simp
  next
    case (Some x)
    then have "r = x \<and> st1 = st2" using "1.prems"(1) p by (subst (asm) authPasses.simps) simp
    then show ?thesis using f by simp
  qed
qed

section \<open>Requests for the method none\<close>

definition noneRequest :: "string \<Rightarrow> bytes" where
  "noneRequest user = msgBytes (UserAuthRequestMsg user serviceSSH ''none'' [])"

definition failureBytes :: "ServerConfig \<Rightarrow> bytes" where
  "failureBytes config = msgBytes (UserAuthFailureMsg (failureMethodsOf config) False)"

lemma noneRequest_msg:
  assumes "length user < 2 ^ 31"
  shows "MarshalMsg (UserAuthRequestMsg user serviceSSH ''none'' []) = Ok (noneRequest user)"
    "UnmarshalMsg T_userAuthRequestMsg (noneRequest user) = Ok (UserAuthRequestMsg user serviceSSH ''none'' [])"
proof -
  have ok: "msg_ok (UserAuthRequestMsg user serviceSSH ''none'' [])" by (simp add: msg_ok_def)
  then show "MarshalMsg (UserAuthRequestMsg user serviceSSH ''none'' []) = Ok (noneRequest user)" by (simp add: MarshalMsg_ok noneRequest_def)
  have "length (noneRequest user) < 2 ^ 32" using assms by (simp add: noneRequest_def msgBytes_tag bytes_of_string_def)
  with UnmarshalMsg_msgBytes [OF ok] show "UnmarshalMsg T_userAuthRequestMsg (noneRequest user) = Ok (UserAuthRequestMsg user serviceSSH ''none'' [])"
    by (simp add: noneRequest_def)
qed

lemma failure_msg: "MarshalMsg (UserAuthFailureMsg (failureMethodsOf config) False) = Ok (failureBytes config)"
  unfolding failureBytes_def by (rule MarshalMsg_ok) (simp add: msg_ok_def failureMethodsOf_ok)

lemma writeRes_ok: "pc_wres c = [] \<Longrightarrow> writeRes (Ok p) c = Some (Ok (), c\<lparr>pc_out := pc_out c @ [p]\<rparr>)"
  by (simp add: writeRes_def act_bind_def act_res_def pc_writePacket_def)

abbreviation (input) noneError :: gerror where "noneError \<equiv> ErrNew ''no auth passed yet''"

lemma none_pass:
  assumes "length user < 2 ^ 31" "pc_in (sa_conn st) = Ok (noneRequest user) # rs" "pc_wres (sa_conn st) = []"
    and "\<not> NoClientAuth config" "failureMethodsOf config \<noteq> []" "authFailures st = 0"
  shows "authPass E srcCheck sid config n st = Some (None, st\<lparr>sa_user := user, authErrs := authErrs st @ [Some noneError],
    sa_log := (if AuthLogCallback config then sa_log st @ [(''none'', Some noneError)] else sa_log st),
    sa_conn := (sa_conn st)\<lparr>pc_in := rs, pc_out := pc_out (sa_conn st) @ [failureBytes config]\<rparr>\<rparr>)"
  using assms noneRequest_msg(2) [OF assms(1)]
  by (auto simp: authPass_def pc_readPacket_def handleRequest_def methodSwitch_def noneMethod_def endOfPass_def Let_def writeOr_def
    failure_msg writeRes_ok)

lemma none_passes:
  assumes "length user < 2 ^ 31" "\<not> NoClientAuth config" "failureMethodsOf config \<noteq> []"
  shows "pc_in (sa_conn st) = replicate m (Ok (noneRequest user)) @ [Err IoEOF] \<Longrightarrow> pc_wres (sa_conn st) = [] \<Longrightarrow> authFailures st = 0 \<Longrightarrow>
    \<exists>st1. authPasses E srcCheck sid config n st = Some (ServerAuthError (authErrs st @ replicate m (Some noneError)), st1) \<and>
      pc_out (sa_conn st1) = pc_out (sa_conn st) @ replicate m (failureBytes config)"
proof (induction m arbitrary: n st)
  case 0
  then show ?case by (subst authPasses.simps) (auto simp: authPass_def pc_readPacket_def)
next
  case (Suc m)
  let ?st = "st\<lparr>sa_user := user, authErrs := authErrs st @ [Some noneError],
    sa_log := (if AuthLogCallback config then sa_log st @ [(''none'', Some noneError)] else sa_log st),
    sa_conn := (sa_conn st)\<lparr>pc_in := replicate m (Ok (noneRequest user)) @ [Err IoEOF], pc_out := pc_out (sa_conn st) @ [failureBytes config]\<rparr>\<rparr>"
  have "authPass E srcCheck sid config n st = Some (None, ?st)"
    by (rule none_pass) (use assms Suc.prems in simp_all)
  moreover obtain st1 where "authPasses E srcCheck sid config (n + 1) ?st = Some (ServerAuthError (authErrs ?st @ replicate m (Some noneError)), st1)"
      "pc_out (sa_conn st1) = pc_out (sa_conn ?st) @ replicate m (failureBytes config)"
    using Suc.IH [of ?st "n + 1"] Suc.prems by auto
  ultimately show ?case by (subst authPasses.simps) simp
qed

section \<open>The client\<close>

text \<open>An action reads the front of what is to come; an attempt that succeeds has read the success message.\<close>

definition consumes :: "'a act \<Rightarrow> bool" where
  "consumes m \<longleftrightarrow> (\<forall>c r c1. m c = Some (r, c1) \<longrightarrow> (\<exists>used. pc_in c = used @ pc_in c1))"

definition told :: "bytes res list \<Rightarrow> bool" where
  "told used \<longleftrightarrow> (\<exists>bs. Ok (msgUserAuthSuccess # bs) \<in> set used)"

definition honest :: "(bool \<times> string list option) act \<Rightarrow> bool" where
  "honest m \<longleftrightarrow> (\<forall>c r c1. m c = Some (r, c1) \<longrightarrow> (\<exists>used. pc_in c = used @ pc_in c1 \<and> (\<forall>ms. r = Ok (True, ms) \<longrightarrow> told used)))"

lemma consumes_basic: "consumes (act_res r)" "consumes (writeRes p)" "consumes pc_readPacket"
  by (auto simp: consumes_def act_res_def pc_readPacket_def dest: writeRes_in split: list.splits)

lemma act_bind_Some:
  "act_bind m f c = Some (r, c2) \<Longrightarrow>
     (\<exists>x c1. m c = Some (Ok x, c1) \<and> f x c1 = Some (r, c2)) \<or> (\<exists>q. m c = Some (q, c2) \<and> (\<forall>x. r \<noteq> Ok x))"
  by (auto simp: act_bind_def split: option.splits prod.splits res.splits)

lemma honestD: "honest m \<Longrightarrow> m c = Some (r, c1) \<Longrightarrow> \<exists>used. pc_in c = used @ pc_in c1 \<and> (\<forall>ms. r = Ok (True, ms) \<longrightarrow> told used)"
  by (simp add: honest_def)

lemma honest_bind:
  assumes "consumes m" "\<And>x. honest (f x)"
  shows "honest (act_bind m f)"
  unfolding honest_def
proof (intro allI impI)
  fix c r c2 assume "act_bind m f c = Some (r, c2)"
  from act_bind_Some [OF this] consider x c1 where "m c = Some (Ok x, c1)" "f x c1 = Some (r, c2)" | q where "m c = Some (q, c2)" "\<forall>x. r \<noteq> Ok x"
    by blast
  then show "\<exists>used. pc_in c = used @ pc_in c2 \<and> (\<forall>ms. r = Ok (True, ms) \<longrightarrow> told used)"
  proof cases
    case 1
    obtain u1 where "pc_in c = u1 @ pc_in c1" using assms(1) 1(1) unfolding consumes_def by blast
    moreover obtain u2 where "pc_in c1 = u2 @ pc_in c2" "\<forall>ms. r = Ok (True, ms) \<longrightarrow> told u2"
      using honestD [OF assms(2) 1(2)] by blast
    ultimately show ?thesis by (intro exI [of _ "u1 @ u2"]) (auto simp: told_def)
  next
    case 2
    then obtain u where "pc_in c = u @ pc_in c2" using assms(1) unfolding consumes_def by blast
    then show ?thesis using 2(2) by blast
  qed
qed

lemma consumes_bind:
  assumes "consumes m" "\<And>x. consumes (f x)"
  shows "consumes (act_bind m f)"
  unfolding consumes_def
proof (intro allI impI)
  fix c r c2 assume "act_bind m f c = Some (r, c2)"
  from act_bind_Some [OF this] consider x c1 where "m c = Some (Ok x, c1)" "f x c1 = Some (r, c2)" | q where "m c = Some (q, c2)"
    by blast
  then show "\<exists>used. pc_in c = used @ pc_in c2"
  proof cases
    case 1
    obtain u1 where "pc_in c = u1 @ pc_in c1" using assms(1) 1(1) unfolding consumes_def by blast
    moreover obtain u2 where "pc_in c1 = u2 @ pc_in c2" using assms(2) [of x] 1(2) unfolding consumes_def by blast
    ultimately show ?thesis by simp
  qed (use assms(1) in \<open>unfold consumes_def, blast\<close>)
qed

lemma honest_consumes: "honest m \<Longrightarrow> consumes m"
  unfolding honest_def consumes_def by blast

lemma readPacket_Some: "pc_readPacket c = Some (r, c1) \<Longrightarrow> pc_in c = r # pc_in c1"
  by (auto simp: pc_readPacket_def split: list.splits)

lemma honest_handleAuthResponse: "honest handleAuthResponse"
proof -
  have "handleAuthResponse c = Some (r, c1) \<Longrightarrow> \<exists>used. pc_in c = used @ pc_in c1 \<and> (\<forall>ms. r = Ok (True, ms) \<longrightarrow> told used)" for c r c1
  proof (induction c rule: handleAuthResponse.induct)
    case (1 c)
    obtain p c2 where p: "pc_readPacket c = Some (p, c2)" using "1.prems" by (subst (asm) handleAuthResponse.simps) (auto split: option.splits)
    note i = readPacket_Some [OF p]
    show ?case
    proof (cases "\<exists>bs. p = Ok (msgUserAuthBanner # bs)")
      case True
      then obtain bs where b: "p = Ok (msgUserAuthBanner # bs)" by blast
      then have "handleAuthResponse c2 = Some (r, c1)" using "1.prems" p by (subst (asm) handleAuthResponse.simps) simp
      then obtain used where "pc_in c2 = used @ pc_in c1" "\<forall>ms. r = Ok (True, ms) \<longrightarrow> told used"
        using "1.IH" [OF p refl b refl refl] by blast
      then show ?thesis using i by (intro exI [of _ "p # used"]) (auto simp: told_def)
    next
      case False
      have "c2 = c1 \<and> (\<forall>ms. r = Ok (True, ms) \<longrightarrow> (\<exists>bs. p = Ok (msgUserAuthSuccess # bs)))"
        using "1.prems" p False
        by (subst (asm) handleAuthResponse.simps) (auto simp: res_simps indexPanic_def split: res.splits list.splits if_splits)
      then show ?thesis using i by (intro exI [of _ "[p]"]) (auto simp: told_def)
    qed
  qed
  then show ?thesis unfolding honest_def by blast
qed

lemma consumes_confirmKeyAck: "consumes (confirmKeyAck algo k)"
proof -
  have "confirmKeyAck algo k c = Some (r, c1) \<Longrightarrow> \<exists>used. pc_in c = used @ pc_in c1" for c r c1
  proof (induction algo k c rule: confirmKeyAck.induct)
    case (1 algo k c)
    obtain p c2 where p: "pc_readPacket c = Some (p, c2)" using "1.prems" by (subst (asm) confirmKeyAck.simps) (auto split: option.splits)
    note i = readPacket_Some [OF p]
    show ?case
    proof (cases "\<exists>bs. p = Ok (msgUserAuthBanner # bs)")
      case True
      then obtain bs where b: "p = Ok (msgUserAuthBanner # bs)" by blast
      then have "confirmKeyAck algo k c2 = Some (r, c1)" using "1.prems" p by (subst (asm) confirmKeyAck.simps) simp
      then obtain used where "pc_in c2 = used @ pc_in c1" using "1.IH" [OF p refl b refl refl] by blast
      then show ?thesis using i by simp
    next
      case False
      then have "c2 = c1"
        using "1.prems" p by (subst (asm) confirmKeyAck.simps) (auto split: res.splits list.splits if_splits)
      then show ?thesis using i by (intro exI [of _ "[p]"]) simp
    qed
  qed
  then show ?thesis unfolding consumes_def by blast
qed

lemma honest_act_res: "(\<And>ms. r \<noteq> Ok (True, ms)) \<Longrightarrow> honest (act_res r)"
  by (simp add: honest_def act_res_def)

text \<open>An answer that is the outcome of the attempt is passed on.\<close>

lemma honest_response:
  assumes "\<And>x. (\<exists>ms. f x = act_res (Ok (fst x, ms))) \<or> honest (f x)"
  shows "honest (act_bind handleAuthResponse f)"
  unfolding honest_def
proof (intro allI impI)
  fix c r c2 assume "act_bind handleAuthResponse f c = Some (r, c2)"
  from act_bind_Some [OF this] consider x c1 where "handleAuthResponse c = Some (Ok x, c1)" "f x c1 = Some (r, c2)"
    | q where "handleAuthResponse c = Some (q, c2)" "\<forall>x. r \<noteq> Ok x" by blast
  then show "\<exists>used. pc_in c = used @ pc_in c2 \<and> (\<forall>ms. r = Ok (True, ms) \<longrightarrow> told used)"
  proof cases
    case 1
    obtain u where u: "pc_in c = u @ pc_in c1" "\<forall>ms. Ok x = Ok (True, ms) \<longrightarrow> told u"
      using honestD [OF honest_handleAuthResponse 1(1)] by blast
    from assms [of x] show ?thesis
    proof
      assume "\<exists>ms. f x = act_res (Ok (fst x, ms))"
      then show ?thesis using u 1(2) by (cases x) (auto simp: act_res_def)
    next
      assume "honest (f x)"
      from honestD [OF this 1(2)] obtain v where "pc_in c1 = v @ pc_in c2" "\<forall>ms. r = Ok (True, ms) \<longrightarrow> told v" by blast
      then show ?thesis using u by (intro exI [of _ "u @ v"]) (auto simp: told_def)
    qed
  next
    case 2
    then show ?thesis using honestD [OF honest_handleAuthResponse 2(1)] by blast
  qed
qed

lemma honest_publickeyLoop: "honest (publickeyLoop E sid user methods signers)"
proof (induction signers arbitrary: methods)
  case Nil
  then show ?case by (simp add: honest_act_res)
next
  case (Cons signer signers)
  have v: "consumes (validateKey E (ss_pub signer) user)"
    unfolding validateKey_def by (intro consumes_bind consumes_basic consumes_confirmKeyAck)
  have r: "honest (act_bind handleAuthResponse (\<lambda>(success, methods1).
      if success \<or> \<not> containsMethod (nilSlice methods1) ''publickey'' then act_res (Ok (success, methods1))
      else publickeyLoop E sid user methods1 signers))"
    by (rule honest_response) (use Cons.IH in auto)
  show ?case
    unfolding publickeyLoop.simps by (rule honest_bind [OF v]) (auto intro: Cons.IH honest_bind [OF consumes_basic(2)] r)
qed

lemma honest_keyboardLoop: "honest (keyboardLoop cb)"
proof -
  have "keyboardLoop cb c = Some (r, c1) \<Longrightarrow> \<exists>used. pc_in c = used @ pc_in c1 \<and> (\<forall>ms. r = Ok (True, ms) \<longrightarrow> told used)" for c r c1
  proof (induction cb c rule: keyboardLoop.induct)
    case (1 cb c)
    obtain p c2 where p: "pc_readPacket c = Some (p, c2)" using "1.prems" by (subst (asm) keyboardLoop.simps) (auto split: option.splits)
    note i = readPacket_Some [OF p]
    consider (banner) bs where "p = Ok (msgUserAuthBanner # bs)"
      | (info) bs c3 where "p = Ok (msgUserAuthInfoRequest # bs)" "writeRes (answerPrompts cb (msgUserAuthInfoRequest # bs)) c2 = Some (Ok (), c3)"
        "keyboardLoop cb c3 = Some (r, c1)"
      | (other) "pc_in c2 = pc_in c1 \<and> (\<forall>ms. r = Ok (True, ms) \<longrightarrow> (\<exists>bs. p = Ok (msgUserAuthSuccess # bs)))"
      using "1.prems" p
      by (subst (asm) keyboardLoop.simps)
        (auto simp: res_simps indexPanic_def dest: writeRes_in split: res.splits list.splits if_splits option.splits prod.splits)
    then show ?case
    proof cases
      case (banner bs)
      then have "keyboardLoop cb c2 = Some (r, c1)" using "1.prems" p by (subst (asm) keyboardLoop.simps) simp
      then obtain used where "pc_in c2 = used @ pc_in c1" "\<forall>ms. r = Ok (True, ms) \<longrightarrow> told used"
        using "1.IH"(1) [OF p refl banner refl refl] by blast
      then show ?thesis using i by (intro exI [of _ "p # used"]) (auto simp: told_def)
    next
      case (info bs c3)
      then obtain used where "pc_in c3 = used @ pc_in c1" "\<forall>ms. r = Ok (True, ms) \<longrightarrow> told used"
        using "1.IH"(2) [OF p refl info(1) refl _ _ _ _ info(2) refl refl] by auto
      then show ?thesis using i writeRes_in [OF info(2)] by (intro exI [of _ "p # used"]) (auto simp: told_def)
    next
      case other
      then show ?thesis using i by (intro exI [of _ "[p]"]) (auto simp: told_def)
    qed
  qed
  then show ?thesis unfolding honest_def by blast
qed

lemma retryLoop_told:
  assumes "retryLoop once maxTries i prev c = Some rc" "\<And>i. honest (once i)" "fst prev = False"
  shows "\<exists>used. pc_in c = used @ pc_in (snd rc) \<and> (\<forall>ms. fst rc = Ok (True, ms) \<longrightarrow> told used)"
  using assms(2,3)
proof (induction rule: retryLoop.raw_induct [OF _ assms(1)])
  case (1 f once maxTries i prev c rc)
  show ?case
  proof (cases "maxTries \<le> 0 \<or> int i < maxTries")
    case True
    then obtain r c1 where o: "once i c = Some (r, c1)" using 1(2) by (auto split: option.splits)
    obtain u where u: "pc_in c = u @ pc_in c1" "\<forall>ms. r = Ok (True, ms) \<longrightarrow> told u" using honestD [OF 1(3) o] by blast
    show ?thesis
    proof (cases "\<exists>methods. r = Ok (False, methods)")
      case more: True
      then obtain methods where "r = Ok (False, methods)" by blast
      then have "f once maxTries (i + 1) (False, methods) c1 = Some rc" using 1(2) True o by simp
      from 1(1) [OF this 1(3)] obtain v where "pc_in c1 = v @ pc_in (snd rc)" "\<forall>ms. fst rc = Ok (True, ms) \<longrightarrow> told v" by auto
      then show ?thesis using u by (intro exI [of _ "u @ v"]) (auto simp: told_def)
    next
      case False
      then have "rc = (r, c1)" using 1(2) True o by (auto split: res.splits if_splits)
      then show ?thesis using u by auto
    qed
  next
    case False
    then have "rc = (Ok prev, c)" using 1(2) by simp
    then show ?thesis using 1(4) by (cases prev) auto
  qed
qed

lemma honest_retryLoop: "(\<And>i. honest (once i)) \<Longrightarrow> honest (retryLoop once maxTries i (False, ms))"
  unfolding honest_def by (metis fst_conv honestD honest_def retryLoop_told snd_conv)

lemma honest_auth: "honest (auth E sid user a n)"
  by (induction a arbitrary: n)
    (auto simp: none_auth_def password_auth_def publickey_auth_def keyboard_auth_def
      intro!: honest_bind consumes_basic honest_handleAuthResponse honest_publickeyLoop honest_keyboardLoop honest_retryLoop)

lemma authLoop_told:
  "authLoop E sid user auths a tried ms c = Some (Ok (), c1) \<Longrightarrow> told (pc_in c)"
proof (induction E sid user auths a tried ms c rule: authLoop.induct)
  case (1 E sid user auths a tried ms c)
  obtain r c2 where r: "auth E sid user a 0 c = Some (r, c2)" using "1.prems" by (subst (asm) authLoop.simps) (auto split: option.splits)
  obtain used where u: "pc_in c = used @ pc_in c2" "\<forall>ms. r = Ok (True, ms) \<longrightarrow> told used" using honestD [OF honest_auth r] by blast
  show ?case
  proof (cases "\<exists>ms. r = Ok (True, ms)")
    case True
    then show ?thesis using u by (auto simp: told_def)
  next
    case False
    then obtain ms0 a1 where f: "r = Ok (False, ms0)"
        "findNext (methodName a # tried) (nilSlice (if ms0 = None then ms else ms0)) auths = Some a1"
        "authLoop E sid user auths a1 (methodName a # tried) (if ms0 = None then ms else ms0) c2 = Some (Ok (), c1)"
      using "1.prems" r by (subst (asm) authLoop.simps) (auto simp: Let_def split: res.splits bool.splits option.splits)
    have "told (pc_in c2)" using "1.IH" [OF r refl f(1) refl refl refl refl f(2) f(3)] .
    then show ?thesis using u by (auto simp: told_def)
  qed
qed

section \<open>A signed request at the server\<close>

definition pubkeyPayload :: "string \<Rightarrow> bytes \<Rightarrow> bytes \<Rightarrow> bytes" where
  "pubkeyPayload algo pubKey sig =
     1 # writeString [] (bytes_of_string algo) @ writeString [] pubKey @ writeString [] sig"

text \<open>The struct the client marshals and the struct the server unmarshals have the same bytes.\<close>

lemma publickeyAuth_tags: "tagBytes publickeyAuthStruct = [50]"
  by (simp add: publickeyAuthStruct_def tag_eval)

lemma publickeyAuthMsg_bytes:
  "publickeyAuthMsg user True algo pubKey (writeString [] sig) =
     Ok (msgBytes (UserAuthRequestMsg user serviceSSH ''publickey'' (pubkeyPayload algo pubKey sig)))"
proof -
  have "vals_ok (sfields publickeyAuthStruct) [VString user, VString serviceSSH, VString ''publickey'', VBool True, VString algo,
      VBytes pubKey, VBytes (writeString [] sig)]" by (simp add: publickeyAuthStruct_def)
  from Marshal_ok [OF this] show ?thesis
    unfolding publickeyAuthMsg_def structBytes_def publickeyAuth_tags
    by (simp add: msgBytes_tag pubkeyPayload_def) (simp add: publickeyAuthStruct_def)
qed

lemma pubkeyPayload_parts:
  assumes "length (pubkeyPayload algo pubKey sig) < 2 ^ 32"
  shows "\<exists>r1 r2. pubkeyPayload algo pubKey sig = 1 # r1 \<and> parseString r1 = Some (bytes_of_string algo, r2) \<and>
    parseString r2 = Some (pubKey, writeString [] sig) \<and> parseString (writeString [] sig) = Some (sig, [])"
  using assms strc.dec_enc [of "bytes_of_string algo" "writeString [] pubKey @ writeString [] sig"]
    strc.dec_enc [of pubKey "writeString [] sig"] strc.dec_enc [of sig "[]"]
  by (auto simp: pubkeyPayload_def)

lemma signedRequest_parts:
  assumes "signedRequest E signer sid user = Ok p"
  obtains pubKey algo d sign sb where "pk_Marshal E (ss_pub signer) = Ok pubKey" "pk_Type (ss_pub signer) = Ok algo"
    "buildDataSignedForAuth sid user serviceSSH ''publickey'' (bytes_of_string algo) pubKey = Ok d" "ss_Sign signer d = Ok sign"
    "marshalSignature sign = Ok sb" "p = msgBytes (UserAuthRequestMsg user serviceSSH ''publickey'' (pubkeyPayload algo pubKey sb))"
  using assms by (auto simp: signedRequest_def res_simps publickeyAuthMsg_bytes)

lemma payload_length: "length payload \<le> length (msgBytes (UserAuthRequestMsg user service meth payload))"
  by (simp add: msgBytes_tag)

text \<open>
  The server's switch on such a request: which permissions it grants depends on the two algorithm checks, on the
  callback and on the source address.
\<close>

definition keyGranted :: "string \<Rightarrow> string \<Rightarrow> Permissions option res \<Rightarrow> (string \<Rightarrow> unit res) \<Rightarrow> Permissions option \<Rightarrow> bool" where
  "keyGranted algo fmt answer srcCheck perms \<longleftrightarrow> isAcceptableAlgo algo \<and> isAcceptableAlgo fmt \<and> answer = Ok perms \<and>
     (sourceAddressOf perms = [] \<or> srcCheck (sourceAddressOf perms) = Ok ())"

lemma askCallback_granted:
  "askCallback answer srcCheck = Ok (None, perms) \<longleftrightarrow>
     answer = Ok perms \<and> (sourceAddressOf perms = [] \<or> srcCheck (sourceAddressOf perms) = Ok ())"
  by (auto simp: askCallback_def split: res.splits if_splits)

lemma publickeyMethod_signed:
  assumes "signedRequest E signer sid user = Ok p" "length p < 2 ^ 32" "key_ok E (ss_pub signer)"
    and "PublicKeyCallback config = Some cb"
    and "\<And>d sign. ss_Sign signer d = Ok sign \<Longrightarrow> pk_Verify E (ss_pub signer) d sign = Ok () \<and> sig_Format sign = fmt"
    and "pk_Type (ss_pub signer) = Ok algo" "sa_cache st = []" "sa_user st = user"
  shows "\<exists>payload r st1. p = msgBytes (UserAuthRequestMsg user serviceSSH ''publickey'' payload) \<and>
    publickeyMethod E srcCheck sid config n payload st = Some (r, st1) \<and> sa_conn st1 = sa_conn st \<and>
    (\<forall>perms. r = MAuth None perms \<longleftrightarrow> keyGranted algo fmt (cb n user (ss_pub signer)) srcCheck perms)"
proof -
  obtain pubKey d sign sb where s: "pk_Marshal E (ss_pub signer) = Ok pubKey"
      "buildDataSignedForAuth sid user serviceSSH ''publickey'' (bytes_of_string algo) pubKey = Ok d" "ss_Sign signer d = Ok sign"
      "marshalSignature sign = Ok sb" "p = msgBytes (UserAuthRequestMsg user serviceSSH ''publickey'' (pubkeyPayload algo pubKey sb))"
    using signedRequest_parts [OF assms(1)] assms(6) by (metis res.inject(1))
  have l: "length (pubkeyPayload algo pubKey sb) < 2 ^ 32" using assms(2) payload_length s(5) le_less_trans by blast
  obtain r1 r2 where r: "pubkeyPayload algo pubKey sb = 1 # r1" "parseString r1 = Some (bytes_of_string algo, r2)"
      "parseString r2 = Some (pubKey, writeString [] sb)" "parseString (writeString [] sb) = Some (sb, [])"
    using pubkeyPayload_parts [OF l] by blast
  have "length pubKey < 2 ^ 32" "length sb < 2 ^ 32" using l by (simp_all add: pubkeyPayload_def)
  then have k: "ParsePublicKey E pubKey = Ok (ss_pub signer)" and b: "parseSignatureBody sb = Some (sign, [])"
    using key_roundtrip(1) [OF assms(3) s(1)] signature_bytes [OF s(4)] by auto
  have g: "parseSignature (writeString [] sb) = Some (sign, [])" using r(4) b by (simp add: parseSignature_def)
  have v: "signedReply E sid user (bytes_of_string algo) pubKey (ss_pub signer) cand (writeString [] sb) =
      (if isAcceptableAlgo fmt then MAuth (ck_result cand) (ck_perms cand) else MAuth (Some (ErrNew ''no auth passed yet'')) None)" for cand
    using assms(5) [OF s(3)] by (simp add: signedReply_def g s(2))
  note pm = publickeyMethod_def
  have "\<exists>r st1. publickeyMethod E srcCheck sid config n (pubkeyPayload algo pubKey sb) st = Some (r, st1) \<and> sa_conn st1 = sa_conn st \<and>
    (\<forall>perms. r = MAuth None perms \<longleftrightarrow> keyGranted algo fmt (cb n user (ss_pub signer)) srcCheck perms)"
  proof (cases "isAcceptableAlgo algo")
    case False
    then show ?thesis using assms(4) by (simp add: pm r(1,2) keyGranted_def)
  next
    case True
    show ?thesis
    proof (cases "askCallback (cb n user (ss_pub signer)) srcCheck")
      case (Ok x)
      obtain result perms where x: "x = (result, perms)" by fastforce
      have "publickeyMethod E srcCheck sid config n (pubkeyPayload algo pubKey sb) st =
          Some (if isAcceptableAlgo fmt then MAuth result perms else MAuth (Some (ErrNew ''no auth passed yet'')) None,
            st\<lparr>sa_cache := cache_add [] \<lparr>ck_user = user, ck_pubKeyData = pubKey, ck_result = result, ck_perms = perms\<rparr>\<rparr>)"
        using True assms(4,7,8) Ok x by (simp add: pm r(1-3) k v candidateFor_def cache_get_def Let_def)
      then show ?thesis using askCallback_granted [of "cb n user (ss_pub signer)" srcCheck] Ok x True
        by (auto simp: keyGranted_def)
    next
      case (Err e)
      then show ?thesis by (simp add: askCallback_def split: res.splits if_splits)
    next
      case (Panic e)
      then show ?thesis using True assms(4,7,8) askCallback_granted [of "cb n user (ss_pub signer)" srcCheck]
        by (auto simp: pm r(1-3) k candidateFor_def cache_get_def keyGranted_def)
    qed
  qed
  then show ?thesis using s(5) by blast
qed

section \<open>Concrete instances\<close>

definition openServer :: ServerConfig where
  "openServer = \<lparr>hostKeys = [toyAuthority], NoClientAuth = True, MaxAuthTries = 6, PasswordCallback = None,
     PublicKeyCallback = None, KeyboardInteractiveCallback = None, AuthLogCallback = True\<rparr>"

definition keyServer :: ServerConfig where
  "keyServer = openServer\<lparr>NoClientAuth := False,
     PublicKeyCallback := Some (\<lambda>_ user key. if key = ss_pub toyAuthority then Ok None else Err (ErrNew ''unknown key''))\<rparr>"

abbreviation (input) incoming :: "bytes res list \<Rightarrow> packetConn" where
  "incoming ps \<equiv> \<lparr>pc_in = ps, pc_wres = [], pc_out = []\<rparr>"

text \<open>A server that accepts the key for some source addresses only.\<close>

definition boundPerms :: "Permissions option" where
  "boundPerms = Some \<lparr>CriticalOptions = [(''source-address'', ''10.0.0.0/8'')], Extensions = []\<rparr>"

definition boundServer :: ServerConfig where
  "boundServer = keyServer\<lparr>PublicKeyCallback :=
     Some (\<lambda>_ user key. if key = ss_pub toyAuthority then Ok boundPerms else Err (ErrNew ''unknown key''))\<rparr>"

lemma toy_signedRequest: "\<exists>p. signedRequest toyKeys toyAuthority [1] ''u'' = Ok p \<and> length p < 2 ^ 32"
proof -
  let ?k = "replicate 32 (5 :: byte)"
  obtain pk where pk: "pk_Marshal toyKeys (ED25519PublicKey ?k) = Ok pk" "length pk = 51"
    by (simp add: Marshal_ok bytes_of_string_def)
  define d where "d = structBytes signedDataStruct [VBytes [1], VU8 50, VString ''u'', VString ''ssh-connection'', VString ''publickey'',
    VBool True, VBytes (bytes_of_string ''ssh-ed25519''), VBytes pk]"
  have b: "buildDataSignedForAuth [1] ''u'' ''ssh-connection'' ''publickey'' (bytes_of_string ''ssh-ed25519'') pk = Ok d"
    unfolding buildDataSignedForAuth_def d_def by (rule Marshal_ok) (simp_all add: signedDataStruct_def)
  have ld: "length d < 1000" using pk(2) by (simp add: d_def signedDataStruct_def bytes_of_string_def)
  obtain sb where sb: "marshalSignature \<lparr>sig_Format = ''ssh-ed25519'', sig_Blob = d\<rparr> = Ok sb" "length sb = length d + 19"
    by (simp add: marshalSignature_def Marshal_ok signatureStruct_def bytes_of_string_def)
  let ?p = "msgBytes (UserAuthRequestMsg ''u'' ''ssh-connection'' ''publickey'' (pubkeyPayload ''ssh-ed25519'' pk sb))"
  have "signedRequest toyKeys toyAuthority [1] ''u'' = Ok ?p"
    using pk(1) b sb(1) by (simp add: signedRequest_def toyAuthority_def publickeyAuthMsg_bytes del: pk_Marshal.simps)
  moreover have "length ?p < 2 ^ 32" using pk(2) sb(2) ld by (simp add: msgBytes_tag pubkeyPayload_def bytes_of_string_def)
  ultimately show ?thesis by blast
qed

text \<open>With one packet to read, only the first pass can end with success.\<close>

lemma authPasses_single:
  assumes "authPasses E srcCheck sid config n st = Some (AuthOk perms, st')" "length (pc_in (sa_conn st)) \<le> 1"
  shows "\<exists>st2. authPass E srcCheck sid config n st = Some (Some (AuthOk perms), st2)"
proof -
  obtain r st1 where p: "authPass E srcCheck sid config n st = Some (r, st1)"
    using assms(1) by (subst (asm) authPasses.simps) (auto split: option.splits)
  show ?thesis
  proof (cases r)
    case None
    have "pc_in (sa_conn st1) = []" using authPass_less [OF p [unfolded None]] assms(2) by (cases "pc_in (sa_conn st1)") auto
    then have "authPass E srcCheck sid config m st1 \<noteq> Some (None, st2) \<and> authPass E srcCheck sid config m st1 \<noteq> Some (Some (AuthOk perms), st2)" for m st2
      by (auto simp: authPass_def pc_readPacket_def writeOr_def split: option.splits prod.splits res.splits)
    then show ?thesis using assms(1) p None
      by (subst (asm) authPasses.simps, subst (asm) authPasses.simps) (fastforce split: option.splits)
  next
    case (Some a)
    then show ?thesis using assms(1) p by (subst (asm) authPasses.simps) auto
  qed
qed

lemma keyServer_methods: "failureMethodsOf keyServer = [''publickey'']"
  by (simp add: failureMethodsOf_def keyServer_def openServer_def)

lemma openServer_none:
  "\<exists>st. serverAuthenticate toyKeys srcCheck sid openServer (incoming [Ok (noneRequest ''u'')]) = Some (AuthOk None, st) \<and>
     pc_out (sa_conn st) = [[52]]"
  using noneRequest_msg(2) [of "''u''"] unfolding serverAuthenticate_def
  by (subst authPasses.simps)
    (simp add: authPass_def openServer_def pc_readPacket_def handleRequest_def methodSwitch_def noneMethod_def endOfPass_def Let_def
      writeOr_def writeRes_ok)

lemma signed_request_iff:
  assumes "signedRequest E signer sid user = Ok p" "length p < 2 ^ 32" "key_ok E (ss_pub signer)"
    and "PublicKeyCallback config = Some cb" "pk_Type (ss_pub signer) = Ok algo"
    and "\<And>d sign. ss_Sign signer d = Ok sign \<Longrightarrow> pk_Verify E (ss_pub signer) d sign = Ok () \<and> sig_Format sign = fmt"
  shows "(\<exists>st. serverAuthenticate E srcCheck sid config \<lparr>pc_in = [Ok p], pc_wres = [], pc_out = []\<rparr> = Some (AuthOk perms, st) \<and>
      sa_user st = user \<and> pc_out (sa_conn st) = [[msgUserAuthSuccess]]) \<longleftrightarrow>
    isAcceptableAlgo algo \<and> isAcceptableAlgo fmt \<and> cb 0 user (ss_pub signer) = Ok perms \<and>
    (sourceAddressOf perms = [] \<or> srcCheck (sourceAddressOf perms) = Ok ())"
proof -
  let ?st = "\<lparr>sa_conn = \<lparr>pc_in = [], pc_wres = [], pc_out = []\<rparr>, sa_user = user, sa_cache = [], authFailures = 0, authErrs = [], sa_log = []\<rparr>"
  let ?run = "serverAuthenticate E srcCheck sid config \<lparr>pc_in = [Ok p], pc_wres = [], pc_out = []\<rparr>"
  obtain payload r st1 where m: "p = msgBytes (UserAuthRequestMsg user serviceSSH ''publickey'' payload)"
      "publickeyMethod E srcCheck sid config 0 payload ?st = Some (r, st1)" "sa_conn st1 = sa_conn ?st"
      "\<And>perms. r = MAuth None perms \<longleftrightarrow> keyGranted algo fmt (cb 0 user (ss_pub signer)) srcCheck perms"
    using publickeyMethod_signed [OF assms(1-4) assms(6,5), of ?st srcCheck 0] by auto
  have "msg_ok (UserAuthRequestMsg user serviceSSH ''publickey'' payload)" by (simp add: msg_ok_def)
  from UnmarshalMsg_msgBytes [OF this] have u: "UnmarshalMsg T_userAuthRequestMsg p = Ok (UserAuthRequestMsg user serviceSSH ''publickey'' payload)"
    using assms(2) m(1) by simp
  note pass = authPass_def pc_readPacket_def u handleRequest_def methodSwitch_def m(2,3)
  have "(\<exists>st. ?run = Some (AuthOk perms, st) \<and> sa_user st = user \<and> pc_out (sa_conn st) = [[msgUserAuthSuccess]]) \<longleftrightarrow> r = MAuth None perms"
  proof
    assume r: "r = MAuth None perms"
    have f: "sa_user st1 = user" using publickeyMethod_facts [OF m(2) [unfolded r]] by (simp add: cache_ok_def)
    show "\<exists>st. ?run = Some (AuthOk perms, st) \<and> sa_user st = user \<and> pc_out (sa_conn st) = [[msgUserAuthSuccess]]"
      unfolding serverAuthenticate_def
      by (subst authPasses.simps) (auto simp: pass r f endOfPass_def Let_def writeOr_def writeRes_ok)
  next
    assume "\<exists>st. ?run = Some (AuthOk perms, st) \<and> sa_user st = user \<and> pc_out (sa_conn st) = [[msgUserAuthSuccess]]"
    then obtain st where st: "?run = Some (AuthOk perms, st)" by blast
    let ?st0 = "\<lparr>sa_conn = \<lparr>pc_in = [Ok p], pc_wres = [], pc_out = []\<rparr>, sa_user = [], sa_cache = [], authFailures = 0, authErrs = [], sa_log = []\<rparr>"
    from st obtain st2 where st2: "authPass E srcCheck sid config 0 ?st0 = Some (Some (AuthOk perms), st2)"
      using authPasses_single [of E srcCheck sid config 0 ?st0] unfolding serverAuthenticate_def by auto
    then show "r = MAuth None perms"
      by (cases r) (auto simp: pass endOfPass_def Let_def writeOr_def split: option.splits res.splits if_splits prod.splits)
  qed
  then show ?thesis using m(4) by (simp add: keyGranted_def)
qed

lemma toy_signature:
  assumes "ss_Sign toyAuthority d = Ok sign"
  shows "pk_Verify toyKeys (ss_pub toyAuthority) d sign = Ok () \<and> sig_Format sign = ''ssh-ed25519''"
  using toyAuthority_verifies [OF assms] assms by (auto simp: toyAuthority_def)

lemma toy_key:
  "key_ok toyKeys (ss_pub toyAuthority)" "pk_Type (ss_pub toyAuthority) = Ok ''ssh-ed25519''" "isAcceptableAlgo ''ssh-ed25519''"
  by (simp_all add: toyAuthority_def isAcceptableAlgo_def)

lemma keyServer_accepts:
  "\<exists>p st. serverAuthenticate toyKeys (\<lambda>_. Ok ()) [1] keyServer (incoming [Ok p]) = Some (AuthOk None, st) \<and> sa_user st = ''u''"
proof -
  obtain p where p: "signedRequest toyKeys toyAuthority [1] ''u'' = Ok p" "length p < 2 ^ 32"
    using toy_signedRequest by blast
  obtain cb where cb: "PublicKeyCallback keyServer = Some cb" "cb 0 ''u'' (ss_pub toyAuthority) = Ok None"
    by (simp add: keyServer_def)
  have "\<exists>st. serverAuthenticate toyKeys (\<lambda>_. Ok ()) [1] keyServer (incoming [Ok p]) = Some (AuthOk None, st) \<and> sa_user st = ''u''"
    using signed_request_iff [OF p toy_key(1) cb(1) toy_key(2) toy_signature, of "\<lambda>_. Ok ()" None] toy_key(3) cb(2)
    by (auto simp: sourceAddressOf_def)
  then show ?thesis by blast
qed

lemma initial_inv: "authInv E srcCheck config \<lparr>sa_conn = c, sa_user = u, sa_cache = [], authFailures = 0, authErrs = [], sa_log = []\<rparr>"
  if "quietConn c"
  using that by (simp add: authInv_def cache_ok_def)

section \<open>Properties\<close>

text \<open>C1: Whom a server lets in. The server sends the success message exactly when it ends with success, and it ends with
  success only if the configuration needs no authentication, or the password or keyboard-interactive
  callback accepted the user, or the public key callback accepted, for this user, a key under which a
  signature over this session, this user and this key verifies, with any source address restriction met.\<close>

theorem server_lets_in_only_granted:
  assumes "serverAuthenticate E srcCheck sid config c = Some (r, st)" "[52] \<notin> set (pc_out c)"
  shows "([52] \<in> set (pc_out (sa_conn st)) \<longleftrightarrow> (\<exists>perms. r = AuthOk perms)) \<and>
    (\<forall>perms. r = AuthOk perms \<longrightarrow> grants E srcCheck sid config (sa_user st) perms)"
proof -
  have "quietConn c" using assms(2) by (simp add: quietConn_def)
  from authPasses_facts [OF assms(1) [unfolded serverAuthenticate_def] initial_inv [OF this]] show ?thesis
    by (simp add: successIff_def)
qed

lemma server_lets_in_only_granted_witness:
  "\<exists>p st. serverAuthenticate toyKeys (\<lambda>_. Ok ()) [1] keyServer (incoming [Ok p]) = Some (AuthOk None, st) \<and> sa_user st = ''u'' \<and>
     [52] \<in> set (pc_out (sa_conn st)) \<and> \<not> NoClientAuth keyServer \<and> grants toyKeys (\<lambda>_. Ok ()) [1] keyServer ''u'' None"
proof -
  obtain p st where s: "serverAuthenticate toyKeys (\<lambda>_. Ok ()) [1] keyServer (incoming [Ok p]) = Some (AuthOk None, st)" "sa_user st = ''u''"
    using keyServer_accepts by blast
  from server_lets_in_only_granted [OF s(1)] s show ?thesis by (auto simp: keyServer_def)
qed

text \<open>C9: Failures are limited. With a positive limit and a log, whatever the client sends, at most that many requests
  for methods other than \<open>none\<close> fail before the connection ends.\<close>

theorem auth_failures_bounded:
  assumes "serverAuthenticate E srcCheck sid config c = Some (r, st)" "0 < MaxAuthTries config" "AuthLogCallback config"
  shows "int (length (filter (\<lambda>(m, e). m \<noteq> ''none'' \<and> e \<noteq> None) (sa_log st))) \<le> MaxAuthTries config"
  using authPasses_count [OF assms(1) [unfolded serverAuthenticate_def] assms(3) _ assms(2)] assms(2)
  by (simp add: countInv_def failedOthers_def)

lemma auth_failures_bounded_witness:
  "\<exists>st. serverAuthenticate toyKeys (\<lambda>_. Ok ()) [1] openServer (incoming [Ok (noneRequest ''u'')]) = Some (AuthOk None, st) \<and>
     int (length (filter (\<lambda>(m, e). m \<noteq> ''none'' \<and> e \<noteq> None) (sa_log st))) \<le> 6"
proof -
  obtain st where s: "serverAuthenticate toyKeys (\<lambda>_. Ok ()) [1] openServer (incoming [Ok (noneRequest ''u'')]) = Some (AuthOk None, st)"
    using openServer_none by blast
  from auth_failures_bounded [OF s] s show ?thesis by (auto simp: openServer_def)
qed

text \<open>C10: Requests for the method \<open>none\<close> are not limited. They are meant to be free once, but the count returns to zero
  after each: any number of them is answered with a failure message, whatever the limit is.\<close>

theorem none_requests_unlimited:
  assumes "length user < 2 ^ 31" "\<not> NoClientAuth config" "failureMethodsOf config \<noteq> []"
  shows "\<exists>st. serverAuthenticate E srcCheck sid config \<lparr>pc_in = replicate m (Ok (noneRequest user)) @ [Err IoEOF], pc_wres = [], pc_out = []\<rparr> =
      Some (ServerAuthError (replicate m (Some (ErrNew ''no auth passed yet''))), st) \<and>
    pc_out (sa_conn st) = replicate m (failureBytes config)"
  unfolding serverAuthenticate_def
  using none_passes [OF assms, of "\<lparr>sa_conn = \<lparr>pc_in = replicate m (Ok (noneRequest user)) @ [Err IoEOF], pc_wres = [], pc_out = []\<rparr>,
    sa_user = [], sa_cache = [], authFailures = 0, authErrs = [], sa_log = []\<rparr>" m E srcCheck sid 0] by simp

lemma none_requests_unlimited_witness:
  "MaxAuthTries keyServer = 6 \<and>
   (\<exists>st. serverAuthenticate toyKeys (\<lambda>_. Ok ()) [1] keyServer (incoming (replicate 100 (Ok (noneRequest ''u'')) @ [Err IoEOF])) =
      Some (ServerAuthError (replicate 100 (Some (ErrNew ''no auth passed yet''))), st))"
proof -
  have "\<not> NoClientAuth keyServer" "MaxAuthTries keyServer = 6" by (simp_all add: keyServer_def openServer_def)
  then show ?thesis
    using none_requests_unlimited [of "''u''" keyServer toyKeys "\<lambda>_. Ok ()" "[1]" 100] keyServer_methods by auto
qed

text \<open>C11: A client that ends its authentication without an error has received the success message of the server, with
  every method and in every order of the methods.\<close>

theorem client_success_was_told:
  assumes "clientAuthenticate E sid user auths c = Some (Ok (), c1)"
  shows "\<exists>bs. Ok (msgUserAuthSuccess # bs) \<in> set (pc_in c)"
proof -
  obtain c2 where c2: "writeRes (MarshalMsg (ServiceRequestMsg serviceUserAuth)) c = Some (Ok (), c2)"
      "act_bind pc_readPacket (\<lambda>packet. act_bind (act_res (UnmarshalMsg T_serviceAcceptMsg packet)) (\<lambda>_.
        authLoop E sid user auths NoneAuth [] None)) c2 = Some (Ok (), c1)"
    using assms act_bind_Some unfolding clientAuthenticate_def by fastforce
  obtain p c3 where p: "pc_readPacket c2 = Some (p, c3)" "authLoop E sid user auths NoneAuth [] None c3 = Some (Ok (), c1)"
    using c2(2) by (auto simp: act_bind_def act_res_def split: option.splits res.splits)
  show ?thesis using authLoop_told [OF p(2)] readPacket_Some [OF p(1)] writeRes_in [OF c2(1)] by (auto simp: told_def)
qed

lemma client_success_was_told_witness:
  "\<exists>c1. clientAuthenticate toyKeys [1] ''u'' [] (incoming [Ok (msgBytes (ServiceAcceptMsg ''ssh-userauth'')), Ok [52]]) = Some (Ok (), c1) \<and>
     (\<exists>bs. Ok (52 # bs) \<in> set [Ok (msgBytes (ServiceAcceptMsg ''ssh-userauth'')), Ok [52]])"
proof -
  have "MarshalMsg (ServiceRequestMsg ''ssh-userauth'') = Ok (msgBytes (ServiceRequestMsg ''ssh-userauth''))"
    by (rule MarshalMsg_ok) (simp add: msg_ok_def)
  moreover have "UnmarshalMsg T_serviceAcceptMsg (msgBytes (ServiceAcceptMsg ''ssh-userauth'')) = Ok (ServiceAcceptMsg ''ssh-userauth'')"
    using UnmarshalMsg_msgBytes [of "ServiceAcceptMsg ''ssh-userauth''"] by (simp add: msg_ok_def msgBytes_tag bytes_of_string_def)
  ultimately obtain c1 where c: "clientAuthenticate toyKeys [1] ''u'' []
      (incoming [Ok (msgBytes (ServiceAcceptMsg ''ssh-userauth'')), Ok [52]]) = Some (Ok (), c1)"
    using noneRequest_msg(1) [of "''u''"]
    by (simp add: clientAuthenticate_def act_bind_def act_res_def writeRes_ok pc_readPacket_def authLoop.simps none_auth_def
      handleAuthResponse.simps)
  from client_success_was_told [OF c] c show ?thesis by simp
qed



end
