(* ===== verification/Spec2Isabelle.thy ===== *)
theory Spec2Isabelle
  imports OpenHandshake HostKeys AuthSafety
begin

text \<open>
  \<^bold>\<open>A verification of xcryptossh.\<close> The program is a Go implementation of the SSH protocol, an evolution of
  golang.org/x/crypto/ssh with idle timeouts and graceful shutdown.

  \<^bold>\<open>The parts.\<close> A connection is a stack. The packet transport (\<open>src/transport.go\<close>) encrypts packets with one of three
  packet ciphers (\<open>src/cipher.go\<close>, \<open>src/mac.go\<close>). The handshake transport (\<open>src/handshake.go\<close>) runs key exchanges
  (\<open>src/kex.go\<close>) over it and holds packets back meanwhile; at the end of an exchange the client checks the host key
  (\<open>src/keys.go\<close>, \<open>src/certs.go\<close>, \<open>src/knownhosts/knownhosts.go\<close>). Over it the two sides authenticate the user
  (\<open>src/client_auth.go\<close>, \<open>src/server.go\<close>), and then the multiplexer (\<open>src/mux.go\<close>) carries channels (\<open>src/channel.go\<close>) with
  windows (\<open>src/common.go\<close>) and buffers (\<open>src/buffer.go\<close>). Idle timers (\<open>src/idle.go\<close>) and halters (\<open>src/halter.go\<close>) end
  calls that block. All packets have the formats of \<open>src/messages.go\<close>.

  \<^bold>\<open>Conventions.\<close> A struct is a \<open>record\<close>, a method a function from the old to the new record. Bytes are 8 bit words and
  integers of fixed width are words of that width. A fallible call returns \<open>'a res\<close>: a value, an error or a panic,
  where the panics are those of the Go runtime (indices, nil pointers, closed channels) and of the source. A value of
  an interface is a datatype of its implementations. Goroutines that share a state are steps of an inductive
  relation, so that a result over it holds for every interleaving; what a \<open>select\<close> or a blocking call receives is an
  argument. \<open>None\<close> as the result of a call means that the call does not return. Cryptography, randomness, the clock and
  the network are parameters, with the documented behaviour of a library as named hypotheses where a result needs it.
  An error with a format keeps the format and its operands.

  \<^bold>\<open>The theories.\<close>
  \<^item> \<open>Prelude\<close>: bytes, strings, results, the shared collections of rewrite rules.
  \<^item> \<open>Wire\<close>, \<open>Marshal\<close>, \<open>Messages\<close> (\<open>src/messages.go\<close>): the encodings, \<open>Marshal\<close> and \<open>Unmarshal\<close> over descriptions of structs in
    place of reflection, the messages and \<open>decode\<close>. The locale \<open>codec\<close> is the contract of an encoding; it is interpreted for
    integers, strings, name lists and big integers. Reading gives back what was written, and parsing never panics.
  \<^item> \<open>Negotiation\<close> (\<open>src/common.go\<close>): the choice of algorithms, defaults, and the data a public key request signs, which
    determines all of its inputs.
  \<^item> \<open>IdleTimer\<close>, \<open>Buffer\<close>, \<open>Window\<close>, \<open>Halter\<close>: the timer as a function over the events of its goroutine; the buffer, which
    refines a queue of bytes (locale \<open>byte_queue\<close>); the window, whose grants add up; halters, whose stop requests reach exactly
    what is downstream.
  \<^item> \<open>Channel\<close>, \<open>FlowControl\<close> (\<open>src/channel.go\<close>): the operations of a channel, and a sender and a receiver connected over any
    interleaving: no handler fails, data arrive in order, the window is never exceeded and never lost.
  \<^item> \<open>Mux\<close>, \<open>MuxSafety\<close>, \<open>OpenHandshake\<close> (\<open>src/mux.go\<close>): the table of channels, which implements the locale \<open>id_table\<close>, the packet
    loop, its freedom from panics, its end, and the opening of a channel from both sides.
  \<^item> \<open>Cipher\<close>, \<open>PacketCipher\<close>, \<open>Transport\<close>: the three ciphers, each an instance of the locale \<open>packet_cipher\<close> that promises to
    deliver what was written, nonces and padding errors; sequence numbers, key derivation and the change of keys.
  \<^item> \<open>Kex\<close> (\<open>src/kex.go\<close>): the key exchanges, instances of the locale \<open>key_agreement\<close>: both ends compute the same result, and the
    hash binds the transcript.
  \<^item> \<open>Handshake\<close>, \<open>HandshakeSafety\<close> (\<open>src/handshake.go\<close>): the handshake transport, whose write side refines a queue under every
    interleaving of writes and exchanges; both sides make the same plan; what failures leave behind.
  \<^item> \<open>Keys\<close>, \<open>KeyFormat\<close>, \<open>NetAddr\<close>, \<open>Certs\<close>, \<open>AuthorizedKeys\<close> (\<open>src/keys.go\<close>, \<open>src/certs.go\<close>): key types, formats and signatures,
    private key files, the checks of certificates, the text formats and fingerprints. Keys and certificates survive
    each format, and a certificate is accepted exactly under the stated conditions.
  \<^item> \<open>KnownHosts\<close>, \<open>HostKeys\<close> (\<open>src/knownhosts/knownhosts.go\<close>, \<open>client\<close> in \<open>src/handshake.go\<close>): the database of host keys, and which host
    a client accepts at the end of an exchange.
  \<^item> \<open>ClientAuth\<close>, \<open>ServerAuth\<close>, \<open>AuthSafety\<close> (\<open>src/client_auth.go\<close>, \<open>src/server.go\<close>): the methods of authentication and the two
    loops; whom a server lets in, how often a client may fail, and that the two sides agree.

  \<^bold>\<open>Termination.\<close> Loops over data are recursive functions with termination proofs: parsers on the length of the input,
  the loops of authentication on the packets still to be read or the methods not yet tried. The write loop of
  a channel takes fuel; each pass sends at least one byte or waits, so the number of bytes to send is enough, and
  \<open>FlowControl\<close> proves that with it a write returns or waits. \<open>transport_readPacket\<close>, \<open>keyMaterialLoop\<close> and \<open>retryLoop\<close>
  are partial functions; the first two are proved to return, the last need not when its limit is not positive.

  \<^bold>\<open>Where the code falls short.\<close> Some properties state a defect of the code on the model: a timer that stays dead, a
  panic on an authenticated GCM packet, an error of an exchange that is forgotten, a host key that crashes the client,
  requests that are not counted, a revoked authority that stays trusted, a wildcard that misses the empty rest.

  \<^bold>\<open>Not modelled.\<close> Dialling and listening, \<open>NewClientConn\<close> and \<open>NewServerConn\<close> beyond the parts above, and the terminal devices are
  calls of the operating system. Sessions (\<open>src/session.go\<close>) are goroutines that copy between files and a channel. Port
  forwarding (\<open>src/tcpip.go\<close>, \<open>src/streamlocal.go\<close>), the agent (\<open>src/agent\<close>) and the line editor (\<open>src/terminal\<close>) are clients of
  the parts above that no other part depends on. Debug output, accessors, the monotonic clock in assembly and the
  helpers of tests carry no behaviour. Reflection, the Go memory model and the scheduler's fairness are outside the
  model, as is the strength of the cryptography.
\<close>

end
